(* ===== verification/Prelude.thy ===== *)
theory Prelude
  imports Main "HOL-Library.Char_ord" "HOL-Library.List_Lexorder" "HOL-Library.Sublist"
    "HOL-Library.AList" "HOL-Library.Multiset"
begin

text \<open>
  What the Go program takes from the language and its standard library: byte strings
  (package strings), decimal conversions (package strconv), maps, and sorting by a
  comparison function (package sort).

  A Go string is a list of bytes, \<open>string\<close>. White space and letter case are the ASCII
  ones: every definition here agrees with Go on strings of bytes below 128, and passes the
  bytes of other characters through unchanged (Go's Unicode tables are not modelled).
  A Go map is an association list with distinct keys, in the order in which the next
  range statement visits it: a theorem about every such list is a theorem about every
  iteration order. A Go \<open>int\<close> is a mathematical integer with its 64-bit range written
  where a value enters the program.
\<close>

named_theorems gostr "facts on Go strings"
named_theorems goinv "preservation lemmas of the components"

section \<open>Strings\<close>

definition is_space :: "char \<Rightarrow> bool" where
  "is_space c = (let n = (of_char c :: nat) in n = 32 \<or> (9 \<le> n \<and> n \<le> 13))"

definition trim_left_by :: "(char \<Rightarrow> bool) \<Rightarrow> string \<Rightarrow> string" where
  "trim_left_by p s = dropWhile p s"

definition trim_right_by :: "(char \<Rightarrow> bool) \<Rightarrow> string \<Rightarrow> string" where
  "trim_right_by p s = rev (dropWhile p (rev s))"

definition trim_by :: "(char \<Rightarrow> bool) \<Rightarrow> string \<Rightarrow> string" where
  "trim_by p s = trim_right_by p (trim_left_by p s)"

text \<open>\<open>strings.TrimSpace\<close>.\<close>

definition trim_space :: "string \<Rightarrow> string" where
  "trim_space s = trim_by is_space s"

text \<open>\<open>strings.HasPrefix\<close>, \<open>HasSuffix\<close>, \<open>TrimPrefix\<close>, \<open>TrimSuffix\<close>.\<close>

definition has_prefix :: "string \<Rightarrow> string \<Rightarrow> bool" where
  "has_prefix s p = (take (length p) s = p)"

definition has_suffix :: "string \<Rightarrow> string \<Rightarrow> bool" where
  "has_suffix s p = has_prefix (rev s) (rev p)"

definition trim_prefix :: "string \<Rightarrow> string \<Rightarrow> string" where
  "trim_prefix s p = (if has_prefix s p then drop (length p) s else s)"

definition trim_suffix :: "string \<Rightarrow> string \<Rightarrow> string" where
  "trim_suffix s p = (if has_suffix s p then take (length s - length p) s else s)"

text \<open>\<open>strings.Index\<close>, \<open>Contains\<close>, \<open>Cut\<close> (and \<open>SplitN\<close> with the bound 2).\<close>

fun index_of :: "string \<Rightarrow> string \<Rightarrow> nat option" where
  "index_of [] p = (if p = [] then Some 0 else None)"
| "index_of (c # s) p =
     (if has_prefix (c # s) p then Some 0 else map_option Suc (index_of s p))"

definition contains_str :: "string \<Rightarrow> string \<Rightarrow> bool" where
  "contains_str s p = (index_of s p \<noteq> None)"

definition cut_str :: "string \<Rightarrow> string \<Rightarrow> (string \<times> string) option" where
  "cut_str s sep =
     (case index_of s sep of
        None \<Rightarrow> None
      | Some i \<Rightarrow> Some (take i s, drop (i + length sep) s))"

text \<open>\<open>strings.Split\<close> at one byte, \<open>strings.Join\<close>, \<open>strings.Fields\<close>.\<close>

fun split_char :: "char \<Rightarrow> string \<Rightarrow> string list" where
  "split_char c [] = [[]]"
| "split_char c (x # xs) =
     (if x = c then [] # split_char c xs
      else (case split_char c xs of [] \<Rightarrow> [[x]] | y # ys \<Rightarrow> (x # y) # ys))"

fun join_str :: "string \<Rightarrow> string list \<Rightarrow> string" where
  "join_str sep [] = []"
| "join_str sep [x] = x"
| "join_str sep (x # y # ys) = x @ sep @ join_str sep (y # ys)"

fun fields_acc :: "string \<Rightarrow> string \<Rightarrow> string list" where
  "fields_acc [] w = (if w = [] then [] else [rev w])"
| "fields_acc (c # s) w =
     (if is_space c then (if w = [] then fields_acc s [] else rev w # fields_acc s [])
      else fields_acc s (c # w))"

definition fields :: "string \<Rightarrow> string list" where
  "fields s = fields_acc s []"

text \<open>\<open>strings.ToLower\<close>, \<open>ToUpper\<close>, \<open>EqualFold\<close>.\<close>

definition lower_char :: "char \<Rightarrow> char" where
  "lower_char c = (let n = (of_char c :: nat) in
     if 65 \<le> n \<and> n \<le> 90 then char_of (n + 32) else c)"

definition upper_char :: "char \<Rightarrow> char" where
  "upper_char c = (let n = (of_char c :: nat) in
     if 97 \<le> n \<and> n \<le> 122 then char_of (n - 32) else c)"

definition to_lower :: "string \<Rightarrow> string" where
  "to_lower s = map lower_char s"

definition to_upper :: "string \<Rightarrow> string" where
  "to_upper s = map upper_char s"

definition equal_fold :: "string \<Rightarrow> string \<Rightarrow> bool" where
  "equal_fold s t = (to_lower s = to_lower t)"

text \<open>\<open>unicode.IsDigit\<close> and \<open>unicode.IsLetter\<close> on ASCII.\<close>

definition is_digit :: "char \<Rightarrow> bool" where
  "is_digit c = (let n = (of_char c :: nat) in 48 \<le> n \<and> n \<le> 57)"

definition is_letter :: "char \<Rightarrow> bool" where
  "is_letter c = (let n = (of_char c :: nat) in (65 \<le> n \<and> n \<le> 90) \<or> (97 \<le> n \<and> n \<le> 122))"

text \<open>\<open>strings.ReplaceAll\<close> of one byte by a string.\<close>

definition replace_char :: "char \<Rightarrow> string \<Rightarrow> string \<Rightarrow> string" where
  "replace_char c r s = concat (map (\<lambda>x. if x = c then r else [x]) s)"

section \<open>Decimal numbers\<close>

definition digit_val :: "char \<Rightarrow> nat option" where
  "digit_val c = (if is_digit c then Some ((of_char c :: nat) - 48) else None)"

fun digits_val :: "nat \<Rightarrow> string \<Rightarrow> nat option" where
  "digits_val acc [] = Some acc"
| "digits_val acc (c # s) =
     (case digit_val c of None \<Rightarrow> None | Some d \<Rightarrow> digits_val (10 * acc + d) s)"

definition int64_min :: int where "int64_min = - (2 ^ 63)"
definition int64_max :: int where "int64_max = 2 ^ 63 - 1"

definition int64_range :: "int \<Rightarrow> bool" where
  "int64_range n = (int64_min \<le> n \<and> n \<le> int64_max)"

definition in_range64 :: "int \<Rightarrow> int option" where
  "in_range64 n = (if int64_range n then Some n else None)"

text \<open>\<open>strconv.Atoi\<close>: an optional sign, at least one digit, a value of 64 bits.
  None is the error result.\<close>

definition atoi :: "string \<Rightarrow> int option" where
  "atoi s =
     (case s of
        [] \<Rightarrow> None
      | c # r \<Rightarrow>
          if c = CHR ''-'' then
            (if r = [] then None
             else Option.bind (digits_val 0 r) (\<lambda>n. in_range64 (- int n)))
          else if c = CHR ''+'' then
            (if r = [] then None
             else Option.bind (digits_val 0 r) (\<lambda>n. in_range64 (int n)))
          else Option.bind (digits_val 0 s) (\<lambda>n. in_range64 (int n)))"

text \<open>\<open>strconv.Itoa\<close> and the verb d of the package fmt.\<close>

definition digit_char :: "nat \<Rightarrow> char" where
  "digit_char d = char_of (48 + d)"

fun nat_str :: "nat \<Rightarrow> string" where
  "nat_str n = (if n < 10 then [digit_char n] else nat_str (n div 10) @ [digit_char (n mod 10)])"

declare nat_str.simps [simp del]

definition itoa :: "int \<Rightarrow> string" where
  "itoa n = (if n < 0 then CHR ''-'' # nat_str (nat (- n)) else nat_str (nat n))"

text \<open>\<open>strconv.ParseBool\<close>.\<close>

definition parse_bool :: "string \<Rightarrow> bool option" where
  "parse_bool s =
     (if s \<in> set [''1'', ''t'', ''T'', ''TRUE'', ''true'', ''True''] then Some True
      else if s \<in> set [''0'', ''f'', ''F'', ''FALSE'', ''false'', ''False''] then Some False
      else None)"

section \<open>Facts on strings\<close>

lemma has_prefix_iff_prefix: "has_prefix s p \<longleftrightarrow> prefix p s"
  unfolding has_prefix_def prefix_def by (metis append_take_drop_id append_eq_conv_conj)

lemma has_prefix_append [simp, gostr]: "has_prefix (p @ s) p"
  by (simp add: has_prefix_def)

lemma has_prefix_Nil [simp]: "has_prefix s []"
  by (simp add: has_prefix_def)

lemma has_prefix_Cons [simp]:
  "has_prefix (c # s) (d # p) = (c = d \<and> has_prefix s p)"
  "has_prefix [] (d # p) = False"
  by (auto simp: has_prefix_def)

lemma has_prefix_code [code]: "has_prefix s p = (take (length p) s = p)"
  by (rule has_prefix_def)

lemma trim_prefix_append [simp, gostr]: "trim_prefix (p @ s) p = s"
  by (simp add: trim_prefix_def)

lemma trim_prefix_has: "has_prefix s p \<Longrightarrow> p @ trim_prefix s p = s"
  by (simp add: trim_prefix_def) (metis append_take_drop_id has_prefix_def)

lemma index_of_prefix [simp]: "has_prefix s p \<Longrightarrow> index_of s p = Some 0"
  by (cases s; cases p) auto

lemma index_of_SomeD:
  "index_of s p = Some i \<Longrightarrow> s = take i s @ p @ drop (i + length p) s"
proof (induction s p arbitrary: i rule: index_of.induct)
  case (1 p)
  then show ?case by (simp split: if_splits)
next
  case (2 c s p)
  show ?case
  proof (cases "has_prefix (c # s) p")
    case True
    with "2.prems" have "i = 0" by simp
    with True show ?thesis by (simp add: has_prefix_def) (metis append_take_drop_id)
  next
    case False
    with "2.prems" obtain j where "index_of s p = Some j" and "i = Suc j" by auto
    with "2.IH" [OF False] show ?thesis by simp
  qed
qed

lemma index_of_least:
  "index_of s p = Some i \<Longrightarrow> j < i \<Longrightarrow> \<not> has_prefix (drop j s) p"
proof (induction s p arbitrary: i j rule: index_of.induct)
  case (1 p)
  then show ?case by (simp split: if_splits)
next
  case (2 c s p)
  then show ?case
    by (cases j) (auto split: if_splits)
qed

lemma contains_str_iff_sublist: "contains_str s p \<longleftrightarrow> sublist p s"
proof
  assume "contains_str s p"
  then obtain i where "index_of s p = Some i" by (auto simp: contains_str_def)
  then have "s = take i s @ p @ drop (i + length p) s" by (rule index_of_SomeD)
  then show "sublist p s" unfolding sublist_def by blast
next
  assume "sublist p s"
  then obtain u v where "s = u @ p @ v" by (auto simp: sublist_def)
  then show "contains_str s p"
  proof (induction u arbitrary: s)
    case Nil
    then show ?case by (cases s) (auto simp: contains_str_def)
  next
    case (Cons x u)
    then show ?case by (auto simp: contains_str_def)
  qed
qed

lemma cut_str_SomeD: "cut_str s sep = Some (a, b) \<Longrightarrow> s = a @ sep @ b"
  by (auto simp: cut_str_def split: option.splits dest: index_of_SomeD)

lemma split_char_nonempty [simp]: "split_char c s \<noteq> []"
  by (induction s) (auto split: list.splits)

lemma join_split_char: "join_str [c] (split_char c s) = s"
proof (induction s)
  case Nil
  then show ?case by simp
next
  case (Cons x s)
  show ?case
  proof (cases "split_char c s")
    case Nil
    then show ?thesis by simp
  next
    case (Cons y ys)
    with Cons.IH show ?thesis by (cases ys) auto
  qed
qed

lemma split_char_free: "w \<in> set (split_char c s) \<Longrightarrow> c \<notin> set w"
  by (induction s arbitrary: w) (auto split: if_splits list.splits)

lemma trim_right_by_append_last:
  "trim_right_by p (s @ [c]) = (if p c then trim_right_by p s else s @ [c])"
  by (simp add: trim_right_by_def)

lemma trim_left_by_hd: "trim_left_by p s = c # r \<Longrightarrow> \<not> p c"
  unfolding trim_left_by_def by (metis hd_dropWhile list.distinct(1) list.sel(1))

lemma trim_right_by_id: "s = [] \<or> \<not> p (last s) \<Longrightarrow> trim_right_by p s = s"
  by (cases s rule: rev_cases) (auto simp: trim_right_by_def)

lemma trim_right_by_last: "trim_right_by p s = r \<Longrightarrow> r = [] \<or> \<not> p (last r)"
  unfolding trim_right_by_def by (metis hd_dropWhile hd_rev last_rev rev_is_Nil_conv)

lemma trim_right_by_prefix: "prefix (trim_right_by p s) s"
  unfolding trim_right_by_def
  by (metis prefix_def rev_append rev_rev_ident takeWhile_dropWhile_id)

lemma trim_left_by_id: "s = [] \<or> \<not> p (hd s) \<Longrightarrow> trim_left_by p s = s"
  by (cases s) (auto simp: trim_left_by_def)

lemma trim_by_hd: "trim_by p s \<noteq> [] \<Longrightarrow> \<not> p (hd (trim_by p s))"
proof -
  assume ne: "trim_by p s \<noteq> []"
  obtain w where w: "trim_left_by p s = trim_by p s @ w"
    unfolding trim_by_def using trim_right_by_prefix by (metis prefix_def)
  with ne have "hd (trim_left_by p s) = hd (trim_by p s)" and "trim_left_by p s \<noteq> []" by auto
  then show ?thesis by (metis list.collapse trim_left_by_hd)
qed

lemma trim_by_idem [simp]: "trim_by p (trim_by p s) = trim_by p s"
proof -
  have "trim_left_by p (trim_by p s) = trim_by p s"
    by (rule trim_left_by_id) (use trim_by_hd in blast)
  moreover have "trim_right_by p (trim_by p s) = trim_by p s"
    by (rule trim_right_by_id) (unfold trim_by_def, use trim_right_by_last in blast)
  ultimately show ?thesis by (metis trim_by_def)
qed

lemma trim_space_idem [simp, gostr]: "trim_space (trim_space s) = trim_space s"
  by (simp add: trim_space_def)

lemma trim_space_Nil [simp]: "trim_space [] = []"
  by (simp add: trim_space_def trim_by_def trim_left_by_def trim_right_by_def)

lemma trim_by_no_hit: "\<forall>c \<in> set s. \<not> p c \<Longrightarrow> trim_by p s = s"
  by (metis hd_in_set last_in_set trim_by_def trim_left_by_id trim_right_by_id)

lemma trim_space_no_space: "\<forall>c \<in> set s. \<not> is_space c \<Longrightarrow> trim_space s = s"
  by (simp add: trim_space_def trim_by_no_hit)

text \<open>\<open>fields\<close> yields non-empty words without white space; joining them with one space
  is a normal form.\<close>

definition is_word :: "string \<Rightarrow> bool" where
  "is_word w = (w \<noteq> [] \<and> list_all (\<lambda>c. \<not> is_space c) w)"

lemma fields_acc_words:
  "list_all (\<lambda>c. \<not> is_space c) a \<Longrightarrow> list_all is_word (fields_acc s a)"
  by (induction s a rule: fields_acc.induct) (simp_all add: is_word_def)

lemma fields_words: "list_all is_word (fields s)"
  unfolding fields_def by (rule fields_acc_words) simp

lemma fields_acc_word:
  "list_all (\<lambda>c. \<not> is_space c) u \<Longrightarrow> fields_acc (u @ s) a = fields_acc s (rev u @ a)"
  by (induction u arbitrary: a) auto

lemma is_space_blank [simp]: "is_space (CHR '' '')"
  by (simp add: is_space_def)

lemma fields_join: "list_all is_word ws \<Longrightarrow> fields (join_str '' '' ws) = ws"
proof (induction ws rule: induct_list012)
  case 1
  then show ?case by (simp add: fields_def)
next
  case (2 x)
  then show ?case using fields_acc_word [of x "[]" "[]"] by (simp add: fields_def is_word_def)
next
  case (3 x y zs)
  then have "fields (join_str '' '' (y # zs)) = y # zs" by simp
  with "3.prems" show ?case
    using fields_acc_word [of x "CHR '' '' # join_str '' '' (y # zs)" "[]"]
    by (simp add: fields_def is_word_def)
qed

definition squeeze :: "string \<Rightarrow> string" where
  "squeeze s = join_str '' '' (fields s)"

lemma fields_squeeze [simp, gostr]: "fields (squeeze s) = fields s"
  unfolding squeeze_def by (rule fields_join) (rule fields_words)

lemma squeeze_idem [simp, gostr]: "squeeze (squeeze s) = squeeze s"
  by (subst squeeze_def) (simp add: squeeze_def [symmetric] fields_squeeze)

lemma fields_acc_leading: "fields_acc (dropWhile is_space s) [] = fields_acc s []"
  by (induction s) auto

lemma fields_acc_trailing: "is_space c \<Longrightarrow> fields_acc (s @ [c]) a = fields_acc s a"
  by (induction s a rule: fields_acc.induct) auto

lemma fields_trim_right: "fields_acc (trim_right_by is_space s) a = fields_acc s a"
proof (induction s rule: rev_induct)
  case Nil
  then show ?case by (simp add: trim_right_by_def)
next
  case (snoc c s)
  then show ?case by (simp add: trim_right_by_append_last fields_acc_trailing)
qed

lemma fields_trim_space [simp, gostr]: "fields (trim_space s) = fields s"
  by (simp add: fields_def trim_space_def trim_by_def fields_trim_right)
     (simp add: trim_left_by_def fields_acc_leading)

lemma squeeze_trim_space [simp, gostr]: "squeeze (trim_space s) = squeeze s"
  by (simp add: squeeze_def)

lemma is_word_ends: "is_word w \<Longrightarrow> w \<noteq> [] \<and> \<not> is_space (hd w) \<and> \<not> is_space (last w)"
  by (auto simp: is_word_def list_all_iff)

lemma join_words_ends:
  "list_all is_word ws \<Longrightarrow> ws \<noteq> [] \<Longrightarrow>
     join_str sep ws \<noteq> [] \<and> \<not> is_space (hd (join_str sep ws)) \<and> \<not> is_space (last (join_str sep ws))"
proof (induction ws rule: induct_list012)
  case 1
  then show ?case by simp
next
  case (2 x)
  then show ?case by (simp add: is_word_ends)
next
  case (3 x y zs)
  then show ?case using is_word_ends [of x] by simp
qed

lemma trim_space_squeeze [simp, gostr]: "trim_space (squeeze s) = squeeze s"
proof (cases "fields s = []")
  case True
  then show ?thesis by (simp add: squeeze_def)
next
  case False
  with join_words_ends [OF fields_words] have
    "squeeze s \<noteq> []" "\<not> is_space (hd (squeeze s))" "\<not> is_space (last (squeeze s))"
    unfolding squeeze_def by blast+
  then show ?thesis
    by (simp add: trim_space_def trim_by_def trim_left_by_id trim_right_by_id)
qed

lemma squeeze_empty_iff: "squeeze s = [] \<longleftrightarrow> fields s = []"
  using join_words_ends [OF fields_words, of s] by (cases "fields s = []") (auto simp: squeeze_def)

lemma fields_acc_nonempty: "a \<noteq> [] \<Longrightarrow> fields_acc s a \<noteq> []"
  by (induction s a rule: fields_acc.induct) auto

lemma fields_empty_iff: "fields s = [] \<longleftrightarrow> trim_space s = []"
proof -
  have "fields_acc s [] = [] \<Longrightarrow> list_all is_space s"
    by (induction s) (simp_all add: fields_acc_nonempty split: if_splits)
  then have "fields s = [] \<Longrightarrow> trim_left_by is_space s = []"
    unfolding fields_def trim_left_by_def dropWhile_eq_Nil_conv list_all_iff by blast
  then have "fields s = [] \<Longrightarrow> trim_space s = []"
    by (simp add: trim_space_def trim_by_def trim_right_by_def)
  moreover have "trim_space s = [] \<Longrightarrow> fields s = []"
    by (subst fields_trim_space [symmetric]) (simp add: fields_def)
  ultimately show ?thesis by blast
qed

lemma lower_char_idem [simp]: "lower_char (lower_char c) = lower_char c"
proof -
  have "(of_char (char_of (n + 32) :: char) :: nat) = n + 32" if "n \<le> 90" for n :: nat
    using that by simp
  then show ?thesis by (auto simp: lower_char_def Let_def)
qed

lemma to_lower_idem [simp, gostr]: "to_lower (to_lower s) = to_lower s"
  by (simp add: to_lower_def)

lemma to_lower_length [simp]: "length (to_lower s) = length s"
  by (simp add: to_lower_def)

lemma equal_fold_refl [simp, gostr]: "equal_fold s s"
  by (simp add: equal_fold_def)

lemma equal_fold_sym: "equal_fold s t \<longleftrightarrow> equal_fold t s"
  by (auto simp: equal_fold_def)

lemma equal_fold_trans: "equal_fold s t \<Longrightarrow> equal_fold t u \<Longrightarrow> equal_fold s u"
  by (simp add: equal_fold_def)

end
