(* ===== verification/Ordering.thy ===== *)
theory Ordering
  imports Prelude
begin

text \<open>
  Sorting by a comparison function, as \<open>sort.Slice\<close> and \<open>sort.SliceStable\<close> do it, with the
  contract the callers rely on as a locale (a strict weak order); the round trip of
  decimal numbers; and the order of source indexes, numbers before names, as an instance
  of \<open>linorder\<close>.
\<close>

section \<open>Sorting by a comparison\<close>

fun insort_by :: "('a \<Rightarrow> 'a \<Rightarrow> bool) \<Rightarrow> 'a \<Rightarrow> 'a list \<Rightarrow> 'a list" where
  "insort_by lt x [] = [x]"
| "insort_by lt x (y # ys) = (if lt y x then y # insort_by lt x ys else x # y # ys)"

fun sort_by :: "('a \<Rightarrow> 'a \<Rightarrow> bool) \<Rightarrow> 'a list \<Rightarrow> 'a list" where
  "sort_by lt [] = []"
| "sort_by lt (x # xs) = insort_by lt x (sort_by lt xs)"

lemma mset_insort_by [simp]: "mset (insort_by lt x xs) = add_mset x (mset xs)"
  by (induction xs) auto

lemma mset_sort_by [simp]: "mset (sort_by lt xs) = mset xs"
  by (induction xs) auto

lemma set_sort_by [simp]: "set (sort_by lt xs) = set xs"
  by (metis mset_sort_by set_mset_mset)

lemma length_sort_by [simp]: "length (sort_by lt xs) = length xs"
  by (metis mset_sort_by size_mset)

lemma distinct_sort_by [simp]: "distinct (sort_by lt xs) = distinct xs"
  by (metis mset_eq_imp_distinct_iff mset_sort_by)

lemma distinct_map_sort_by [simp]: "distinct (map f (sort_by lt xs)) = distinct (map f xs)"
  by (metis mset_eq_imp_distinct_iff mset_map mset_sort_by)

lemma sort_by_sorted: "sorted_wrt (\<lambda>a b. \<not> lt b a) xs \<Longrightarrow> sort_by lt xs = xs"
proof (induction xs)
  case Nil
  then show ?case by simp
next
  case (Cons x xs)
  then show ?case by (cases xs) auto
qed

text \<open>A comparison that fits: irreflexive, transitive, and incomparability is transitive.\<close>

locale strict_weak_order =
  fixes lt :: "'a \<Rightarrow> 'a \<Rightarrow> bool"
  assumes irrefl: "\<not> lt x x"
    and trans: "lt x y \<Longrightarrow> lt y z \<Longrightarrow> lt x z"
    and negtrans: "lt x z \<Longrightarrow> lt x y \<or> lt y z"
begin

lemma asym: "lt x y \<Longrightarrow> \<not> lt y x"
  using irrefl trans by blast

lemma sorted_insort_by:
  "sorted_wrt (\<lambda>a b. \<not> lt b a) xs \<Longrightarrow> sorted_wrt (\<lambda>a b. \<not> lt b a) (insort_by lt x xs)"
proof (induction xs)
  case Nil
  then show ?case by simp
next
  case (Cons y ys)
  have mem: "set (insort_by lt x ys) = insert x (set ys)"
    by (metis mset_insort_by set_mset_add_mset_insert set_mset_mset)
  from Cons mem show ?case by (auto dest: asym) (meson negtrans)
qed

lemma sorted_sort_by: "sorted_wrt (\<lambda>a b. \<not> lt b a) (sort_by lt xs)"
  by (induction xs) (auto intro: sorted_insort_by)

text \<open>Where distinct elements are comparable, the sorted list is the only one: the result
  of an unstable sort is the same.\<close>

lemma sorted_unique:
  assumes "mset ys = mset zs"
    and "sorted_wrt (\<lambda>a b. \<not> lt b a) ys" and "sorted_wrt (\<lambda>a b. \<not> lt b a) zs"
    and "\<And>a b. a \<in> set ys \<Longrightarrow> b \<in> set ys \<Longrightarrow> \<not> lt a b \<Longrightarrow> \<not> lt b a \<Longrightarrow> a = b"
  shows "ys = zs"
  using assms
proof (induction ys arbitrary: zs)
  case Nil
  then show ?case by simp
next
  case (Cons y ys)
  then obtain z zs' where zs: "zs = z # zs'" by (cases zs) auto
  have "y \<in> set zs" and "z \<in> set (y # ys)"
    using Cons.prems(1) zs by (metis list.set_intros(1) mset_eq_setD)+
  then have "\<not> lt y z \<and> \<not> lt z y" using Cons.prems(2,3) zs irrefl by auto
  then have "y = z" using Cons.prems(4) \<open>z \<in> set (y # ys)\<close> by auto
  moreover have "ys = zs'"
    by (rule Cons.IH) (use Cons.prems zs \<open>y = z\<close> in auto)
  ultimately show ?case using zs by simp
qed

lemma sort_by_determined:
  assumes "mset ys = mset xs" and "sorted_wrt (\<lambda>a b. \<not> lt b a) ys"
    and "\<And>a b. a \<in> set xs \<Longrightarrow> b \<in> set xs \<Longrightarrow> \<not> lt a b \<Longrightarrow> \<not> lt b a \<Longrightarrow> a = b"
  shows "ys = sort_by lt xs"
  by (rule sorted_unique) (use assms sorted_sort_by in \<open>auto dest: mset_eq_setD\<close>)

end

text \<open>A comparison of keys in a linear order fits.\<close>

locale keyed_order =
  fixes lt :: "'a \<Rightarrow> 'a \<Rightarrow> bool" and key :: "'a \<Rightarrow> 'k :: linorder"
  assumes less_key: "lt x y \<longleftrightarrow> key x < key y"
begin

lemma sorted_keys: "sorted_wrt (\<lambda>a b. \<not> lt b a) xs \<longleftrightarrow> sorted (map key xs)"
  by (induction xs) (auto simp: less_key not_less)

end

sublocale keyed_order \<subseteq> strict_weak_order lt
  by unfold_locales (auto simp: less_key)

section \<open>Decimal numbers\<close>

lemma digits_val_append:
  "digits_val a (s @ t) = Option.bind (digits_val a s) (\<lambda>b. digits_val b t)"
  by (induction a s rule: digits_val.induct) (auto split: option.splits)

lemma digit_val_char: "d < 10 \<Longrightarrow> digit_val (digit_char d) = Some d"
  by (simp add: digit_val_def digit_char_def is_digit_def)

lemma nat_str_nonempty [simp]: "nat_str n \<noteq> []"
  by (simp add: nat_str.simps [of n])

lemma digits_val_nat_str: "digits_val 0 (nat_str n) = Some n"
proof (induction n rule: nat_str.induct)
  case (1 n)
  show ?case
  proof (cases "n < 10")
    case True
    then show ?thesis by (simp add: nat_str.simps [of n] digit_val_char)
  next
    case False
    with 1 show ?thesis
      by (simp add: nat_str.simps [of n] digits_val_append digit_val_char)
  qed
qed

lemma nat_str_digits: "c \<in> set (nat_str n) \<Longrightarrow> is_digit c"
proof (induction n rule: nat_str.induct)
  case (1 n)
  then show ?case
    by (auto simp: nat_str.simps [of n] digit_char_def is_digit_def split: if_splits)
qed

lemma atoi_itoa: "int64_range n \<Longrightarrow> atoi (itoa n) = Some n"
proof (cases "n < 0")
  case True
  assume r: "int64_range n"
  from True have "itoa n = CHR ''-'' # nat_str (nat (- n))" by (simp add: itoa_def)
  with True r show ?thesis by (simp add: atoi_def digits_val_nat_str in_range64_def)
next
  case False
  assume r: "int64_range n"
  obtain c s where cs: "nat_str (nat n) = c # s" by (cases "nat_str (nat n)") auto
  then have "is_digit c" using nat_str_digits [of c "nat n"] by simp
  then have "c \<noteq> CHR ''-'' \<and> c \<noteq> CHR ''+''" by (auto simp: is_digit_def)
  with False r cs digits_val_nat_str [of "nat n"] show ?thesis
    by (simp add: itoa_def atoi_def in_range64_def)
qed

lemma itoa_no_space: "c \<in> set (itoa n) \<Longrightarrow> \<not> is_space c"
proof -
  have "\<not> is_space d" if "is_digit d" for d
    using that by (auto simp: is_digit_def is_space_def Let_def)
  moreover have "\<not> is_space (CHR ''-'')" by (simp add: is_space_def)
  ultimately show "c \<in> set (itoa n) \<Longrightarrow> \<not> is_space c"
    by (auto simp: itoa_def dest: nat_str_digits split: if_splits)
qed

lemma itoa_nonempty [simp]: "itoa n \<noteq> []"
  by (simp add: itoa_def)

lemma trim_space_itoa [simp]: "trim_space (itoa n) = itoa n"
  by (rule trim_space_no_space) (use itoa_no_space in blast)

section \<open>The order of source indexes\<close>

datatype index_key = NumKey int | StrKey string

instantiation index_key :: linorder
begin

fun less_index_key :: "index_key \<Rightarrow> index_key \<Rightarrow> bool" where
  "less_index_key (NumKey a) (NumKey b) = (a < b)"
| "less_index_key (NumKey a) (StrKey t) = True"
| "less_index_key (StrKey s) (NumKey b) = False"
| "less_index_key (StrKey s) (StrKey t) = (s < t)"

definition less_eq_index_key :: "index_key \<Rightarrow> index_key \<Rightarrow> bool" where
  "less_eq_index_key a b = (a < b \<or> a = b)"

instance
proof
  fix x y z :: index_key
  show "(x < y) = (x \<le> y \<and> \<not> y \<le> x)"
    by (cases x; cases y) (auto simp: less_eq_index_key_def)
  show "x \<le> x" by (simp add: less_eq_index_key_def)
  show "x \<le> y \<Longrightarrow> y \<le> z \<Longrightarrow> x \<le> z"
    by (cases x; cases y; cases z) (auto simp: less_eq_index_key_def)
  show "x \<le> y \<Longrightarrow> y \<le> x \<Longrightarrow> x = y"
    by (cases x; cases y) (auto simp: less_eq_index_key_def)
  show "x \<le> y \<or> y \<le> x"
    by (cases x; cases y) (auto simp: less_eq_index_key_def)
qed

end

definition index_key_of :: "string \<Rightarrow> index_key" where
  "index_key_of s = (case atoi s of Some n \<Rightarrow> NumKey n | None \<Rightarrow> StrKey s)"

section \<open>Facts on maps as association lists\<close>

lemma set_AList_update_keys: "set (map fst (AList.update k v m)) = insert k (set (map fst m))"
  by (induction m) auto

lemma map_of_fold_update:
  "map_of (fold (\<lambda>(k, v). AList.update k v) ps m) = map_of m ++ map_of (rev ps)"
  by (induction ps arbitrary: m) (auto simp: update_conv' map_add_def fun_eq_iff split: option.splits)

lemma distinct_fold_update:
  "distinct (map fst m) \<Longrightarrow> distinct (map fst (fold (\<lambda>(k, v). AList.update k v) ps m))"
  by (induction ps arbitrary: m) (auto simp: distinct_update)

end
