(* ===== verification/Env.thy ===== *)
theory Env
  imports Ordering
begin

text \<open>
  The source catalogue, utils/env.go: source configurations read from the process
  environment and merged with the sources that discovery publishes at run time, and the
  cached numbered filters. The state is the process environment (a map from variables to
  values in the order of \<open>os.Environ\<close>), the package variable \<open>dynamicSources\<close> and the
  package variable \<open>filters\<close>. Also the configuration structs read from the environment
  (proxy/loadbalancer/config.go, proxy/stream/config/config.go) and the playlist header
  (utils/playlist_header.go), whose URL parser is a parameter.
\<close>

type_synonym environ = "(string \<times> string) list"

record source_config =
  sc_index :: string
  sc_url :: string
  sc_name :: string
  sc_group :: string
  sc_max_concurrency :: int
  sc_contains_vod :: bool

record utils_state =
  us_environ :: environ
  us_dynamic :: "source_config list"
  us_filters :: "(string \<times> string list) list"

text \<open>\<open>os.LookupEnv\<close> and \<open>os.Getenv\<close>.\<close>

definition lookup_env :: "environ \<Rightarrow> string \<Rightarrow> string option" where
  "lookup_env env k = map_of env k"

definition os_getenv :: "environ \<Rightarrow> string \<Rightarrow> string" where
  "os_getenv env k = (case map_of env k of None \<Rightarrow> [] | Some v \<Rightarrow> v)"

definition get_env :: "environ \<Rightarrow> string \<Rightarrow> string" where
  "get_env env k =
     (if k = ''USER_AGENT'' then
        (case lookup_env env ''USER_AGENT'' of
           None \<Rightarrow> ''IPTV Smarters/1.0.3 (iPad; iOS 16.6.1; Scale/2.00)'' | Some v \<Rightarrow> v)
      else if k = ''HTTP_ACCEPT'' then
        (case lookup_env env ''HTTP_ACCEPT'' of
           None \<Rightarrow> ''application/vnd.apple.mpegurl,application/x-mpegURL,video/MP2T,*/*''
         | Some v \<Rightarrow> v)
      else [])"

section \<open>The order of indexes\<close>

definition less_index :: "string \<Rightarrow> string \<Rightarrow> bool" where
  "less_index a b =
     (case (atoi a, atoi b) of
        (Some m, Some n) \<Rightarrow> m < n
      | (Some _, None) \<Rightarrow> True
      | (None, Some _) \<Rightarrow> False
      | (None, None) \<Rightarrow> a < b)"

lemma less_index_key: "less_index a b \<longleftrightarrow> index_key_of a < index_key_of b"
  by (auto simp: less_index_def index_key_of_def split: option.splits)

interpretation index_order: keyed_order less_index index_key_of
  by unfold_locales (rule less_index_key)

definition less_source :: "source_config \<Rightarrow> source_config \<Rightarrow> bool" where
  "less_source s t = less_index (sc_index s) (sc_index t)"

interpretation source_order: keyed_order less_source "\<lambda>s. index_key_of (sc_index s)"
  by unfold_locales (simp add: less_source_def less_index_key)

section \<open>Static and dynamic sources\<close>

definition parse_static_source :: "environ \<Rightarrow> string \<times> string \<Rightarrow> source_config option" where
  "parse_static_source env kv =
     (if \<not> has_prefix (fst kv) ''M3U_URL_'' then None
      else let idx = trim_prefix (fst kv) ''M3U_URL_''; url = trim_space (snd kv) in
        if idx = [] \<or> url = [] then None
        else
          let mc = trim_space (os_getenv env (''M3U_MAX_CONCURRENCY_'' @ idx));
              vod = trim_space (os_getenv env (''M3U_CONTAINS_VOD_'' @ idx))
          in Some \<lparr>sc_index = idx, sc_url = url,
                   sc_name = trim_space (os_getenv env (''M3U_NAME_'' @ idx)),
                   sc_group = [],
                   sc_max_concurrency =
                     (if mc \<noteq> [] then (case atoi mc of Some n \<Rightarrow> if n > 0 then n else 1 | None \<Rightarrow> 1)
                      else 1),
                   sc_contains_vod =
                     (if vod \<noteq> [] then (case parse_bool vod of Some b \<Rightarrow> b | None \<Rightarrow> True)
                      else True)\<rparr>)"

definition load_static_sources :: "environ \<Rightarrow> source_config list" where
  "load_static_sources env = sort_by less_source (List.map_filter (parse_static_source env) env)"

text \<open>The loop of \<open>SetDynamicSources\<close>, with the set of indexes seen so far.\<close>

fun normalize_sources :: "string list \<Rightarrow> source_config list \<Rightarrow> source_config list" where
  "normalize_sources seen [] = []"
| "normalize_sources seen (s # ss) =
     (let idx = trim_space (sc_index s); url = trim_space (sc_url s) in
      if idx = [] \<or> url = [] then normalize_sources seen ss
      else if idx \<in> set seen then normalize_sources seen ss
      else \<lparr>sc_index = idx, sc_url = url, sc_name = trim_space (sc_name s),
             sc_group = trim_space (sc_group s),
             sc_max_concurrency = (if sc_max_concurrency s < 1 then 1 else sc_max_concurrency s),
             sc_contains_vod = sc_contains_vod s\<rparr> # normalize_sources (idx # seen) ss)"

definition set_dynamic_sources :: "source_config list \<Rightarrow> utils_state \<Rightarrow> utils_state" where
  "set_dynamic_sources ss st =
     st\<lparr>us_dynamic := sort_by less_source (normalize_sources [] ss)\<rparr>"

definition merged_sources :: "utils_state \<Rightarrow> (string \<times> source_config) list" where
  "merged_sources st =
     fold (\<lambda>(i, s). AList.update i s)
       (map (\<lambda>s. (sc_index s, s)) (load_static_sources (us_environ st)) @
        map (\<lambda>s. (sc_index s, s)) (us_dynamic st)) []"

definition get_source_configs :: "utils_state \<Rightarrow> source_config list" where
  "get_source_configs st =
     (let merged = merged_sources st;
          keys = sort_by less_index (map fst merged)
      in map (\<lambda>i. the (map_of merged i)) keys)"

definition get_m3u_indexes :: "utils_state \<Rightarrow> string list" where
  "get_m3u_indexes st = map sc_index (get_source_configs st)"

definition get_source_config :: "utils_state \<Rightarrow> string \<Rightarrow> source_config option" where
  "get_source_config st i =
     (case find (\<lambda>s. sc_index s = i) (us_dynamic st) of
        Some s \<Rightarrow> Some s
      | None \<Rightarrow> find (\<lambda>s. sc_index s = i) (load_static_sources (us_environ st)))"

definition get_source_url :: "utils_state \<Rightarrow> string \<Rightarrow> string option" where
  "get_source_url st i = map_option sc_url (get_source_config st i)"

definition get_source_max_concurrency :: "utils_state \<Rightarrow> string \<Rightarrow> int" where
  "get_source_max_concurrency st i =
     (let src = get_source_config st i;
          v = trim_space (os_getenv (us_environ st) (''M3U_MAX_CONCURRENCY_'' @ i))
      in if (case src of Some s \<Rightarrow> sc_max_concurrency s > 0 | None \<Rightarrow> False)
         then sc_max_concurrency (the src)
         else if v = [] then 1
         else (case atoi v of None \<Rightarrow> 1 | Some n \<Rightarrow> if n < 1 then 1 else n))"

section \<open>Numbered filters\<close>

definition parse_filter :: "string \<Rightarrow> string \<times> string \<Rightarrow> (int \<times> string) option" where
  "parse_filter pre kv =
     (if has_prefix (fst kv) pre
      then map_option (\<lambda>n. (n, snd kv)) (atoi (trim_prefix (fst kv) pre))
      else None)"

definition get_filters :: "string \<Rightarrow> utils_state \<Rightarrow> string list \<times> utils_state" where
  "get_filters base st =
     (case map_of (us_filters st) base of
        Some cached \<Rightarrow> (cached, st)
      | None \<Rightarrow>
          (let vs = map snd (sort_by (\<lambda>a b. fst a < fst b)
                      (List.map_filter (parse_filter (base @ ''_'')) (us_environ st)))
           in (vs, st\<lparr>us_filters := AList.update base vs (us_filters st)\<rparr>)))"

definition reset_caches :: "utils_state \<Rightarrow> utils_state" where
  "reset_caches st = st\<lparr>us_dynamic := [], us_filters := []\<rparr>"

section \<open>Configuration structs\<close>

text \<open>Go's 64-bit \<open>int\<close> arithmetic wraps around.\<close>

definition wrap64 :: "int \<Rightarrow> int" where
  "wrap64 n = (n + 2 ^ 63) mod 2 ^ 64 - 2 ^ 63"

record lb_config =
  lb_max_retries :: int
  lb_retry_wait :: int
  lb_buffer_chunk :: int

text \<open>An integer variable of the environment: the default when it is unset, when it is no
  number, or when the check fails.\<close>

definition env_int :: "environ \<Rightarrow> string \<Rightarrow> (int \<Rightarrow> bool) \<Rightarrow> int option" where
  "env_int env k ok =
     Option.bind (lookup_env env k) (\<lambda>v. Option.bind (atoi v) (\<lambda>n. if ok n then Some n else None))"

definition new_default_lb_config :: "environ \<Rightarrow> lb_config" where
  "new_default_lb_config env =
     \<lparr>lb_max_retries = (case env_int env ''MAX_RETRIES'' (\<lambda>_. True) of Some n \<Rightarrow> n | None \<Rightarrow> 5),
      lb_retry_wait = (case env_int env ''RETRY_WAIT'' (\<lambda>_. True) of Some n \<Rightarrow> n | None \<Rightarrow> 1),
      lb_buffer_chunk =
        (case env_int env ''BUFFER_CHUNK_NUM'' (\<lambda>n. n \<ge> 0) of
           Some n \<Rightarrow> wrap64 (n * 1024 * 1024) | None \<Rightarrow> 1024 * 1024)\<rparr>"

record stream_config =
  cfg_shared_buffer_size :: int
  cfg_chunk_size :: int
  cfg_timeout_seconds :: int
  cfg_initial_backoff :: int
  cfg_max_retries :: int
  cfg_expected_throughput :: int

text \<open>Durations are in nanoseconds: 200 ms is 200000000.\<close>

definition new_default_stream_config :: "environ \<Rightarrow> stream_config" where
  "new_default_stream_config env =
     \<lparr>cfg_shared_buffer_size =
        (case env_int env ''BUFFER_CHUNK_NUM'' (\<lambda>n. n \<ge> 0) of Some n \<Rightarrow> n | None \<Rightarrow> 8),
      cfg_chunk_size = 1024 * 1024,
      cfg_timeout_seconds =
        (case env_int env ''STREAM_TIMEOUT'' (\<lambda>n. n \<ge> 0) of Some n \<Rightarrow> n | None \<Rightarrow> 3),
      cfg_initial_backoff = 200000000,
      cfg_max_retries =
        (case env_int env ''MAX_RETRIES'' (\<lambda>_. True) of Some n \<Rightarrow> n | None \<Rightarrow> 5),
      cfg_expected_throughput =
        (case env_int env ''MINIMUM_THROUGHPUT'' (\<lambda>n. n \<ge> 0) of Some n \<Rightarrow> n | None \<Rightarrow> 100000)\<rparr>"

section \<open>The playlist header\<close>

text \<open>What the program reads of a parsed URL. The parser of \<open>net/url\<close> is the parameter
  \<open>parse\<close> of the definitions that use it; None is the error result.\<close>

record url_parts =
  u_scheme :: string
  u_host :: string
  u_path :: string
  u_raw_query :: string

type_synonym url_parser = "string \<Rightarrow> url_parts option"

definition normalize_embedded_epg_url :: "url_parser \<Rightarrow> string \<Rightarrow> string option" where
  "normalize_embedded_epg_url parse raw =
     (let v = trim_space raw in
      if v = [] then None
      else (case parse v of
              None \<Rightarrow> None
            | Some u \<Rightarrow>
                if \<not> equal_fold (u_scheme u) ''http'' \<and> \<not> equal_fold (u_scheme u) ''https'' then None
                else if trim_space (u_host u) = [] then None
                else Some v))"

definition get_embedded_epg_url :: "url_parser \<Rightarrow> environ \<Rightarrow> string option" where
  "get_embedded_epg_url parse env =
     (let raw = trim_space (os_getenv env ''EMBEDDED_EPG_URL'') in
      if raw = [] then None
      else let urls = List.map_filter (normalize_embedded_epg_url parse) (split_char (CHR '','') raw) in
        if urls = [] then None else Some (join_str '','' urls))"

definition newline :: string where "newline = [CHR 0x0A]"
definition dquote :: string where "dquote = [CHR 0x22]"

definition build_playlist_header_line :: "url_parser \<Rightarrow> environ \<Rightarrow> string" where
  "build_playlist_header_line parse env =
     (case get_embedded_epg_url parse env of
        Some u \<Rightarrow> ''#EXTM3U x-tvg-url='' @ dquote @ u @ dquote @ '' url-tvg='' @ dquote @ u @ dquote @ newline
      | None \<Rightarrow> ''#EXTM3U'' @ newline)"

definition merge_epg_enabled :: "environ \<Rightarrow> bool" where
  "merge_epg_enabled env =
     (let raw = trim_space (os_getenv env ''MERGE_EPG_FOR_SAME_CHANNEL_NUMBER'') in
      if raw = [] then False
      else (case parse_bool raw of Some b \<Rightarrow> b | None \<Rightarrow> False))"

definition channel_epg_merge_active :: "url_parser \<Rightarrow> environ \<Rightarrow> bool" where
  "channel_epg_merge_active parse env =
     (if \<not> merge_epg_enabled env then False
      else get_embedded_epg_url parse env \<noteq> None)"

section \<open>The catalogue is well formed\<close>

definition dynamic_ok :: "source_config list \<Rightarrow> bool" where
  "dynamic_ok ss =
     (distinct (map sc_index ss) \<and> sorted_wrt (\<lambda>a b. \<not> less_source b a) ss \<and>
      (\<forall>s \<in> set ss.
         sc_index s \<noteq> [] \<and> trim_space (sc_index s) = sc_index s \<and>
         sc_url s \<noteq> [] \<and> trim_space (sc_url s) = sc_url s \<and>
         trim_space (sc_name s) = sc_name s \<and> trim_space (sc_group s) = sc_group s \<and>
         1 \<le> sc_max_concurrency s))"

definition environ_ok :: "environ \<Rightarrow> bool" where
  "environ_ok env = distinct (map fst env)"

lemma normalize_sources_entry:
  "s \<in> set (normalize_sources seen ss) \<Longrightarrow>
     sc_index s \<notin> set seen \<and>
     sc_index s \<noteq> [] \<and> trim_space (sc_index s) = sc_index s \<and>
     sc_url s \<noteq> [] \<and> trim_space (sc_url s) = sc_url s \<and>
     trim_space (sc_name s) = sc_name s \<and> trim_space (sc_group s) = sc_group s \<and>
     1 \<le> sc_max_concurrency s"
  by (induction seen ss rule: normalize_sources.induct) (auto simp: Let_def split: if_splits)

lemma distinct_normalize_sources: "distinct (map sc_index (normalize_sources seen ss))"
proof (induction seen ss rule: normalize_sources.induct)
  case (1 seen)
  then show ?case by simp
next
  case (2 seen s ss)
  have "trim_space (sc_index s) \<notin> sc_index ` set (normalize_sources (trim_space (sc_index s) # seen) ss)"
    by (auto dest: normalize_sources_entry)
  with 2 show ?case by (auto simp: Let_def)
qed

text \<open>\<open>SetDynamicSources\<close> leaves trimmed, non-empty, pairwise different indexes, sorted, each
  with a positive limit, whatever it is given.\<close>

lemma set_dynamic_sources_ok [goinv]: "dynamic_ok (us_dynamic (set_dynamic_sources ss st))"
  unfolding dynamic_ok_def set_dynamic_sources_def
  using normalize_sources_entry [of _ "[]" ss] distinct_normalize_sources [of "[]" ss]
    source_order.sorted_sort_by [of "normalize_sources [] ss"]
  by simp

lemma normalize_sources_id:
  "distinct (map sc_index ss) \<Longrightarrow> set (map sc_index ss) \<inter> set seen = {} \<Longrightarrow>
   \<forall>s \<in> set ss.
         sc_index s \<noteq> [] \<and> trim_space (sc_index s) = sc_index s \<and>
         sc_url s \<noteq> [] \<and> trim_space (sc_url s) = sc_url s \<and>
         trim_space (sc_name s) = sc_name s \<and> trim_space (sc_group s) = sc_group s \<and>
         1 \<le> sc_max_concurrency s \<Longrightarrow>
   normalize_sources seen ss = ss"
  by (induction seen ss rule: normalize_sources.induct) (auto simp: Let_def)

lemma set_dynamic_sources_id: "dynamic_ok ss \<Longrightarrow> us_dynamic (set_dynamic_sources ss st) = ss"
  unfolding dynamic_ok_def set_dynamic_sources_def
  by (simp add: normalize_sources_id sort_by_sorted)

lemma find_map_of: "find (\<lambda>s. f s = i) xs = map_of (map (\<lambda>s. (f s, s)) xs) i"
  by (induction xs) auto

lemma map_of_rev_distinct: "distinct (map fst ps) \<Longrightarrow> map_of (rev ps) = map_of ps"
proof -
  assume d: "distinct (map fst ps)"
  then have "distinct (map fst (rev ps))" by (simp add: distinct_map)
  with d show ?thesis by (simp add: map_of_inject_set)
qed

lemma parse_static_index:
  "parse_static_source env kv = Some s \<Longrightarrow> fst kv = ''M3U_URL_'' @ sc_index s"
proof -
  assume "parse_static_source env kv = Some s"
  then have "has_prefix (fst kv) ''M3U_URL_''" and "sc_index s = trim_prefix (fst kv) ''M3U_URL_''"
    by (auto simp: parse_static_source_def Let_def split: if_splits)
  then show ?thesis by (metis trim_prefix_has)
qed

lemma distinct_parse_static:
  "distinct (map fst kvs) \<Longrightarrow>
     distinct (map sc_index (List.map_filter (parse_static_source env) kvs))"
proof (induction kvs)
  case Nil
  then show ?case by (simp add: List.map_filter_simps)
next
  case (Cons kv kvs)
  have "sc_index s \<notin> sc_index ` set (List.map_filter (parse_static_source env) kvs)"
    if "parse_static_source env kv = Some s" for s
  proof
    assume "sc_index s \<in> sc_index ` set (List.map_filter (parse_static_source env) kvs)"
    then obtain kv' s' where "kv' \<in> set kvs" "parse_static_source env kv' = Some s'"
      and "sc_index s' = sc_index s" by (auto simp: List.map_filter_def)
    with that have "fst kv' = fst kv" by (metis parse_static_index)
    with \<open>kv' \<in> set kvs\<close> Cons.prems show False by (metis distinct.simps(2) image_eqI list.set_map list.simps(9))
  qed
  with Cons show ?case by (auto simp: List.map_filter_simps split: option.splits)
qed

lemma distinct_static_sources:
  "environ_ok env \<Longrightarrow> distinct (map sc_index (load_static_sources env))"
  by (simp add: load_static_sources_def environ_ok_def distinct_parse_static)

lemma map_of_merged:
  assumes "environ_ok (us_environ st)" and "distinct (map sc_index (us_dynamic st))"
  shows "map_of (merged_sources st) i = get_source_config st i"
proof -
  let ?p = "map (\<lambda>s. (sc_index s, s))"
  have "map_of (rev (?p (us_dynamic st))) = map_of (?p (us_dynamic st))"
    using assms(2) by (intro map_of_rev_distinct) (simp add: comp_def)
  moreover have "map_of (rev (?p (load_static_sources (us_environ st)))) =
      map_of (?p (load_static_sources (us_environ st)))"
    using distinct_static_sources [OF assms(1)] by (intro map_of_rev_distinct) (simp add: comp_def)
  ultimately show ?thesis
    unfolding merged_sources_def get_source_config_def map_of_fold_update find_map_of
    by (simp add: map_add_def)
qed

lemma merged_keys:
  "(i, s) \<in> set (merged_sources st) \<Longrightarrow> sc_index s = i"
proof -
  have "\<forall>(i, s) \<in> set (fold (\<lambda>(i, s). AList.update i s) ps m). sc_index s = i"
    if "\<forall>(i, s) \<in> set ps. sc_index s = i" and "\<forall>(i, s) \<in> set m. sc_index s = i" for ps m
    using that
  proof (induction ps arbitrary: m)
    case Nil
    then show ?case by simp
  next
    case (Cons p ps)
    obtain j t where "p = (j, t)" by (cases p)
    with Cons.prems have "\<forall>(i, s) \<in> set (AList.update j t m). sc_index s = i"
      by (induction m) auto
    with Cons \<open>p = (j, t)\<close> show ?case by simp
  qed
  from this [of "map (\<lambda>s. (sc_index s, s)) (load_static_sources (us_environ st)) @
        map (\<lambda>s. (sc_index s, s)) (us_dynamic st)" "[]"]
  show "(i, s) \<in> set (merged_sources st) \<Longrightarrow> sc_index s = i"
    unfolding merged_sources_def by auto
qed

lemma distinct_merged: "distinct (map fst (merged_sources st))"
  unfolding merged_sources_def by (rule distinct_fold_update) simp

lemma merged_lookup_index:
  "i \<in> set (map fst (merged_sources st)) \<Longrightarrow> sc_index (the (map_of (merged_sources st) i)) = i"
  by (metis map_of_SomeD map_of_eq_None_iff merged_keys option.exhaust_sel set_map)

lemma m3u_indexes_eq:
  "get_m3u_indexes st = sort_by less_index (map fst (merged_sources st))"
  unfolding get_m3u_indexes_def get_source_configs_def Let_def map_map comp_def
  by (rule map_idI, rule merged_lookup_index) simp

lemma distinct_m3u_indexes: "distinct (get_m3u_indexes st)"
  by (simp add: m3u_indexes_eq distinct_merged)

lemma sorted_m3u_indexes: "sorted (map index_key_of (get_m3u_indexes st))"
  using index_order.sorted_sort_by index_order.sorted_keys by (simp add: m3u_indexes_eq)

text \<open>The two ways the code reads the catalogue agree: the list merged by
  \<open>GetSourceConfigs\<close> and the search of \<open>GetSourceConfig\<close>.\<close>

lemma map_of_the: "(if i \<in> set (map fst m) then Some (the (map_of m i)) else None) = map_of m i"
proof (cases "map_of m i")
  case None
  then have "i \<notin> set (map fst m)" by (simp add: map_of_eq_None_iff)
  with None show ?thesis by simp
next
  case (Some v)
  then have "(i, v) \<in> set m" by (rule map_of_SomeD)
  then have "i \<in> set (map fst m)" by force
  with Some show ?thesis by simp
qed

lemma find_map_keys:
  "\<forall>k \<in> set ks. f (g k) = k \<Longrightarrow>
     find (\<lambda>s. f s = i) (map g ks) = (if i \<in> set ks then Some (g i) else None)"
  by (induction ks) auto

lemma source_lookup:
  assumes "environ_ok (us_environ st)" and "distinct (map sc_index (us_dynamic st))"
  shows "get_source_config st i = find (\<lambda>s. sc_index s = i) (get_source_configs st)"
proof -
  let ?m = "merged_sources st"
  have "find (\<lambda>s. sc_index s = i) (get_source_configs st) =
      (if i \<in> set (map fst ?m) then Some (the (map_of ?m i)) else None)"
    unfolding get_source_configs_def Let_def
    by (subst find_map_keys) (auto intro: merged_lookup_index simp del: set_map)
  also have "\<dots> = map_of ?m i"
    by (rule map_of_the)
  also have "\<dots> = get_source_config st i" using assms by (rule map_of_merged)
  finally show ?thesis by simp
qed

end
