(* ===== verification/Concurrency.thy ===== *)
theory Concurrency
  imports Env "HOL-Library.Word"
begin

text \<open>
  The connection slots of the sources, store/concurrency.go. The state holds the three
  concurrent maps of \<open>ConcurrencyManager\<close>: the counters (32-bit atomics), the URLs known
  to be incompatible and the cached limits. One call of \<open>Compute\<close> is atomic in the code,
  so an operation is one step of the state. \<open>slot_counter\<close> is the contract the stream
  writers rely on; the manager implements it as long as every limit fits 32 bits.
\<close>

record cm_state =
  cm_count :: "string \<Rightarrow> 32 word option"
  cm_invalid :: "string set"
  cm_max_cache :: "string \<Rightarrow> int option"

definition new_concurrency_manager :: cm_state where
  "new_concurrency_manager =
     \<lparr>cm_count = (\<lambda>_. None), cm_invalid = {}, cm_max_cache = (\<lambda>_. None)\<rparr>"

definition get_max_concurrency :: "utils_state \<Rightarrow> string \<Rightarrow> cm_state \<Rightarrow> int \<times> cm_state" where
  "get_max_concurrency us i cm =
     (case cm_max_cache cm i of
        Some m \<Rightarrow> (m, cm)
      | None \<Rightarrow>
          (let m = get_source_max_concurrency us i
           in (m, cm\<lparr>cm_max_cache := (cm_max_cache cm)(i \<mapsto> m)\<rparr>)))"

definition get_count :: "cm_state \<Rightarrow> string \<Rightarrow> int" where
  "get_count cm i = (case cm_count cm i of Some c \<Rightarrow> sint c | None \<Rightarrow> 0)"

text \<open>\<open>GetConcurrencyStatus\<close>: current, max, priority.\<close>

definition get_concurrency_status ::
  "utils_state \<Rightarrow> string \<Rightarrow> cm_state \<Rightarrow> (int \<times> int \<times> int) \<times> cm_state" where
  "get_concurrency_status us i cm =
     (let (mx, cm1) = get_max_concurrency us i cm;
          current = (case cm_count cm1 i of Some c \<Rightarrow> sint c | None \<Rightarrow> 0)
      in ((current, mx, mx - current), cm1))"

definition check_concurrency :: "utils_state \<Rightarrow> string \<Rightarrow> cm_state \<Rightarrow> bool \<times> cm_state" where
  "check_concurrency us i cm =
     (let (mx, cm1) = get_max_concurrency us i cm in
      (case cm_count cm1 i of
         Some c \<Rightarrow> (sint c \<ge> mx, cm1)
       | None \<Rightarrow> (False, cm1)))"

definition concurrency_priority_value :: "utils_state \<Rightarrow> string \<Rightarrow> cm_state \<Rightarrow> int \<times> cm_state" where
  "concurrency_priority_value us i cm =
     (let ((_, _, p), cm1) = get_concurrency_status us i cm in (p, cm1))"

text \<open>The limit is converted to 32 bits (\<open>int32(max)\<close>) before the signed comparison.\<close>

definition update_concurrency ::
  "utils_state \<Rightarrow> string \<Rightarrow> bool \<Rightarrow> cm_state \<Rightarrow> bool \<times> cm_state" where
  "update_concurrency us i incr cm =
     (let (mx, cm1) = get_max_concurrency us i cm;
          count = (case cm_count cm1 i of None \<Rightarrow> 0 | Some c \<Rightarrow> c)
      in if incr then
           (if count <s (word_of_int mx :: 32 word)
            then (True, cm1\<lparr>cm_count := (cm_count cm1)(i \<mapsto> count + 1)\<rparr>)
            else (False, cm1\<lparr>cm_count := (cm_count cm1)(i \<mapsto> count)\<rparr>))
         else
           (True, cm1\<lparr>cm_count := (cm_count cm1)(i \<mapsto> (if 0 <s count then count - 1 else count))\<rparr>))"

section \<open>The contract: a counter with a limit\<close>

locale slot_counter =
  fixes acquire :: "'i \<Rightarrow> 's \<Rightarrow> bool \<times> 's"
    and release :: "'i \<Rightarrow> 's \<Rightarrow> 's"
    and used :: "'s \<Rightarrow> 'i \<Rightarrow> int"
    and limit :: "'s \<Rightarrow> 'i \<Rightarrow> int"
    and ok :: "'s \<Rightarrow> bool"
  assumes ok_bounds: "ok s \<Longrightarrow> 0 \<le> used s i \<and> used s i \<le> limit s i"
    and acquire_granted: "ok s \<Longrightarrow> fst (acquire i s) \<longleftrightarrow> used s i < limit s i"
    and acquire_used: "ok s \<Longrightarrow>
      used (snd (acquire i s)) = (if fst (acquire i s) then (used s)(i := used s i + 1) else used s)"
    and release_used: "ok s \<Longrightarrow>
      used (release i s) = (if 0 < used s i then (used s)(i := used s i - 1) else used s)"
    and acquire_limit: "ok s \<Longrightarrow> limit (snd (acquire i s)) = limit s"
    and release_limit: "ok s \<Longrightarrow> limit (release i s) = limit s"
    and acquire_ok: "ok s \<Longrightarrow> ok (snd (acquire i s))"
    and release_ok: "ok s \<Longrightarrow> ok (release i s)"
begin

text \<open>A history of acquisitions (True) and releases (False).\<close>

fun run :: "('i \<times> bool) list \<Rightarrow> 's \<Rightarrow> 's" where
  "run [] s = s"
| "run ((i, b) # ops) s = run ops (if b then snd (acquire i s) else release i s)"

lemma run_ok: "ok s \<Longrightarrow> ok (run ops s)"
  by (induction ops s rule: run.induct) (simp_all add: acquire_ok release_ok)

lemma run_limit: "ok s \<Longrightarrow> limit (run ops s) = limit s"
  by (induction ops s rule: run.induct)
     (simp_all add: acquire_limit release_limit acquire_ok release_ok)

lemma run_bounds: "ok s \<Longrightarrow> 0 \<le> used (run ops s) i \<and> used (run ops s) i \<le> limit s i"
  using ok_bounds [OF run_ok] run_limit by metis

lemma acquire_release: "ok s \<Longrightarrow> fst (acquire i s) \<Longrightarrow> used (release i (snd (acquire i s))) = used s"
  using ok_bounds [of s i] by (auto simp: release_used acquire_used acquire_ok)

end

section \<open>The manager implements the contract\<close>

definition cm_limit :: "utils_state \<Rightarrow> cm_state \<Rightarrow> string \<Rightarrow> int" where
  "cm_limit us cm i = (case cm_max_cache cm i of Some m \<Rightarrow> m | None \<Rightarrow> get_source_max_concurrency us i)"

definition cm_ok :: "utils_state \<Rightarrow> cm_state \<Rightarrow> bool" where
  "cm_ok us cm = (\<forall>i. cm_limit us cm i < 2 ^ 31 \<and> 0 \<le> get_count cm i \<and> get_count cm i \<le> cm_limit us cm i)"

lemma get_max_concurrency_simps [simp]:
  "fst (get_max_concurrency us i cm) = cm_limit us cm i"
  "cm_limit us (snd (get_max_concurrency us i cm)) = cm_limit us cm"
  "cm_count (snd (get_max_concurrency us i cm)) = cm_count cm"
  "cm_invalid (snd (get_max_concurrency us i cm)) = cm_invalid cm"
  "get_count (snd (get_max_concurrency us i cm)) = get_count cm"
  by (auto simp: get_max_concurrency_def cm_limit_def get_count_def fun_eq_iff Let_def
      split: option.splits)

lemma cm_limit_count_update [simp]: "cm_limit us (cm\<lparr>cm_count := f\<rparr>) = cm_limit us cm"
  by (simp add: cm_limit_def fun_eq_iff)

lemma get_count_update [simp]:
  "get_count (cm\<lparr>cm_count := (cm_count cm')(i \<mapsto> c)\<rparr>) = (get_count cm')(i := sint c)"
  by (auto simp: get_count_def fun_eq_iff)

lemma sint_word_of_int32:
  "- (2 ^ 31) \<le> n \<Longrightarrow> n < 2 ^ 31 \<Longrightarrow> sint (word_of_int n :: 32 word) = n"
  by (simp add: int_word_sint)

lemma sint_count_zero: "sint (case x of None \<Rightarrow> 0 | Some c \<Rightarrow> (c :: 32 word)) = (case x of None \<Rightarrow> 0 | Some c \<Rightarrow> sint c)"
  by (simp split: option.splits)

lemma sint_suc32:
  fixes c :: "32 word"
  assumes "0 \<le> sint c" and "sint c < 2 ^ 31 - 1"
  shows "sint (c + 1) = sint c + 1"
proof -
  have "c + 1 = word_of_int (sint c + 1)" by simp
  then show ?thesis using assms sint_word_of_int32 [of "sint c + 1"] by simp
qed

lemma sint_pred32:
  fixes c :: "32 word"
  assumes "0 < sint c"
  shows "sint (c - 1) = sint c - 1"
proof -
  have "c - 1 = word_of_int (sint c - 1)" by simp
  moreover have "sint c < 2 ^ 31" using sint_lt [of c] by simp
  ultimately show ?thesis using assms sint_word_of_int32 [of "sint c - 1"] by simp
qed

lemma cm_okD:
  assumes "cm_ok us cm"
  shows "cm_limit us cm i < 2 ^ 31" and "0 \<le> get_count cm i" and "get_count cm i \<le> cm_limit us cm i"
  using assms by (auto simp: cm_ok_def)

text \<open>The counter of a source as a word, zero when it has none.\<close>

definition count_word :: "cm_state \<Rightarrow> string \<Rightarrow> 32 word" where
  "count_word cm i = (case cm_count cm i of None \<Rightarrow> 0 | Some c \<Rightarrow> c)"

lemma sint_count_word [simp]: "sint (count_word cm i) = get_count cm i"
  by (simp add: count_word_def get_count_def split: option.splits)

lemma update_concurrency_acquire:
  "update_concurrency us i True cm =
     (let cm1 = snd (get_max_concurrency us i cm); c = count_word cm i in
      if c <s (word_of_int (cm_limit us cm i) :: 32 word)
      then (True, cm1\<lparr>cm_count := (cm_count cm)(i \<mapsto> c + 1)\<rparr>)
      else (False, cm1\<lparr>cm_count := (cm_count cm)(i \<mapsto> c)\<rparr>))"
  using get_max_concurrency_simps [of us i cm]
  by (cases "get_max_concurrency us i cm") (simp add: update_concurrency_def count_word_def Let_def)

lemma update_concurrency_release:
  "update_concurrency us i False cm =
     (let cm1 = snd (get_max_concurrency us i cm); c = count_word cm i in
      (True, cm1\<lparr>cm_count := (cm_count cm)(i \<mapsto> (if 0 <s c then c - 1 else c))\<rparr>))"
  using get_max_concurrency_simps [of us i cm]
  by (cases "get_max_concurrency us i cm") (simp add: update_concurrency_def count_word_def Let_def)

lemma granted_iff:
  assumes "cm_ok us cm"
  shows "count_word cm i <s (word_of_int (cm_limit us cm i) :: 32 word) \<longleftrightarrow>
    get_count cm i < cm_limit us cm i"
proof -
  have "sint (word_of_int (cm_limit us cm i) :: 32 word) = cm_limit us cm i"
    using cm_okD [OF assms, of i] by (intro sint_word_of_int32) auto
  then show ?thesis by (simp add: word_sless_alt)
qed

lemma acquire_count:
  assumes "cm_ok us cm"
  shows "get_count (snd (update_concurrency us i True cm)) =
    (if get_count cm i < cm_limit us cm i then (get_count cm)(i := get_count cm i + 1) else get_count cm)"
proof -
  have "get_count cm i < cm_limit us cm i \<Longrightarrow> sint (count_word cm i + 1) = get_count cm i + 1"
    using cm_okD [OF assms, of i] sint_suc32 [of "count_word cm i"] by simp
  then show ?thesis
    by (simp add: update_concurrency_acquire granted_iff [OF assms] Let_def fun_eq_iff)
qed

lemma release_count:
  "get_count (snd (update_concurrency us i False cm)) =
    (if 0 < get_count cm i then (get_count cm)(i := get_count cm i - 1) else get_count cm)"
proof -
  have "0 < get_count cm i \<Longrightarrow> sint (count_word cm i - 1) = get_count cm i - 1"
    using sint_pred32 [of "count_word cm i"] by simp
  then show ?thesis
    by (simp add: update_concurrency_release word_sless_alt Let_def fun_eq_iff)
qed

lemma update_limit [simp]: "cm_limit us (snd (update_concurrency us i b cm)) = cm_limit us cm"
  by (cases b) (simp_all add: update_concurrency_acquire update_concurrency_release Let_def)

lemma update_ok [goinv]: "cm_ok us cm \<Longrightarrow> cm_ok us (snd (update_concurrency us i b cm))"
proof (cases b)
  case True
  assume "cm_ok us cm"
  then show ?thesis using True
    by (auto simp: cm_ok_def acquire_count \<open>cm_ok us cm\<close>)
next
  case False
  assume "cm_ok us cm"
  then show ?thesis using False
    by (auto simp: cm_ok_def release_count) (smt (verit, best) zle_diff1_eq)+
qed

interpretation cm: slot_counter
  "\<lambda>i cm. update_concurrency us i True cm" "\<lambda>i cm. snd (update_concurrency us i False cm)"
  get_count "cm_limit us" "cm_ok us" for us
proof unfold_locales
  fix s i
  assume ok: "cm_ok us s"
  show "0 \<le> get_count s i \<and> get_count s i \<le> cm_limit us s i" using cm_okD [OF ok] by blast
  show granted: "fst (update_concurrency us i True s) \<longleftrightarrow> get_count s i < cm_limit us s i"
    by (simp add: update_concurrency_acquire granted_iff [OF ok] Let_def)
  show "get_count (snd (update_concurrency us i True s)) =
      (if fst (update_concurrency us i True s) then (get_count s)(i := get_count s i + 1) else get_count s)"
    unfolding granted by (rule acquire_count [OF ok])
qed (simp_all add: release_count update_ok)

text \<open>A history of the manager: acquisitions (True) and releases (False) of sources.\<close>

fun run_slots :: "utils_state \<Rightarrow> (string \<times> bool) list \<Rightarrow> cm_state \<Rightarrow> cm_state" where
  "run_slots us [] cm = cm"
| "run_slots us ((i, b) # ops) cm = run_slots us ops (snd (update_concurrency us i b cm))"

lemma run_slots_eq: "run_slots us ops cm = cm.run us ops cm"
  by (induction us ops cm rule: run_slots.induct) simp_all

lemma new_manager_slots_ok:
  "(\<And>i. 0 \<le> get_source_max_concurrency us i \<and> get_source_max_concurrency us i < 2 ^ 31) \<Longrightarrow>
     cm_ok us new_concurrency_manager"
  by (simp add: cm_ok_def cm_limit_def new_concurrency_manager_def get_count_def)

text \<open>A limit of 2^31 or more is read as a negative 32-bit number: no slot is ever granted,
  although \<open>CheckConcurrency\<close> reports that the source is free.\<close>

lemma huge_limit_refuses:
  assumes "2 ^ 31 \<le> get_source_max_concurrency us i" and "get_source_max_concurrency us i < 2 ^ 32"
  shows "fst (update_concurrency us i True new_concurrency_manager) = False"
    and "fst (check_concurrency us i new_concurrency_manager) = False"
proof -
  let ?m = "get_source_max_concurrency us i"
  have lim: "cm_limit us new_concurrency_manager i = ?m"
    by (simp add: cm_limit_def new_concurrency_manager_def)
  have "(?m + 2 ^ 31) mod 2 ^ 32 = (?m + 2 ^ 31 - 2 ^ 32) mod 2 ^ 32"
    by (rule minus_mod_self2 [symmetric])
  also have "\<dots> = ?m + 2 ^ 31 - 2 ^ 32" using assms by (intro mod_pos_pos_trivial) auto
  finally have "sint (word_of_int ?m :: 32 word) = ?m - 2 ^ 32" by (simp add: int_word_sint)
  then have "\<not> (0 :: 32 word) <s word_of_int ?m"
    using assms by (simp add: word_sless_alt)
  then show "fst (update_concurrency us i True new_concurrency_manager) = False"
    unfolding update_concurrency_acquire lim
    by (simp add: Let_def count_word_def) (simp add: new_concurrency_manager_def)
  show "fst (check_concurrency us i new_concurrency_manager) = False"
    by (simp add: check_concurrency_def get_max_concurrency_def new_concurrency_manager_def Let_def)
qed

end
