(* ===== verification/Streams.thy ===== *)
theory Streams
  imports Env
begin

text \<open>
  The data model of a channel, sourceproc/stream_info.go, and the operations on it that
  the rest of sourceproc shares: the merge of two entries of the same title and the field
  normalisation of sourceproc/sorting.go, the order of source indexes of
  sourceproc/epg_groups.go, and sourceproc/helpers.go.

  A pointer or map that can be nil is an option. \<open>si_urls\<close> is the concurrent map from a
  source index to its map from a URL key to an entry "line:::url".
\<close>

type_synonym url_map = "(string \<times> string) list"
type_synonym stream_urls = "(string \<times> url_map) list"

record stream_info =
  si_title :: string
  si_tvg_id :: string
  si_tvg_chno :: string
  si_tvg_type :: string
  si_logo_url :: string
  si_auto_logo :: bool
  si_group :: string
  si_urls :: "stream_urls option"
  si_source_m3u :: string
  si_source_index :: int
  si_source_url :: string
  si_epg_meta :: "(string \<times> string) list option"
  si_sub_channel :: string
  si_display_title :: string

definition empty_stream :: stream_info where
  "empty_stream =
     \<lparr>si_title = [], si_tvg_id = [], si_tvg_chno = [], si_tvg_type = [], si_logo_url = [],
      si_auto_logo = False, si_group = [], si_urls = None, si_source_m3u = [],
      si_source_index = 0, si_source_url = [], si_epg_meta = None, si_sub_channel = [],
      si_display_title = []\<rparr>"

text \<open>What remains of an entry that is written as JSON and read back: the fields tagged "-"
  are dropped, and an empty map tagged omitempty comes back as nil.\<close>

definition json_stream :: "stream_info \<Rightarrow> stream_info" where
  "json_stream s =
     s\<lparr>si_urls := None, si_auto_logo := False,
       si_epg_meta := (case si_epg_meta s of None \<Rightarrow> None
                       | Some m \<Rightarrow> if m = [] then None else Some m)\<rparr>"

text \<open>The functions of libraries outside the repository that sourceproc calls: the URL
  functions of net/url, compiled regular expressions, and two hash
  functions (SHA3-224, as its digest of bytes, and xxhash).\<close>

record go_lib =
  lib_url_parse :: url_parser
  lib_join_path :: "string \<Rightarrow> string list \<Rightarrow> string option"
  lib_regex :: "string \<Rightarrow> (string \<Rightarrow> bool) option"
  lib_regex_erase :: "string \<Rightarrow> (string \<Rightarrow> string) option"
  lib_sha3 :: "string \<Rightarrow> string"
  lib_xxhash :: "string \<Rightarrow> nat"

section \<open>Normalised fields and comparisons\<close>

definition sanitize_char :: "char \<Rightarrow> string" where
  "sanitize_char c =
     (if c \<in> {CHR ''/'', CHR 0x5C, CHR '':'', CHR ''*'', CHR ''?'', CHR 0x22, CHR ''<'', CHR ''>'', CHR ''|''}
      then ''_'' else if c = CHR '' '' then [] else [c])"

definition sanitize_field :: "string \<Rightarrow> string" where
  "sanitize_field v = take 100 (to_lower (concat (map sanitize_char (trim_space v))))"

definition string_compare :: "string \<Rightarrow> string \<Rightarrow> int" where
  "string_compare a b = (if a < b then -1 else if a = b then 0 else 1)"

definition compare_numeric :: "string \<Rightarrow> string \<Rightarrow> int" where
  "compare_numeric a b =
     (case (atoi a, atoi b) of
        (Some m, Some n) \<Rightarrow> if m < n then -1 else if m > n then 1 else 0
      | _ \<Rightarrow> string_compare a b)"

definition less_source_index :: "string \<Rightarrow> string \<Rightarrow> bool" where
  "less_source_index l r =
     (case (atoi (trim_space l), atoi (trim_space r)) of
        (Some m, Some n) \<Rightarrow> m < n
      | _ \<Rightarrow> string_compare l r < 0)"

section \<open>Merging two entries of one title\<close>

definition record_source_epg_meta :: "string \<Rightarrow> string \<Rightarrow> stream_info \<Rightarrow> stream_info" where
  "record_source_epg_meta source tvg s =
     (let source' = trim_space source; tvg' = trim_space tvg in
      if source' = [] \<or> tvg' = [] then s
      else s\<lparr>si_epg_meta :=
               Some (AList.update source' tvg'
                       (case si_epg_meta s of None \<Rightarrow> [] | Some m \<Rightarrow> m))\<rparr>)"

definition merge_source_epg_meta :: "stream_info \<Rightarrow> stream_info \<Rightarrow> stream_info" where
  "merge_source_epg_meta base new =
     (let b1 = record_source_epg_meta (si_source_m3u base) (si_tvg_id base) base;
          b2 = record_source_epg_meta (si_source_m3u new) (si_tvg_id new) b1
      in (case si_epg_meta new of
            None \<Rightarrow> b2
          | Some m \<Rightarrow>
              let b3 = (case si_epg_meta b2 of None \<Rightarrow> b2\<lparr>si_epg_meta := Some []\<rparr> | Some _ \<Rightarrow> b2)
              in fold (\<lambda>(i, t). record_source_epg_meta i t) m b3))"

text \<open>The merge of two URL maps: a source the base lacks is taken over, otherwise its
  entries overwrite those of the base.\<close>

definition merge_inner :: "url_map option \<Rightarrow> url_map \<Rightarrow> url_map" where
  "merge_inner old value =
     (case old of None \<Rightarrow> value | Some m \<Rightarrow> fold (\<lambda>(k, v). AList.update k v) value m)"

definition merge_urls :: "stream_urls \<Rightarrow> stream_urls \<Rightarrow> stream_urls" where
  "merge_urls base new = fold (\<lambda>(i, m) us. AList.update i (merge_inner (map_of us i) m) us) new base"

definition urls_of :: "stream_info \<Rightarrow> stream_urls" where
  "urls_of s = (case si_urls s of None \<Rightarrow> [] | Some us \<Rightarrow> us)"

definition first_filled :: "string \<Rightarrow> string \<Rightarrow> string" where
  "first_filled a b = (if a = [] then b else a)"

text \<open>\<open>mergeStreamInfoAttributes\<close>, in its steps. The receiver of \<open>new.URLs.Range\<close> is never nil
  where the code calls it.\<close>

definition fill_attributes :: "stream_info \<Rightarrow> stream_info \<Rightarrow> stream_info" where
  "fill_attributes base new =
     base\<lparr>si_title := first_filled (si_title base) (si_title new),
          si_tvg_id := first_filled (si_tvg_id base) (si_tvg_id new),
          si_tvg_chno := first_filled (si_tvg_chno base) (si_tvg_chno new),
          si_tvg_type := first_filled (si_tvg_type base) (si_tvg_type new)\<rparr>"

definition merge_logo :: "stream_info \<Rightarrow> stream_info \<Rightarrow> stream_info" where
  "merge_logo base new =
     (if si_logo_url base = []
      then base\<lparr>si_logo_url := si_logo_url new, si_auto_logo := si_auto_logo new\<rparr>
      else if si_auto_logo base \<and> \<not> si_auto_logo new \<and> si_logo_url new \<noteq> []
      then base\<lparr>si_logo_url := si_logo_url new, si_auto_logo := False\<rparr>
      else base)"

definition fill_group :: "stream_info \<Rightarrow> stream_info \<Rightarrow> stream_info" where
  "fill_group base new = base\<lparr>si_group := first_filled (si_group base) (si_group new)\<rparr>"

definition earlier_source :: "stream_info \<Rightarrow> stream_info \<Rightarrow> bool" where
  "earlier_source new base =
     (si_source_m3u new < si_source_m3u base \<or>
      (si_source_m3u new = si_source_m3u base \<and> si_source_index new < si_source_index base))"

definition merge_stream_info :: "stream_info \<Rightarrow> stream_info \<Rightarrow> stream_info" where
  "merge_stream_info base new =
     (let b = merge_source_epg_meta (fill_group (merge_logo (fill_attributes base new) new) new) new;
          c = b\<lparr>si_urls := Some (merge_urls (urls_of b) (urls_of new))\<rparr>
      in if earlier_source new c
         then c\<lparr>si_source_m3u := si_source_m3u new, si_source_index := si_source_index new\<rparr>
         else c)"

section \<open>Helpers\<close>

text \<open>\<open>SortStreamSubUrls\<close>: the keys of an inner map in the order of the line numbers of
  their entries. \<open>Atoi\<close> returns 0 with an error of syntax and the nearest bound with an
  error of range, and the code ignores the error.\<close>

definition atoi_or_bound :: "string \<Rightarrow> int" where
  "atoi_or_bound s =
     (case atoi s of
        Some n \<Rightarrow> n
      | None \<Rightarrow>
          (case s of
             [] \<Rightarrow> 0
           | c # r \<Rightarrow>
               if c = CHR ''-'' then (if r = [] \<or> digits_val 0 r = None then 0 else int64_min)
               else if c = CHR ''+'' then (if r = [] \<or> digits_val 0 r = None then 0 else int64_max)
               else if digits_val 0 s = None then 0 else int64_max))"

definition before_sep :: "string \<Rightarrow> string" where
  "before_sep e = (case cut_str e '':::'' of None \<Rightarrow> e | Some (a, b) \<Rightarrow> a)"

definition sort_stream_sub_urls :: "url_map \<Rightarrow> string list" where
  "sort_stream_sub_urls urls =
     map fst (sort_by (\<lambda>p q. snd p < snd q) (map (\<lambda>(k, e). (k, atoi_or_bound (before_sep e))) urls))"

definition direct_source_proxying_enabled :: "environ \<Rightarrow> bool" where
  "direct_source_proxying_enabled env =
     (case parse_bool (trim_space (os_getenv env ''DIRECT_SOURCE_PROXYING'')) of
        None \<Rightarrow> False | Some b \<Rightarrow> b)"

definition categories_grouped_by_source_enabled :: "environ \<Rightarrow> bool" where
  "categories_grouped_by_source_enabled env =
     (case parse_bool (trim_space (os_getenv env ''CATEGORIES_GROUPED_BY_SOURCE'')) of
        None \<Rightarrow> False | Some b \<Rightarrow> b)"

definition source_display_name :: "utils_state \<Rightarrow> string \<Rightarrow> string" where
  "source_display_name us source =
     (let i = trim_space source in
      if i = [] then []
      else
        let name = (case get_source_config us i of None \<Rightarrow> [] | Some c \<Rightarrow> trim_space (sc_name c))
        in if name \<noteq> [] then name
           else (case atoi i of Some n \<Rightarrow> ''Source '' @ itoa n | None \<Rightarrow> i))"

fun best_source_index :: "string \<Rightarrow> stream_urls \<Rightarrow> string" where
  "best_source_index best [] = best"
| "best_source_index best ((i, inner) # us) =
     best_source_index
       (if inner = [] then best
        else if best = [] \<or> less_source_index i best then i else best) us"

definition stream_source_index :: "stream_info \<Rightarrow> string" where
  "stream_source_index s =
     (let i = trim_space (si_source_m3u s) in
      if i \<noteq> [] then i
      else if urls_of s = [] then []
      else best_source_index [] (urls_of s))"

definition stream_group_for_output :: "utils_state \<Rightarrow> stream_info \<Rightarrow> string" where
  "stream_group_for_output us s =
     (if \<not> categories_grouped_by_source_enabled (us_environ us) then si_group s
      else let name = source_display_name us (stream_source_index s) in
        if name \<noteq> [] then name else si_group s)"

text \<open>The names of \<open>cleanupOrphanedSourceCaches\<close> that are removed from the cache directory,
  given the entries (name, is a directory) that \<open>ReadDir\<close> lists.\<close>

definition is_orphaned_cache :: "string list \<Rightarrow> string \<times> bool \<Rightarrow> bool" where
  "is_orphaned_cache active e =
     (if snd e then False
      else
        let i = trim_suffix (trim_suffix (fst e) ''.new'') ''.m3u'' in
        if i = fst e then False else i \<notin> set active)"

definition cleanup_orphaned_source_caches :: "utils_state \<Rightarrow> (string \<times> bool) list \<Rightarrow> (string \<times> bool) list" where
  "cleanup_orphaned_source_caches us entries =
     filter (\<lambda>e. \<not> is_orphaned_cache (get_m3u_indexes us) e) entries"

section \<open>Facts on the merge\<close>

definition urls_ok :: "stream_urls \<Rightarrow> bool" where
  "urls_ok us = (distinct (map fst us) \<and> (\<forall>(i, m) \<in> set us. distinct (map fst m)))"

definition lookup_url :: "stream_urls \<Rightarrow> string \<Rightarrow> string \<Rightarrow> string option" where
  "lookup_url us i k = Option.bind (map_of us i) (\<lambda>m. map_of m k)"

lemma urls_ok_Cons:
  "urls_ok ((i, m) # us) \<longleftrightarrow> urls_ok us \<and> i \<notin> set (map fst us) \<and> distinct (map fst m)"
  by (auto simp: urls_ok_def)

lemma urls_ok_lookup: "urls_ok us \<Longrightarrow> map_of us i = Some m \<Longrightarrow> distinct (map fst m)"
  by (auto simp: urls_ok_def dest: map_of_SomeD)

lemma map_of_merge_inner:
  "distinct (map fst value) \<Longrightarrow>
     map_of (merge_inner old value) = (case old of None \<Rightarrow> map_of value | Some m \<Rightarrow> map_of m ++ map_of value)"
  by (auto simp: merge_inner_def map_of_fold_update map_of_rev_distinct split: option.splits)

lemma distinct_merge_inner:
  "distinct (map fst value) \<Longrightarrow> (\<And>m. old = Some m \<Longrightarrow> distinct (map fst m)) \<Longrightarrow>
     distinct (map fst (merge_inner old value))"
  by (auto simp: merge_inner_def distinct_fold_update split: option.splits)

lemma urls_ok_update:
  assumes "urls_ok us" and "distinct (map fst m)"
  shows "urls_ok (AList.update i m us)"
proof -
  have "\<forall>(j, n) \<in> set (AList.update i m us). distinct (map fst n)"
    using assms unfolding urls_ok_def by (induction us) auto
  then show ?thesis using assms by (simp add: urls_ok_def distinct_update)
qed

lemma merge_urls_step:
  assumes "urls_ok base" and "distinct (map fst m)"
  shows "urls_ok (AList.update i (merge_inner (map_of base i) m) base)"
    and "map_of (AList.update i (merge_inner (map_of base i) m) base) j =
      (if j = i then Some (merge_inner (map_of base i) m) else map_of base j)"
  using assms by (auto simp: update_conv' intro!: urls_ok_update distinct_merge_inner dest: urls_ok_lookup)

lemma merge_urls_ok [goinv]: "urls_ok base \<Longrightarrow> urls_ok new \<Longrightarrow> urls_ok (merge_urls base new)"
  unfolding merge_urls_def
proof (induction new arbitrary: base)
  case Nil
  then show ?case by simp
next
  case (Cons p us)
  obtain j m where p: "p = (j, m)" by (cases p)
  have "urls_ok (AList.update j (merge_inner (map_of base j) m) base)" and "urls_ok us"
    using Cons.prems by (auto simp: p urls_ok_Cons intro: merge_urls_step(1))
  then show ?case using Cons.IH by (simp add: p)
qed

text \<open>The merged map holds every URL of both entries; for a key both have, the newer entry wins.\<close>

lemma lookup_merge_urls:
  "urls_ok base \<Longrightarrow> urls_ok new \<Longrightarrow>
     lookup_url (merge_urls base new) i k =
       (case lookup_url new i k of Some e \<Rightarrow> Some e | None \<Rightarrow> lookup_url base i k)"
proof (induction new arbitrary: base)
  case Nil
  then show ?case by (simp add: merge_urls_def lookup_url_def)
next
  case (Cons p us)
  obtain j m where p: "p = (j, m)" by (cases p)
  let ?b = "AList.update j (merge_inner (map_of base j) m) base"
  have ok: "distinct (map fst m)" "urls_ok us" "j \<notin> set (map fst us)"
    using Cons.prems(2) by (auto simp: p urls_ok_Cons)
  have step: "merge_urls base (p # us) = merge_urls ?b us" by (simp add: merge_urls_def p)
  have "lookup_url (merge_urls ?b us) i k =
      (case lookup_url us i k of Some e \<Rightarrow> Some e | None \<Rightarrow> lookup_url ?b i k)"
    using merge_urls_step(1) [OF Cons.prems(1) ok(1)] ok(2) by (rule Cons.IH)
  moreover have "map_of us j = None" using ok(3) by (simp add: map_of_eq_None_iff)
  then have "i = j \<Longrightarrow> lookup_url us i k = None" by (simp add: lookup_url_def)
  moreover have "i = j \<Longrightarrow> lookup_url ?b i k =
      (case map_of m k of Some e \<Rightarrow> Some e | None \<Rightarrow> lookup_url base i k)"
    using ok(1) by (auto simp: lookup_url_def update_conv' map_of_merge_inner map_add_def split: option.splits)
  moreover have "i \<noteq> j \<Longrightarrow> lookup_url ?b i k = lookup_url base i k"
    by (simp add: lookup_url_def update_conv')
  moreover have "lookup_url (p # us) i k = (if i = j then map_of m k else lookup_url us i k)"
    by (simp add: lookup_url_def p)
  ultimately show ?case unfolding step by (cases "i = j") (simp_all split: option.splits)
qed

end
