(* ===== verification/Base64.thy ===== *)
theory Base64
  imports Prelude
begin

text \<open>
  The encodings of the package encoding/base64 that the program uses for file names,
  stored URLs and proxied logo URLs: the standard alphabet with padding, the URL alphabet
  with padding, and the URL alphabet without. Decoding undoes encoding, which the
  components rely on through the locale \<open>byte_codec\<close>.
\<close>

datatype alphabet = StdAlphabet | UrlAlphabet

definition sextet_char :: "alphabet \<Rightarrow> nat \<Rightarrow> char" where
  "sextet_char a n =
     (if n < 26 then char_of (65 + n)
      else if n < 52 then char_of (71 + n)
      else if n < 62 then char_of (n - 4)
      else if n = 62 then (case a of StdAlphabet \<Rightarrow> CHR ''+'' | UrlAlphabet \<Rightarrow> CHR ''-'')
      else (case a of StdAlphabet \<Rightarrow> CHR ''/'' | UrlAlphabet \<Rightarrow> CHR ''_''))"

definition char_sextet :: "alphabet \<Rightarrow> char \<Rightarrow> nat option" where
  "char_sextet a c =
     (let n = (of_char c :: nat) in
      if 65 \<le> n \<and> n \<le> 90 then Some (n - 65)
      else if 97 \<le> n \<and> n \<le> 122 then Some (n - 71)
      else if 48 \<le> n \<and> n \<le> 57 then Some (n + 4)
      else if c = (case a of StdAlphabet \<Rightarrow> CHR ''+'' | UrlAlphabet \<Rightarrow> CHR ''-'') then Some 62
      else if c = (case a of StdAlphabet \<Rightarrow> CHR ''/'' | UrlAlphabet \<Rightarrow> CHR ''_'') then Some 63
      else None)"

fun b64_encode :: "alphabet \<Rightarrow> bool \<Rightarrow> string \<Rightarrow> string" where
  "b64_encode a pad [] = []"
| "b64_encode a pad [x] =
     (let i = (of_char x :: nat) in
      [sextet_char a (i div 4), sextet_char a (i mod 4 * 16)] @ (if pad then ''=='' else []))"
| "b64_encode a pad [x, y] =
     (let i = (of_char x :: nat); j = (of_char y :: nat) in
      [sextet_char a (i div 4), sextet_char a (i mod 4 * 16 + j div 16),
       sextet_char a (j mod 16 * 4)] @ (if pad then ''='' else []))"
| "b64_encode a pad (x # y # z # r) =
     (let i = (of_char x :: nat); j = (of_char y :: nat); k = (of_char z :: nat) in
      [sextet_char a (i div 4), sextet_char a (i mod 4 * 16 + j div 16),
       sextet_char a (j mod 16 * 4 + k div 64), sextet_char a (k mod 64)] @ b64_encode a pad r)"

text \<open>The decoder: quanta of four characters, the last one padded or cut short. The bits
  a short quantum leaves over are ignored, as the non-strict decoder does; line breaks
  inside the input, which Go skips, are removed first.\<close>

fun b64_quanta :: "alphabet \<Rightarrow> bool \<Rightarrow> string \<Rightarrow> string option" where
  "b64_quanta a pad [] = Some []"
| "b64_quanta a pad [p] = None"
| "b64_quanta a pad [p, q] =
     (if pad then None
      else (case (char_sextet a p, char_sextet a q) of
              (Some s, Some t) \<Rightarrow> Some [char_of (s * 4 + t div 16)] | _ \<Rightarrow> None))"
| "b64_quanta a pad [p, q, r] =
     (if pad then None
      else (case (char_sextet a p, char_sextet a q, char_sextet a r) of
              (Some s, Some t, Some u) \<Rightarrow>
                Some [char_of (s * 4 + t div 16), char_of (t mod 16 * 16 + u div 4)]
            | _ \<Rightarrow> None))"
| "b64_quanta a pad (p # q # r # v # w) =
     (case (char_sextet a p, char_sextet a q) of
        (Some s, Some t) \<Rightarrow>
          (if pad \<and> w = [] \<and> r = CHR ''='' \<and> v = CHR ''='' then Some [char_of (s * 4 + t div 16)]
           else (case char_sextet a r of
                   None \<Rightarrow> None
                 | Some u \<Rightarrow>
                     if pad \<and> w = [] \<and> v = CHR ''='' then
                       Some [char_of (s * 4 + t div 16), char_of (t mod 16 * 16 + u div 4)]
                     else (case (char_sextet a v, b64_quanta a pad w) of
                             (Some x, Some rest) \<Rightarrow>
                               Some (char_of (s * 4 + t div 16) # char_of (t mod 16 * 16 + u div 4) #
                                     char_of (u mod 4 * 64 + x) # rest)
                           | _ \<Rightarrow> None)))
      | _ \<Rightarrow> None)"

definition b64_decode :: "alphabet \<Rightarrow> bool \<Rightarrow> string \<Rightarrow> string option" where
  "b64_decode a pad s = b64_quanta a pad (filter (\<lambda>c. c \<noteq> CHR 0x0A \<and> c \<noteq> CHR 0x0D) s)"

lemma of_char_sextet: "n < 64 \<Longrightarrow> char_sextet a (sextet_char a n) = Some n"
proof -
  assume n: "n < 64"
  have c: "(of_char (char_of m :: char) :: nat) = m" if "m < 256" for m :: nat
    using that by simp
  have d: "n = 62 \<or> n = 63" if "\<not> n < 62" using n that by auto
  show ?thesis
    by (cases "n < 26"; cases "n < 52"; cases "n < 62"; cases a)
       (use n c d in \<open>auto simp: char_sextet_def sextet_char_def Let_def\<close>)
qed

lemma sextet_char_ne:
  "n < 64 \<Longrightarrow> sextet_char a n \<noteq> CHR ''='' \<and> sextet_char a n \<noteq> CHR 0x0A \<and> sextet_char a n \<noteq> CHR 0x0D"
proof -
  assume "n < 64"
  then have "char_sextet a (sextet_char a n) = Some n" by (rule of_char_sextet)
  moreover have "char_sextet a (CHR ''='') = None" "char_sextet a (CHR 0x0A) = None"
    "char_sextet a (CHR 0x0D) = None"
    by (cases a; simp add: char_sextet_def)+
  ultimately show ?thesis by (metis option.distinct(1))
qed

lemma of_char_less [simp]: "(of_char (c :: char) :: nat) < 256"
  by (cases c) (auto simp: of_char_Char horner_sum_simps of_bool_def)

text \<open>The three bytes of a quantum and its four sextets.\<close>

abbreviation byte :: "char \<Rightarrow> nat" where "byte c \<equiv> of_char c"

lemma low_digit: "(b :: nat) < 16 \<Longrightarrow> (a * 16 + b) mod 16 = b" "b < 16 \<Longrightarrow> (a * 16 + b) div 16 = a"
  by simp_all

lemma sextets:
  fixes i j k :: nat
  assumes "i < 256" and "j < 256" and "k < 256"
  shows "i div 4 < 64" and "i mod 4 * 16 + j div 16 < 64" and "j mod 16 * 4 + k div 64 < 64"
    and "k mod 64 < 64"
  using assms by linarith+

lemma first_byte: "(j :: nat) < 256 \<Longrightarrow> i div 4 * 4 + (i mod 4 * 16 + j div 16) div 16 = i"
  by (subst low_digit(2)) auto

lemma second_byte:
  assumes "(j :: nat) < 256" and "k < 256"
  shows "(i mod 4 * 16 + j div 16) mod 16 * 16 + (j mod 16 * 4 + k div 64) div 4 = j"
proof -
  have "k div 64 < 4" using assms by linarith
  then have "(j mod 16 * 4 + k div 64) div 4 = j mod 16" by linarith
  moreover have "j div 16 < 16" using assms by linarith
  ultimately show ?thesis by (simp only: low_digit) simp
qed

lemma third_byte:
  assumes "(k :: nat) < 256"
  shows "(j mod 16 * 4 + k div 64) mod 4 * 64 + k mod 64 = k"
proof -
  have "k div 64 < 4" using assms by linarith
  moreover have "(j mod 16 * 4 + d) mod 4 = d" if "d < 4" for d using that by simp
  ultimately have "(j mod 16 * 4 + k div 64) mod 4 = k div 64" by blast
  then show ?thesis by simp
qed

lemma b64_encode_one:
  obtains s t :: nat where "s < 64" and "t < 64" and "char_of (s * 4 + t div 16) = x"
    and "\<And>a pad. b64_encode a pad [x] =
      [sextet_char a s, sextet_char a t] @ (if pad then ''=='' else [])"
proof (rule that [of "byte x div 4" "byte x mod 4 * 16 + 0 div 16"])
  show "char_of (byte x div 4 * 4 + (byte x mod 4 * 16 + 0 div 16) div 16) = x"
    by (subst first_byte) auto
qed (use sextets [of "byte x" 0 0] in \<open>simp_all add: Let_def\<close>)

lemma b64_encode_two:
  obtains s t u :: nat where "s < 64" and "t < 64" and "u < 64"
    and "char_of (s * 4 + t div 16) = x" and "char_of (t mod 16 * 16 + u div 4) = y"
    and "\<And>a pad. b64_encode a pad [x, y] =
      [sextet_char a s, sextet_char a t, sextet_char a u] @ (if pad then ''='' else [])"
proof (rule that [of "byte x div 4" "byte x mod 4 * 16 + byte y div 16"
      "byte y mod 16 * 4 + 0 div 64"])
  show "char_of (byte x div 4 * 4 + (byte x mod 4 * 16 + byte y div 16) div 16) = x"
    by (subst first_byte) auto
  show "char_of ((byte x mod 4 * 16 + byte y div 16) mod 16 * 16 +
      (byte y mod 16 * 4 + 0 div 64) div 4) = y"
    by (subst second_byte) auto
qed (use sextets [of "byte x" "byte y" 0] in \<open>simp_all add: Let_def\<close>)

lemma b64_encode_three:
  obtains s t u v :: nat where "s < 64" and "t < 64" and "u < 64" and "v < 64"
    and "char_of (s * 4 + t div 16) = x" and "char_of (t mod 16 * 16 + u div 4) = y"
    and "char_of (u mod 4 * 64 + v) = z"
    and "\<And>a pad r. b64_encode a pad (x # y # z # r) =
      [sextet_char a s, sextet_char a t, sextet_char a u, sextet_char a v] @ b64_encode a pad r"
proof (rule that [of "byte x div 4" "byte x mod 4 * 16 + byte y div 16"
      "byte y mod 16 * 4 + byte z div 64" "byte z mod 64"])
  show "char_of (byte x div 4 * 4 + (byte x mod 4 * 16 + byte y div 16) div 16) = x"
    by (subst first_byte) auto
  show "char_of ((byte x mod 4 * 16 + byte y div 16) mod 16 * 16 +
      (byte y mod 16 * 4 + byte z div 64) div 4) = y"
    by (subst second_byte) auto
  show "char_of ((byte y mod 16 * 4 + byte z div 64) mod 4 * 64 + byte z mod 64) = z"
    by (subst third_byte) auto
qed (use sextets [of "byte x" "byte y" "byte z"] in \<open>simp_all add: Let_def\<close>)

lemma b64_quanta_encode: "b64_quanta a pad (b64_encode a pad s) = Some s"
proof (induction a pad s rule: b64_encode.induct)
  case (1 a pad)
  then show ?case by simp
next
  case (2 a pad x)
  obtain s t where "s < 64" "t < 64" "char_of (s * 4 + t div 16) = x"
    and "\<And>a pad. b64_encode a pad [x] = [sextet_char a s, sextet_char a t] @ (if pad then ''=='' else [])"
    by (rule b64_encode_one [where x = x]) blast
  then show ?case by (simp add: of_char_sextet del: b64_encode.simps)
next
  case (3 a pad x y)
  obtain s t u where "s < 64" "t < 64" "u < 64" "char_of (s * 4 + t div 16) = x"
    "char_of (t mod 16 * 16 + u div 4) = y"
    and "\<And>a pad. b64_encode a pad [x, y] =
      [sextet_char a s, sextet_char a t, sextet_char a u] @ (if pad then ''='' else [])"
    by (rule b64_encode_two [where x = x and y = y]) blast
  then show ?case by (simp add: of_char_sextet sextet_char_ne del: b64_encode.simps)
next
  case (4 a pad x y z r)
  obtain s t u v where "s < 64" "t < 64" "u < 64" "v < 64" "char_of (s * 4 + t div 16) = x"
    "char_of (t mod 16 * 16 + u div 4) = y" "char_of (u mod 4 * 64 + v) = z"
    and "\<And>a pad r. b64_encode a pad (x # y # z # r) =
      [sextet_char a s, sextet_char a t, sextet_char a u, sextet_char a v] @ b64_encode a pad r"
    by (rule b64_encode_three [where x = x and y = y and z = z]) blast
  with 4 show ?case by (simp add: of_char_sextet sextet_char_ne del: b64_encode.simps)
qed

definition b64_line :: "char \<Rightarrow> bool" where
  "b64_line c = (c \<noteq> CHR 0x0A \<and> c \<noteq> CHR 0x0D)"

lemma b64_line_sextet: "n < 64 \<Longrightarrow> b64_line (sextet_char a n)"
  by (simp add: b64_line_def sextet_char_ne)

text \<open>The characters of a text: those of sextets, and the padding.\<close>

lemma b64_encode_all:
  assumes sextet: "\<And>n. n < 64 \<Longrightarrow> P (sextet_char a n)" and eq: "pad \<Longrightarrow> P (CHR ''='')"
  shows "list_all P (b64_encode a pad s)"
  using assms
proof (induction a pad s rule: b64_encode.induct)
  case (1 a pad)
  then show ?case by simp
next
  case (2 a pad x)
  obtain s t where "s < 64" "t < 64"
    and "\<And>a pad. b64_encode a pad [x] = [sextet_char a s, sextet_char a t] @ (if pad then ''=='' else [])"
    by (rule b64_encode_one [where x = x]) blast
  then show ?case using 2 by (simp del: b64_encode.simps)
next
  case (3 a pad x y)
  obtain s t u where "s < 64" "t < 64" "u < 64"
    and "\<And>a pad. b64_encode a pad [x, y] =
      [sextet_char a s, sextet_char a t, sextet_char a u] @ (if pad then ''='' else [])"
    by (rule b64_encode_two [where x = x and y = y]) blast
  then show ?case using 3 by (simp del: b64_encode.simps)
next
  case (4 a pad x y z r)
  obtain s t u v where "s < 64" "t < 64" "u < 64" "v < 64"
    and "\<And>a pad r. b64_encode a pad (x # y # z # r) =
      [sextet_char a s, sextet_char a t, sextet_char a u, sextet_char a v] @ b64_encode a pad r"
    by (rule b64_encode_three [where x = x and y = y and z = z]) blast
  then show ?case using 4 by (simp del: b64_encode.simps)
qed

lemma b64_encode_chars: "list_all b64_line (b64_encode a pad s)"
  by (rule b64_encode_all) (use b64_line_sextet in \<open>simp_all add: b64_line_def\<close>)

text \<open>The alphabet for URLs has no character that structures a path.\<close>

lemma b64_url_chars: "list_all (\<lambda>c. c \<noteq> CHR ''.'' \<and> c \<noteq> CHR ''/'') (b64_encode UrlAlphabet False s)"
proof (rule b64_encode_all)
  fix n :: nat
  assume "n < 64"
  then have "char_sextet UrlAlphabet (sextet_char UrlAlphabet n) = Some n" by (rule of_char_sextet)
  moreover have "char_sextet UrlAlphabet (CHR ''.'') = None" "char_sextet UrlAlphabet (CHR ''/'') = None"
    by (simp_all add: char_sextet_def)
  ultimately show "sextet_char UrlAlphabet n \<noteq> CHR ''.'' \<and> sextet_char UrlAlphabet n \<noteq> CHR ''/''"
    by (metis option.distinct(1))
qed simp

lemma b64_encode_nonempty: "s \<noteq> [] \<Longrightarrow> b64_encode a pad s \<noteq> []"
  by (cases "(a, pad, s)" rule: b64_encode.cases) (auto simp: Let_def)

lemma b64_roundtrip: "b64_decode a pad (b64_encode a pad s) = Some s"
proof -
  have "filter (\<lambda>c. c \<noteq> CHR 0x0A \<and> c \<noteq> CHR 0x0D) (b64_encode a pad s) = b64_encode a pad s"
    using b64_encode_chars [of a pad s] by (auto simp: list_all_iff b64_line_def intro!: filter_True)
  then show ?thesis by (simp add: b64_decode_def b64_quanta_encode)
qed

text \<open>The contract: what is encoded can be read back.\<close>

locale byte_codec =
  fixes enc :: "string \<Rightarrow> string" and dec :: "string \<Rightarrow> string option"
  assumes dec_enc: "dec (enc s) = Some s"
begin

lemma enc_inj: "enc s = enc t \<longleftrightarrow> s = t"
  by (metis dec_enc option.inject)

end

abbreviation "std_encode \<equiv> b64_encode StdAlphabet True"
abbreviation "url_encode \<equiv> b64_encode UrlAlphabet True"
abbreviation "raw_url_encode \<equiv> b64_encode UrlAlphabet False"
abbreviation "std_decode \<equiv> b64_decode StdAlphabet True"
abbreviation "url_decode \<equiv> b64_decode UrlAlphabet True"
abbreviation "raw_url_decode \<equiv> b64_decode UrlAlphabet False"

interpretation std64: byte_codec std_encode std_decode
  by unfold_locales (rule b64_roundtrip)

interpretation url64: byte_codec url_encode url_decode
  by unfold_locales (rule b64_roundtrip)

interpretation raw64: byte_codec raw_url_encode raw_url_decode
  by unfold_locales (rule b64_roundtrip)

end
