(* ===== verification/ChannelFilter.thy ===== *)
theory ChannelFilter
  imports Streams Base64
begin

text \<open>
  Which channels enter the playlist and under which title, sourceproc/filter.go: the
  include and exclude patterns, the rules that pin a channel to sources, the rules that
  merge titles, and the URL files of a channel. \<open>filter_config\<close> holds the package
  variables that \<open>initFilters\<close> sets once (\<open>filterOnce\<close>); the functions take the
  configuration that call has fixed. A compiled regular expression is its matching
  predicate; \<open>regexp.Compile\<close> is the parameter \<open>lib_regex\<close>.
\<close>

type_synonym matcher = "string \<Rightarrow> bool"

record channel_source_rule =
  csr_title_regex :: matcher
  csr_source_indexes :: "string list"

record filter_config =
  fc_include_groups :: "matcher list"
  fc_include_titles :: "matcher list"
  fc_exclude_groups :: "matcher list"
  fc_exclude_titles :: "matcher list"
  fc_channel_rules :: "channel_source_rule list"
  fc_channel_merges :: "(string \<times> string) list"

section \<open>Rules\<close>

definition compile_regexes :: "go_lib \<Rightarrow> string list \<Rightarrow> matcher list" where
  "compile_regexes lib fs = List.map_filter (lib_regex lib) fs"

text \<open>The two halves of a rule "left|right", trimmed; None where the code skips the rule.\<close>

definition split_rule :: "string \<Rightarrow> (string \<times> string) option" where
  "split_rule raw =
     (let t = trim_space raw in
      if t = [] then None
      else (case cut_str t ''|'' of
              None \<Rightarrow> None
            | Some (a, b) \<Rightarrow>
                let l = trim_space a; r = trim_space b in
                if l = [] \<or> r = [] then None else Some (l, r)))"

definition parse_channel_source_rule :: "go_lib \<Rightarrow> string \<Rightarrow> channel_source_rule option" where
  "parse_channel_source_rule lib raw =
     (case split_rule raw of
        None \<Rightarrow> None
      | Some (pattern, sources) \<Rightarrow>
          (case lib_regex lib pattern of
             None \<Rightarrow> None
           | Some re \<Rightarrow>
               let ss = filter (\<lambda>x. x \<noteq> []) (map trim_space (split_char (CHR '','') sources)) in
               if ss = [] then None
               else Some \<lparr>csr_title_regex = re, csr_source_indexes = ss\<rparr>))"

definition parse_channel_source_rules :: "go_lib \<Rightarrow> string list \<Rightarrow> channel_source_rule list" where
  "parse_channel_source_rules lib raws = List.map_filter (parse_channel_source_rule lib) raws"

definition normalize_channel_merge_key :: "string \<Rightarrow> string" where
  "normalize_channel_merge_key v =
     (let t = trim_space v in
      if t = [] then []
      else filter (\<lambda>c. is_letter c \<or> is_digit c) (to_lower (squeeze t)))"

definition parse_channel_merge_rules :: "string list \<Rightarrow> (string \<times> string) list" where
  "parse_channel_merge_rules raws =
     fold (\<lambda>raw merges.
             case split_rule raw of
               None \<Rightarrow> merges
             | Some (source, target) \<Rightarrow>
                 if equal_fold source target then merges
                 else AList.update (normalize_channel_merge_key source) target merges) raws []"

text \<open>The loop of \<open>applyChannelMergeRule\<close>: it follows the rules from key to key until no
  rule applies or a key comes back.\<close>

function merge_loop :: "(string \<times> string) list \<Rightarrow> string list \<Rightarrow> string \<Rightarrow> string" where
  "merge_loop merges seen current =
     (let key = normalize_channel_merge_key current in
      case map_of merges key of
        None \<Rightarrow> current
      | Some next \<Rightarrow>
          if key \<in> set seen then current
          else if trim_space next = [] then current
          else merge_loop merges (key # seen) (squeeze (trim_space next)))"
  by pat_completeness auto
termination
proof (relation "measure (\<lambda>(merges, seen, current). card (set (map fst merges) - set seen))")
  fix merges :: "(string \<times> string) list" and seen :: "string list" and current key nxt :: string
  assume m: "map_of merges key = Some nxt" and s: "key \<notin> set seen"
  have "key \<in> set (map fst merges) - set seen"
    using m s by (metis DiffI map_of_eq_None_iff option.distinct(1) set_map)
  then have "card (set (map fst merges) - set (key # seen)) < card (set (map fst merges) - set seen)"
    by (intro psubset_card_mono) auto
  then show "((merges, key # seen, squeeze (trim_space nxt)), merges, seen, current)
      \<in> measure (\<lambda>(merges, seen, current). card (set (map fst merges) - set seen))"
    by simp
qed simp

declare merge_loop.simps [simp del]

definition apply_channel_merge_rule :: "filter_config \<Rightarrow> string \<Rightarrow> string" where
  "apply_channel_merge_rule fc title =
     (let current = squeeze (trim_space title) in
      if current = [] then title
      else if fc_channel_merges fc = [] then current
      else merge_loop (fc_channel_merges fc) [] current)"

section \<open>The filter\<close>

text \<open>\<open>initFilters\<close>: the numbered filters of the six variables, read in the code's order.\<close>

definition init_filters :: "go_lib \<Rightarrow> utils_state \<Rightarrow> filter_config \<times> utils_state" where
  "init_filters lib us =
     (let (eg, us1) = get_filters ''EXCLUDE_GROUPS'' us;
          (et, us2) = get_filters ''EXCLUDE_TITLE'' us1;
          (ig, us3) = get_filters ''INCLUDE_GROUPS'' us2;
          (it, us4) = get_filters ''INCLUDE_TITLE'' us3;
          (cs, us5) = get_filters ''CHANNEL_SOURCES'' us4;
          (cm, us6) = get_filters ''CHANNEL_MERGE'' us5
      in (\<lparr>fc_include_groups = compile_regexes lib ig,
           fc_include_titles = compile_regexes lib it,
           fc_exclude_groups = compile_regexes lib eg,
           fc_exclude_titles = compile_regexes lib et,
           fc_channel_rules = parse_channel_source_rules lib cs,
           fc_channel_merges = parse_channel_merge_rules cm\<rparr>, us6))"

definition match_any :: "matcher list \<Rightarrow> string \<Rightarrow> bool" where
  "match_any res s = list_ex (\<lambda>re. re s) res"

definition all_filters_empty :: "filter_config \<Rightarrow> bool" where
  "all_filters_empty fc =
     (fc_include_groups fc = [] \<and> fc_include_titles fc = [] \<and>
      fc_exclude_groups fc = [] \<and> fc_exclude_titles fc = [])"

fun match_rules :: "channel_source_rule list \<Rightarrow> bool \<Rightarrow> string \<Rightarrow> string \<Rightarrow> bool" where
  "match_rules [] hit title source = (\<not> hit)"
| "match_rules (r # rs) hit title source =
     (if \<not> csr_title_regex r title then match_rules rs hit title source
      else if source \<in> set (csr_source_indexes r) then True
      else match_rules rs True title source)"

definition match_channel_source_rule :: "filter_config \<Rightarrow> stream_info \<Rightarrow> bool" where
  "match_channel_source_rule fc s =
     (if fc_channel_rules fc = [] then True
      else match_rules (fc_channel_rules fc) False (si_title s) (si_source_m3u s))"

definition check_filter :: "filter_config \<Rightarrow> stream_info \<Rightarrow> bool" where
  "check_filter fc s =
     (if \<not> match_channel_source_rule fc s then False
      else if all_filters_empty fc then True
      else if match_any (fc_include_groups fc) (si_group s) \<or> match_any (fc_include_titles fc) (si_title s)
      then True
      else if match_any (fc_exclude_groups fc) (si_group s) \<or> match_any (fc_exclude_titles fc) (si_title s)
      then False
      else fc_include_groups fc = [] \<and> fc_include_titles fc = [])"

section \<open>The URL files of a channel\<close>

text \<open>The files under the streams directory as triples (shard directory, file name, content),
  in the order in which \<open>filepath.Glob\<close> lists them.\<close>

type_synonym stream_files = "((string \<times> string) \<times> string) list"

fun dedup_acc :: "'a list \<Rightarrow> 'a list \<Rightarrow> 'a list" where
  "dedup_acc seen [] = []"
| "dedup_acc seen (x # xs) =
     (if x \<in> set seen then dedup_acc seen xs else x # dedup_acc (x # seen) xs)"

text \<open>The match of one pattern "*/name*": any shard, a file name that starts with the name.
  The names used hold none of the pattern's special characters.\<close>

definition glob_prefix :: "stream_files \<Rightarrow> string \<Rightarrow> stream_files" where
  "glob_prefix files name = filter (\<lambda>f. has_prefix (snd (fst f)) name) files"

definition url_file_names :: "string \<Rightarrow> string \<Rightarrow> string list" where
  "url_file_names title idx =
     (let safe = raw_url_encode title; legacy = std_encode title in
      (safe @ ''_'' @ idx) # (if legacy \<noteq> safe then [legacy @ ''_'' @ idx] else []))"

definition sub_index_of_file :: "string \<Rightarrow> string" where
  "sub_index_of_file name =
     (case cut_str name ''__'' of
        Some (_, b) \<Rightarrow> b
      | None \<Rightarrow> (case cut_str name ''|'' of Some (_, b) \<Rightarrow> b | None \<Rightarrow> []))"

text \<open>The entry "line:::url" that a file of the URL cache stands for, None where it is skipped.\<close>

definition entry_of_file :: "(string \<times> string) \<times> string \<Rightarrow> (string \<times> string) option" where
  "entry_of_file f =
     (let sub = sub_index_of_file (snd (fst f)) in
      if sub = [] then None
      else
        let (line, enc) = (case cut_str (snd f) '':::'' of Some (a, b) \<Rightarrow> (a, b) | None \<Rightarrow> (''0'', snd f))
        in (case std_decode enc of
              None \<Rightarrow> None
            | Some url \<Rightarrow> Some (sub, trim_space (line @ '':::'' @ url))))"

definition load_stream_urls :: "stream_files \<Rightarrow> string \<Rightarrow> stream_info \<Rightarrow> stream_info" where
  "load_stream_urls files idx s =
     (let matches = dedup_acc [] (concat (map (glob_prefix files) (url_file_names (si_title s) idx)));
          entries = List.map_filter entry_of_file matches
      in if entries = [] then s
         else s\<lparr>si_urls := Some (AList.update idx
                  (fold (\<lambda>(k, e). AList.update k e) entries
                     (case map_of (urls_of s) idx of None \<Rightarrow> [] | Some m \<Rightarrow> m)) (urls_of s))\<rparr>)"

definition has_valid_stream_urls :: "stream_info \<Rightarrow> bool" where
  "has_valid_stream_urls s = list_ex (\<lambda>(i, m). m \<noteq> []) (urls_of s)"

definition restore_stream_fallback_url :: "stream_info \<Rightarrow> stream_info" where
  "restore_stream_fallback_url s =
     (if has_valid_stream_urls s then s
      else
        let i = trim_space (si_source_m3u s); u = trim_space (si_source_url s) in
        if i = [] \<or> u = [] then s
        else s\<lparr>si_urls := Some (AList.update i
                  [(''fallback'', itoa (si_source_index s) @ '':::'' @ u)] (urls_of s))\<rparr>)"

definition primary_source_url :: "stream_info \<Rightarrow> string \<Rightarrow> string \<times> int" where
  "primary_source_url s i =
     (case map_of (urls_of s) i of
        None \<Rightarrow> ([], 0)
      | Some [] \<Rightarrow> ([], 0)
      | Some ((_, e) # _) \<Rightarrow>
          (case cut_str e '':::'' of
             None \<Rightarrow> (trim_space e, 0)
           | Some (a, b) \<Rightarrow>
               (trim_space b, case atoi (trim_space a) of Some n \<Rightarrow> n | None \<Rightarrow> 0)))"

fun best_source :: "string \<Rightarrow> int \<Rightarrow> stream_urls \<Rightarrow> string" where
  "best_source best line [] = best"
| "best_source best line ((i, inner) # us) =
     (case inner of
        [] \<Rightarrow> best_source best line us
      | (_, e) # _ \<Rightarrow>
          let l = (case cut_str e '':::'' of
                     None \<Rightarrow> 0
                   | Some (a, _) \<Rightarrow> (case atoi (trim_space a) of Some n \<Rightarrow> n | None \<Rightarrow> 0))
          in if best = [] \<or> less_source_index i best \<or> (i = best \<and> l < line)
             then best_source i l us else best_source best line us)"

definition prune_stream_to_configured_sources :: "string list \<Rightarrow> stream_info \<Rightarrow> stream_info" where
  "prune_stream_to_configured_sources configured s =
     (case si_urls s of
        None \<Rightarrow> s
      | Some us \<Rightarrow>
          (let s1 = s\<lparr>si_urls := Some (filter (\<lambda>(i, m). i \<in> set configured) us)\<rparr>;
               s2 = (case si_epg_meta s1 of
                       None \<Rightarrow> s1
                     | Some m \<Rightarrow>
                         let m' = filter (\<lambda>(i, t). i \<in> set configured) m
                         in s1\<lparr>si_epg_meta := (if m' = [] then None else Some m')\<rparr>);
               s3 = (if si_source_m3u s2 \<noteq> [] \<and> si_source_m3u s2 \<notin> set configured
                     then s2\<lparr>si_source_m3u := [], si_source_index := 0, si_source_url := []\<rparr>
                     else s2)
           in if urls_of s3 = [] then s3
              else if si_source_m3u s3 = [] then
                (let best = best_source [] 0 (urls_of s3) in
                 if best \<noteq> [] then
                   (let s4 = s3\<lparr>si_source_m3u := best\<rparr>; (u, n) = primary_source_url s4 best
                    in s4\<lparr>si_source_url := u, si_source_index := n\<rparr>)
                 else s3)
              else s3))"

definition restore_compile_stream_urls :: "utils_state \<Rightarrow> stream_files \<Rightarrow> stream_info \<Rightarrow> stream_info" where
  "restore_compile_stream_urls us files s0 =
     (let s = (case si_urls s0 of None \<Rightarrow> s0\<lparr>si_urls := Some []\<rparr> | Some _ \<Rightarrow> s0);
          configured = get_m3u_indexes us
      in if urls_of s \<noteq> [] then prune_stream_to_configured_sources configured s
         else restore_stream_fallback_url
                (prune_stream_to_configured_sources configured
                   (fold (load_stream_urls files) configured s)))"

section \<open>Facts on the merge rules\<close>

text \<open>One round of the loop, and where the loop goes on.\<close>

definition merge_step :: "(string \<times> string) list \<Rightarrow> string \<Rightarrow> string" where
  "merge_step merges c =
     squeeze (trim_space (case map_of merges (normalize_channel_merge_key c) of None \<Rightarrow> [] | Some n \<Rightarrow> n))"

definition merge_live :: "(string \<times> string) list \<Rightarrow> string \<Rightarrow> bool" where
  "merge_live merges c =
     (case map_of merges (normalize_channel_merge_key c) of None \<Rightarrow> False | Some n \<Rightarrow> trim_space n \<noteq> [])"

definition merge_stop :: "(string \<times> string) list \<Rightarrow> string list \<Rightarrow> string \<Rightarrow> bool" where
  "merge_stop merges seen c = (\<not> merge_live merges c \<or> normalize_channel_merge_key c \<in> set seen)"

lemma merge_loop_unfold:
  "merge_loop merges seen c =
     (if merge_stop merges seen c then c
      else merge_loop merges (normalize_channel_merge_key c # seen) (merge_step merges c))"
  by (subst merge_loop.simps)
     (auto simp: merge_stop_def merge_live_def merge_step_def Let_def split: option.splits)

lemma merge_step_cong:
  "normalize_channel_merge_key c = normalize_channel_merge_key d \<Longrightarrow> merge_step merges c = merge_step merges d"
  by (simp add: merge_step_def)

lemma merge_live_cong:
  "normalize_channel_merge_key c = normalize_channel_merge_key d \<Longrightarrow> merge_live merges c = merge_live merges d"
  by (simp add: merge_live_def)

text \<open>The titles the loop passes through, as iterates.\<close>

definition merge_iter :: "(string \<times> string) list \<Rightarrow> string \<Rightarrow> nat \<Rightarrow> string" where
  "merge_iter merges c i = (merge_step merges ^^ i) c"

lemma merge_iter_simps [simp]:
  "merge_iter merges c 0 = c"
  "merge_iter merges (merge_step merges c) i = merge_iter merges c (Suc i)"
  by (simp_all add: merge_iter_def funpow_Suc_right del: funpow.simps)

lemma merge_iter_Suc: "merge_iter merges c (Suc i) = merge_step merges (merge_iter merges c i)"
  by (simp add: merge_iter_def)

definition merge_seen :: "(string \<times> string) list \<Rightarrow> string \<Rightarrow> nat \<Rightarrow> string list" where
  "merge_seen merges c i = map (\<lambda>j. normalize_channel_merge_key (merge_iter merges c j)) [0..<i]"

lemma merge_seen_Suc:
  "set (merge_seen merges c (Suc i)) =
     insert (normalize_channel_merge_key c) (set (merge_seen merges (merge_step merges c) i))"
  unfolding merge_seen_def by (simp add: upt_conv_Cons map_Suc_upt [symmetric] comp_def del: upt_Suc map_Suc_upt)

lemma merge_loop_eq:
  "(\<And>i. i < n \<Longrightarrow> \<not> merge_stop merges (merge_seen merges c i @ seen) (merge_iter merges c i)) \<Longrightarrow>
   merge_stop merges (merge_seen merges c n @ seen) (merge_iter merges c n) \<Longrightarrow>
   merge_loop merges seen c = merge_iter merges c n"
proof (induction n arbitrary: c seen)
  case 0
  then show ?case by (subst merge_loop_unfold) (simp add: merge_seen_def)
next
  case (Suc n)
  have stop: "merge_stop merges (merge_seen merges c (Suc i) @ seen) d =
      merge_stop merges (merge_seen merges (merge_step merges c) i @ normalize_channel_merge_key c # seen) d"
    for i d by (auto simp: merge_stop_def merge_seen_Suc)
  have "\<not> merge_stop merges seen c" using Suc.prems(1) [of 0] by (simp add: merge_seen_def)
  moreover have "merge_loop merges (normalize_channel_merge_key c # seen) (merge_step merges c) =
      merge_iter merges (merge_step merges c) n"
  proof (rule Suc.IH)
    fix i assume "i < n"
    then show "\<not> merge_stop merges (merge_seen merges (merge_step merges c) i @
        normalize_channel_merge_key c # seen) (merge_iter merges (merge_step merges c) i)"
      using Suc.prems(1) [of "Suc i"] stop by simp
  next
    show "merge_stop merges (merge_seen merges (merge_step merges c) n @
        normalize_channel_merge_key c # seen) (merge_iter merges (merge_step merges c) n)"
      using Suc.prems(2) stop by simp
  qed
  ultimately show ?case by (subst merge_loop_unfold) simp
qed

lemma merge_loop_iter:
  "\<exists>n. merge_loop merges seen c = merge_iter merges c n \<and>
     (\<forall>i < n. \<not> merge_stop merges (merge_seen merges c i @ seen) (merge_iter merges c i)) \<and>
     merge_stop merges (merge_seen merges c n @ seen) (merge_iter merges c n)"
proof (induction merges seen c rule: merge_loop.induct)
  case (1 merges seen c)
  show ?case
  proof (cases "merge_stop merges seen c")
    case True
    then show ?thesis by (intro exI [of _ 0]) (simp add: merge_loop_unfold merge_seen_def)
  next
    case False
    have stop: "merge_stop merges (merge_seen merges c (Suc i) @ seen) d =
        merge_stop merges (merge_seen merges (merge_step merges c) i @ normalize_channel_merge_key c # seen) d"
      for i d by (auto simp: merge_stop_def merge_seen_Suc)
    from False obtain nxt where nxt: "map_of merges (normalize_channel_merge_key c) = Some nxt"
      "normalize_channel_merge_key c \<notin> set seen" "trim_space nxt \<noteq> []"
      by (auto simp: merge_stop_def merge_live_def split: option.splits)
    then have "merge_step merges c = squeeze (trim_space nxt)" by (simp add: merge_step_def)
    with 1 [OF refl nxt] obtain n where
      n: "merge_loop merges (normalize_channel_merge_key c # seen) (merge_step merges c) =
            merge_iter merges (merge_step merges c) n"
      "\<forall>i < n. \<not> merge_stop merges (merge_seen merges (merge_step merges c) i @
          normalize_channel_merge_key c # seen) (merge_iter merges (merge_step merges c) i)"
      "merge_stop merges (merge_seen merges (merge_step merges c) n @
          normalize_channel_merge_key c # seen) (merge_iter merges (merge_step merges c) n)"
      by auto
    have "\<not> merge_stop merges (merge_seen merges c i @ seen) (merge_iter merges c i)" if "i < Suc n" for i
      using that n(2) False stop by (cases i) (auto simp: merge_seen_def [of _ _ 0])
    then show ?thesis
      using n False stop by (intro exI [of _ "Suc n"]) (simp add: merge_loop_unfold [of merges seen c])
  qed
qed

text \<open>A title that rules have rewritten is a fixed point: where the loop stops at a title
  without a rule this is immediate; where it stops at a cycle, the second run walks the
  cycle once and comes back to the same title.\<close>

lemma merge_loop_idem: "merge_loop merges [] (merge_loop merges [] c) = merge_loop merges [] c"
proof -
  obtain n where n: "merge_loop merges [] c = merge_iter merges c n"
    "\<forall>i < n. \<not> merge_stop merges (merge_seen merges c i @ []) (merge_iter merges c i)"
    "merge_stop merges (merge_seen merges c n @ []) (merge_iter merges c n)"
    using merge_loop_iter by blast
  let ?r = "merge_iter merges c n" and ?k = "\<lambda>i. normalize_channel_merge_key (merge_iter merges c i)"
  show ?thesis
  proof (cases "merge_live merges ?r")
    case False
    then show ?thesis unfolding n(1) by (subst merge_loop_unfold) (simp add: merge_stop_def)
  next
    case True
    with n(3) obtain m where m: "m < n" "?k n = ?k m"
      by (auto simp: merge_stop_def merge_seen_def)
    have shift: "merge_iter merges ?r (Suc i) = merge_iter merges c (Suc (m + i))" for i
    proof (induction i)
      case 0
      then show ?case using merge_step_cong [OF m(2)] by (simp add: merge_iter_Suc)
    next
      case (Suc i)
      then show ?case by (simp add: merge_iter_Suc)
    qed
    have key: "normalize_channel_merge_key (merge_iter merges ?r i) = ?k (m + i)" for i
      using m(2) shift by (cases i) simp_all
    have rnd: "merge_iter merges ?r (n - m) = ?r"
      using shift [of "n - m - 1"] m(1) by (simp add: Suc_diff_Suc)
    have fresh: "?k j \<noteq> ?k i" if "i < j" "j < n" for i j
      using n(2) that by (auto simp: merge_stop_def merge_seen_def)
    have live: "merge_live merges (merge_iter merges ?r i)" if "i < n - m" for i
    proof -
      have "merge_live merges (merge_iter merges c (m + i))"
        using n(2) that by (auto simp: merge_stop_def)
      then show ?thesis using merge_live_cong [OF key] by simp
    qed
    have "merge_loop merges [] ?r = merge_iter merges ?r (n - m)"
    proof (rule merge_loop_eq)
      fix i assume i: "i < n - m"
      then have "\<forall>j < i. ?k (m + i) \<noteq> ?k (m + j)" using fresh by simp
      then show "\<not> merge_stop merges (merge_seen merges ?r i @ []) (merge_iter merges ?r i)"
        using live [OF i] by (auto simp: merge_stop_def merge_seen_def key)
    next
      have "normalize_channel_merge_key (merge_iter merges ?r 0) \<in> set (merge_seen merges ?r (n - m))"
        unfolding merge_seen_def set_map using m(1) by (intro imageI) simp
      then show "merge_stop merges (merge_seen merges ?r (n - m) @ []) (merge_iter merges ?r (n - m))"
        unfolding rnd by (simp add: merge_stop_def)
    qed
    then show ?thesis unfolding n(1) rnd .
  qed
qed

lemma merge_iter_squeezed:
  assumes "squeeze c = c" and "c \<noteq> []"
    and "\<forall>i < n. \<not> merge_stop merges (merge_seen merges c i @ seen) (merge_iter merges c i)"
  shows "squeeze (merge_iter merges c n) = merge_iter merges c n \<and> merge_iter merges c n \<noteq> []"
proof (cases n)
  case 0
  then show ?thesis using assms by simp
next
  case (Suc m)
  then have "merge_live merges (merge_iter merges c m)" using assms(3) by (auto simp: merge_stop_def)
  then show ?thesis
    using Suc by (auto simp: merge_iter_Suc merge_step_def merge_live_def squeeze_empty_iff
        fields_empty_iff split: option.splits)
qed

lemma merge_loop_squeezed:
  "squeeze c = c \<Longrightarrow> c \<noteq> [] \<Longrightarrow>
     squeeze (merge_loop merges [] c) = merge_loop merges [] c \<and> merge_loop merges [] c \<noteq> []"
  using merge_loop_iter [of merges "[]" c] merge_iter_squeezed by metis

lemma apply_merge_nonempty_fix:
  "apply_channel_merge_rule fc (apply_channel_merge_rule fc t) = apply_channel_merge_rule fc t"
proof (cases "squeeze (trim_space t) = []")
  case True
  then show ?thesis by (simp add: apply_channel_merge_rule_def)
next
  case False
  let ?c = "squeeze t"
  have c: "?c \<noteq> []" "squeeze ?c = ?c" using False by simp_all
  show ?thesis
  proof (cases "fc_channel_merges fc = []")
    case True
    then show ?thesis using c by (simp add: apply_channel_merge_rule_def)
  next
    case merges: False
    let ?r = "merge_loop (fc_channel_merges fc) [] ?c"
    have "apply_channel_merge_rule fc t = ?r"
      using c merges by (simp add: apply_channel_merge_rule_def)
    moreover have "squeeze ?r = ?r" "?r \<noteq> []" using merge_loop_squeezed [OF c(2,1)] by auto
    then have "apply_channel_merge_rule fc ?r = ?r"
      using merges merge_loop_idem by (simp add: apply_channel_merge_rule_def)
    ultimately show ?thesis by simp
  qed
qed

section \<open>Facts on the URL maps\<close>

lemma dedup_acc_set: "set (dedup_acc seen xs) = set xs - set seen"
  by (induction seen xs rule: dedup_acc.induct) auto

lemma distinct_dedup_acc: "distinct (dedup_acc seen xs)"
  by (induction seen xs rule: dedup_acc.induct) (auto simp: dedup_acc_set)

lemma load_stream_urls_ok [goinv]: "urls_ok (urls_of s) \<Longrightarrow> urls_ok (urls_of (load_stream_urls files i s))"
proof -
  assume ok: "urls_ok (urls_of s)"
  have "distinct (map fst (case map_of (urls_of s) i of None \<Rightarrow> [] | Some m \<Rightarrow> m))"
    using ok by (auto split: option.splits dest: urls_ok_lookup)
  from distinct_fold_update [OF this] have "distinct (map fst (fold (\<lambda>(k, e). AList.update k e) es
      (case map_of (urls_of s) i of None \<Rightarrow> [] | Some m \<Rightarrow> m)))" for es .
  then show ?thesis
    using ok by (simp add: load_stream_urls_def Let_def urls_of_def) (auto intro!: urls_ok_update simp: urls_of_def)
qed

lemma best_source_in:
  "best_source b l us = r \<Longrightarrow> r = b \<or> (\<exists>m. (r, m) \<in> set us \<and> m \<noteq> [])"
  by (induction b l us rule: best_source.induct)
     (auto split: list.splits option.splits prod.splits if_splits, blast+)

section \<open>Only configured sources remain\<close>

definition sources_within :: "string list \<Rightarrow> stream_info \<Rightarrow> bool" where
  "sources_within configured s =
     (set (map fst (urls_of s)) \<subseteq> set configured \<and>
      (si_source_m3u s = [] \<or> si_source_m3u s \<in> set configured) \<and>
      (case si_epg_meta s of None \<Rightarrow> True | Some m \<Rightarrow> set (map fst m) \<subseteq> set configured))"

lemma prune_sources_within:
  assumes "si_urls s \<noteq> None"
  shows "sources_within configured (prune_stream_to_configured_sources configured s)"
proof -
  obtain us where us: "si_urls s = Some us" using assms by auto
  define us' where "us' = filter (\<lambda>(i, m). i \<in> set configured) us"
  have sub: "set (map fst us') \<subseteq> set configured" by (auto simp: us'_def)
  have best: "best_source [] 0 us' \<noteq> [] \<Longrightarrow> best_source [] 0 us' \<in> set configured"
    using best_source_in [of "[]" 0 us'] sub by force
  define s3 where "s3 =
     (let s1 = s\<lparr>si_urls := Some us'\<rparr>;
          s2 = (case si_epg_meta s1 of
                  None \<Rightarrow> s1
                | Some m \<Rightarrow>
                    let m' = filter (\<lambda>(i, t). i \<in> set configured) m
                    in s1\<lparr>si_epg_meta := (if m' = [] then None else Some m')\<rparr>)
      in if si_source_m3u s2 \<noteq> [] \<and> si_source_m3u s2 \<notin> set configured
         then s2\<lparr>si_source_m3u := [], si_source_index := 0, si_source_url := []\<rparr>
         else s2)"
  have u3: "urls_of s3 = us'"
    by (simp add: s3_def Let_def urls_of_def split: option.splits)
  have w3: "sources_within configured s3"
    using sub unfolding sources_within_def u3
    by (auto simp: s3_def Let_def split: option.splits)
  have eq: "prune_stream_to_configured_sources configured s =
      (if urls_of s3 = [] then s3
       else if si_source_m3u s3 = [] then
         (let best = best_source [] 0 (urls_of s3) in
          if best \<noteq> [] then
            (let s4 = s3\<lparr>si_source_m3u := best\<rparr>; (u, n) = primary_source_url s4 best
             in s4\<lparr>si_source_url := u, si_source_index := n\<rparr>)
          else s3)
       else s3)"
    unfolding prune_stream_to_configured_sources_def us option.simps us'_def [symmetric] s3_def Let_def ..
  show ?thesis
    unfolding eq u3
    using w3 best by (auto simp: sources_within_def u3 urls_of_def Let_def split: prod.splits option.splits)
qed

lemma trim_in_configured:
  "sources_within configured s \<Longrightarrow> trim_space (si_source_m3u s) \<noteq> [] \<Longrightarrow>
     (\<forall>i \<in> set configured. trim_space i = i) \<Longrightarrow> trim_space (si_source_m3u s) \<in> set configured"
  by (auto simp: sources_within_def)

lemma fallback_sources_within:
  assumes "sources_within configured s" and "\<forall>i \<in> set configured. trim_space i = i"
  shows "sources_within configured (restore_stream_fallback_url s)"
proof (cases "has_valid_stream_urls s \<or> trim_space (si_source_m3u s) = [] \<or> trim_space (si_source_url s) = []")
  case True
  then show ?thesis using assms by (auto simp: restore_stream_fallback_url_def Let_def)
next
  case False
  then have "trim_space (si_source_m3u s) \<in> set configured"
    using trim_in_configured [OF assms(1)] assms(2) by blast
  then have "set (map fst (AList.update (trim_space (si_source_m3u s)) m (urls_of s))) \<subseteq> set configured" for m
    using assms(1) unfolding set_AList_update_keys by (simp add: sources_within_def)
  then show ?thesis
    using False assms(1) by (simp add: restore_stream_fallback_url_def Let_def sources_within_def urls_of_def)
qed

lemma load_keeps_urls: "si_urls s \<noteq> None \<Longrightarrow> si_urls (fold (load_stream_urls files) is s) \<noteq> None"
proof (induction "is" arbitrary: s)
  case Nil
  then show ?case by simp
next
  case (Cons i "is")
  have "si_urls (load_stream_urls files i s) \<noteq> None"
    using Cons.prems by (simp add: load_stream_urls_def Let_def)
  then show ?case using Cons.IH by simp
qed

lemma restore_compile_within:
  assumes "\<forall>i \<in> set (get_m3u_indexes us). trim_space i = i"
  shows "sources_within (get_m3u_indexes us) (restore_compile_stream_urls us files s)"
proof -
  define s' where "s' = (case si_urls s of None \<Rightarrow> s\<lparr>si_urls := Some []\<rparr> | Some _ \<Rightarrow> s)"
  have "si_urls s' \<noteq> None" by (simp add: s'_def split: option.splits)
  then show ?thesis
    using assms load_keeps_urls [of s' files "get_m3u_indexes us"]
    unfolding restore_compile_stream_urls_def s'_def [symmetric] Let_def
    by (auto intro!: fallback_sources_within prune_sources_within)
qed

section \<open>The order of the filters\<close>

text \<open>A channel that rules pin to sources passes only from one of them; then includes win over
  excludes, and a channel that nothing matches passes when there are no includes.\<close>

lemma match_rules_iff:
  "match_rules rs hit t src \<longleftrightarrow>
     (\<exists>r \<in> set rs. csr_title_regex r t \<and> src \<in> set (csr_source_indexes r)) \<or>
     (\<not> hit \<and> (\<forall>r \<in> set rs. \<not> csr_title_regex r t))"
  by (induction rs hit t src rule: match_rules.induct) auto

lemma check_filter_iff:
  "check_filter fc s \<longleftrightarrow>
     ((\<exists>r \<in> set (fc_channel_rules fc). csr_title_regex r (si_title s) \<and> si_source_m3u s \<in> set (csr_source_indexes r)) \<or>
      (\<forall>r \<in> set (fc_channel_rules fc). \<not> csr_title_regex r (si_title s))) \<and>
     ((\<exists>re \<in> set (fc_include_groups fc). re (si_group s)) \<or> (\<exists>re \<in> set (fc_include_titles fc). re (si_title s)) \<or>
      (fc_include_groups fc = [] \<and> fc_include_titles fc = [] \<and>
       \<not> (\<exists>re \<in> set (fc_exclude_groups fc). re (si_group s)) \<and>
       \<not> (\<exists>re \<in> set (fc_exclude_titles fc). re (si_title s))))"
  by (auto simp: check_filter_def match_channel_source_rule_def match_rules_iff all_filters_empty_def
      match_any_def list_ex_iff)

end
