(* ===== verification/Slugs.thy ===== *)
theory Slugs
  imports ChannelFilter
begin

text \<open>
  The slugs that stand for channels in stream URLs, sourceproc/slug.go, and their
  publication, \<open>applyNewRemoteFiles\<close> with \<open>clearDirFiles\<close> and \<open>copyDirContents\<close> of
  sourceproc/processor.go. A slug directory is a map from file names to contents, None
  when it does not exist; the content of a file is the entry its JSON text stands for, None
  when the text does not parse. Operations on files succeed whenever their file exists.
\<close>

type_synonym slug_dir = "(string \<times> stream_info option) list option"

datatype slug_error = SlugNotFound | SlugCorrupt

definition slug_input_key :: "stream_info \<Rightarrow> string" where
  "slug_input_key s =
     (if si_sub_channel s \<noteq> [] then si_title s @ [CHR 0x00] @ si_sub_channel s else si_title s)"

definition slug_of :: "go_lib \<Rightarrow> stream_info \<Rightarrow> string" where
  "slug_of lib s = raw_url_encode (lib_sha3 lib (slug_input_key s))"

definition store_slug_mapping :: "string \<Rightarrow> stream_info \<Rightarrow> slug_dir \<Rightarrow> slug_dir" where
  "store_slug_mapping slug s dir =
     Some (AList.update slug (Some (json_stream s)) (case dir of None \<Rightarrow> [] | Some fs \<Rightarrow> fs))"

text \<open>\<open>EncodeSlug\<close>: the slug, and the directory new-slugs with the mapping stored.\<close>

definition encode_slug :: "go_lib \<Rightarrow> stream_info \<Rightarrow> slug_dir \<Rightarrow> string \<times> slug_dir" where
  "encode_slug lib s new = (slug_of lib s, store_slug_mapping (slug_of lib s) s new)"

definition read_slug :: "slug_dir \<Rightarrow> string \<Rightarrow> stream_info option option" where
  "read_slug dir slug = Option.bind dir (\<lambda>fs. map_of fs slug)"

definition decode_slug :: "slug_dir \<Rightarrow> slug_dir \<Rightarrow> string \<Rightarrow> slug_error + stream_info" where
  "decode_slug cur new slug =
     (case (case read_slug cur slug of Some c \<Rightarrow> Some c | None \<Rightarrow> read_slug new slug) of
        None \<Rightarrow> Inl SlugNotFound
      | Some None \<Rightarrow> Inl SlugCorrupt
      | Some (Some s) \<Rightarrow> Inr s)"

definition clear_dir_files :: "slug_dir \<Rightarrow> slug_dir" where
  "clear_dir_files dir = (case dir of None \<Rightarrow> None | Some _ \<Rightarrow> Some [])"

text \<open>\<open>copyDirContents\<close>; the source directory may be missing, an error the caller logs.\<close>

definition copy_dir_contents :: "slug_dir \<Rightarrow> slug_dir \<Rightarrow> slug_dir" where
  "copy_dir_contents src dst =
     (case src of
        None \<Rightarrow> dst
      | Some fs \<Rightarrow> Some (fold (\<lambda>(k, v). AList.update k v) fs (case dst of None \<Rightarrow> [] | Some d \<Rightarrow> d)))"

text \<open>The slug part of \<open>applyNewRemoteFiles\<close>: (slugs, new-slugs) before and after.\<close>

definition publish_slugs :: "slug_dir \<times> slug_dir \<Rightarrow> slug_dir \<times> slug_dir" where
  "publish_slugs d =
     (let cur = (case fst d of None \<Rightarrow> Some [] | Some fs \<Rightarrow> Some fs)
      in (copy_dir_contents (snd d) (clear_dir_files cur), None))"

text \<open>\<open>ParseStreamInfoBySlug\<close>. The goroutines of the sources each extend the entry of their
  own source, so they are run here one after the other.\<close>

definition parse_stream_info_by_slug ::
  "utils_state \<Rightarrow> stream_files \<Rightarrow> slug_dir \<Rightarrow> slug_dir \<Rightarrow> string \<Rightarrow> slug_error + stream_info" where
  "parse_stream_info_by_slug us files cur new slug =
     (case decode_slug cur new slug of
        Inl e \<Rightarrow> Inl e
      | Inr info \<Rightarrow>
          Inr (restore_stream_fallback_url
                 (fold (load_stream_urls files) (get_m3u_indexes us) (info\<lparr>si_urls := Some []\<rparr>))))"

section \<open>A published slug leads back to its channel\<close>

definition encode_slugs :: "go_lib \<Rightarrow> stream_info list \<Rightarrow> slug_dir \<Rightarrow> slug_dir" where
  "encode_slugs lib ss new = fold (\<lambda>s d. snd (encode_slug lib s d)) ss new"

definition slug_dir_ok :: "slug_dir \<Rightarrow> bool" where
  "slug_dir_ok d = (case d of None \<Rightarrow> True | Some fs \<Rightarrow> distinct (map fst fs))"

lemma store_slug_mapping_ok [goinv]: "slug_dir_ok d \<Longrightarrow> slug_dir_ok (store_slug_mapping i s d)"
  by (auto simp: slug_dir_ok_def store_slug_mapping_def distinct_update split: option.splits)

lemma encode_slugs_ok [goinv]: "slug_dir_ok d \<Longrightarrow> slug_dir_ok (encode_slugs lib ss d)"
  unfolding encode_slugs_def
  by (induction ss arbitrary: d) (simp_all add: encode_slug_def store_slug_mapping_ok)

lemma read_store [simp]:
  "read_slug (store_slug_mapping i s d) j = (if j = i then Some (Some (json_stream s)) else read_slug d j)"
  by (auto simp: read_slug_def store_slug_mapping_def update_conv' split: option.splits)

lemma read_encode_slugs:
  "read_slug (encode_slugs lib ss d) j =
     (case find (\<lambda>s. slug_of lib s = j) (rev ss) of
        Some s \<Rightarrow> Some (Some (json_stream s)) | None \<Rightarrow> read_slug d j)"
proof (induction ss arbitrary: d)
  case Nil
  then show ?case by (simp add: encode_slugs_def)
next
  case (Cons s ss)
  have app: "find P (xs @ [x]) = (case find P xs of Some y \<Rightarrow> Some y | None \<Rightarrow> if P x then Some x else None)"
    for P and x :: stream_info and xs by (induction xs) auto
  have "encode_slugs lib (s # ss) d = encode_slugs lib ss (store_slug_mapping (slug_of lib s) s d)"
    by (simp add: encode_slugs_def encode_slug_def)
  then show ?case by (auto simp: Cons.IH app split: option.splits)
qed

lemma read_publish:
  "slug_dir_ok new \<Longrightarrow> read_slug (fst (publish_slugs (cur, new))) j = read_slug new j"
  by (auto simp: publish_slugs_def copy_dir_contents_def clear_dir_files_def read_slug_def
      slug_dir_ok_def map_of_fold_update map_of_rev_distinct split: option.splits)

lemma snd_publish [simp]: "snd (publish_slugs d) = None"
  by (simp add: publish_slugs_def Let_def)

lemma publish_decode:
  assumes "slug_dir_ok new"
  shows "decode_slug (fst (publish_slugs (cur, new))) (snd (publish_slugs (cur, new))) j =
    (case read_slug new j of None \<Rightarrow> Inl SlugNotFound | Some None \<Rightarrow> Inl SlugCorrupt | Some (Some s) \<Rightarrow> Inr s)"
  using read_publish [OF assms, of cur j]
  by (simp add: decode_slug_def) (simp add: read_slug_def split: option.splits)

lemma publish_roundtrip:
  assumes "s \<in> set ss" and "\<forall>t \<in> set ss. slug_of lib t = slug_of lib s \<longrightarrow> t = s" and "slug_dir_ok new"
  shows "decode_slug (fst (publish_slugs (cur, encode_slugs lib ss new)))
    (snd (publish_slugs (cur, encode_slugs lib ss new))) (slug_of lib s) = Inr (json_stream s)"
proof -
  obtain t where t: "find (\<lambda>t. slug_of lib t = slug_of lib s) (rev ss) = Some t"
    using assms(1) by (cases "find (\<lambda>t. slug_of lib t = slug_of lib s) (rev ss)") (auto simp: find_None_iff)
  then have "t \<in> set ss" "slug_of lib t = slug_of lib s" by (auto simp: find_Some_iff) (metis nth_mem set_rev length_rev)
  then have "t = s" using assms(2) by blast
  then show ?thesis
    using t publish_decode [OF encode_slugs_ok [OF assms(3)], of cur lib ss "slug_of lib s"]
    by (simp add: read_encode_slugs)
qed

end
