(* ===== verification/GoUrl.thy ===== *)
theory GoUrl
  imports Streams
begin

text \<open>
  The parts of Go's packages net/url and path that the program uses beyond the parser
  itself: query strings, host names, extensions of paths, and the replacement of several
  patterns at once (\<open>strings.NewReplacer\<close>). Also utils/stream_url.go and the check of local
  paths in utils/file_url.go.
\<close>

section \<open>Parsing and resolution\<close>

text \<open>The operations of net/url: \<open>Parse\<close> (None is its error), \<open>IsAbs\<close>, \<open>ResolveReference\<close>,
  \<open>String\<close>.\<close>

record 'u url_ops =
  uo_parse :: "string \<Rightarrow> 'u option"
  uo_is_abs :: "'u \<Rightarrow> bool"
  uo_resolve :: "'u \<Rightarrow> 'u \<Rightarrow> 'u"
  uo_string :: "'u \<Rightarrow> string"

text \<open>The URL of a line of a playlist, absolute or relative to that of the playlist; None if it
  does not parse.\<close>

definition line_url :: "'u url_ops \<Rightarrow> 'u \<Rightarrow> string \<Rightarrow> string option" where
  "line_url uo base line =
     map_option (\<lambda>u. uo_string uo (if uo_is_abs uo u then u else uo_resolve uo base u)) (uo_parse uo line)"

section \<open>Several replacements at once\<close>

text \<open>At each position the first pattern that fits is replaced; the patterns are not empty.\<close>

function replace_pairs :: "(string \<times> string) list \<Rightarrow> string \<Rightarrow> string" where
  "replace_pairs ps [] = []"
| "replace_pairs ps (c # s) =
     (case find (\<lambda>p. fst p \<noteq> [] \<and> has_prefix (c # s) (fst p)) ps of
        None \<Rightarrow> c # replace_pairs ps s
      | Some p \<Rightarrow> snd p @ replace_pairs ps (drop (length (fst p)) (c # s)))"
  by pat_completeness auto
termination
  by (relation "measure (length \<circ> snd)") (auto simp: find_Some_iff split: if_splits)

section \<open>Paths\<close>

definition path_ext :: "string \<Rightarrow> string" where
  "path_ext p =
     (let r = rev p; e = takeWhile (\<lambda>c. c \<noteq> CHR ''.'' \<and> c \<noteq> CHR ''/'') r in
      (case dropWhile (\<lambda>c. c \<noteq> CHR ''.'' \<and> c \<noteq> CHR ''/'') r of
         [] \<Rightarrow> []
       | c # _ \<Rightarrow> if c = CHR ''.'' then CHR ''.'' # rev e else []))"

section \<open>Query strings and host names\<close>

definition hex_val :: "char \<Rightarrow> nat option" where
  "hex_val c =
     (let n = (of_char c :: nat) in
      if 48 \<le> n \<and> n \<le> 57 then Some (n - 48)
      else if 97 \<le> n \<and> n \<le> 102 then Some (n - 87)
      else if 65 \<le> n \<and> n \<le> 70 then Some (n - 55) else None)"

fun query_unescape :: "string \<Rightarrow> string option" where
  "query_unescape [] = Some []"
| "query_unescape (c # s) =
     (if c = CHR ''%'' then
        (case s of
           a # b # r \<Rightarrow>
             (case (hex_val a, hex_val b) of
                (Some x, Some y) \<Rightarrow> map_option (\<lambda>t. char_of (16 * x + y) # t) (query_unescape r)
              | _ \<Rightarrow> None)
         | _ \<Rightarrow> None)
      else map_option (\<lambda>t. (if c = CHR ''+'' then CHR '' '' else c) # t) (query_unescape s))"

definition cut_pair :: "string \<Rightarrow> string \<times> string" where
  "cut_pair s = (case cut_str s ''='' of None \<Rightarrow> (s, []) | Some p \<Rightarrow> p)"

text \<open>\<open>URL.Query\<close>, malformed pairs dropped, as the list of pairs in their order.\<close>

definition parse_query :: "string \<Rightarrow> (string \<times> string) list" where
  "parse_query q =
     List.map_filter (\<lambda>seg.
       if seg = [] \<or> CHR '';'' \<in> set seg then None
       else (case (query_unescape (fst (cut_pair seg)), query_unescape (snd (cut_pair seg))) of
               (Some k, Some v) \<Rightarrow> Some (k, v) | _ \<Rightarrow> None))
     (split_char (CHR ''&'') q)"

definition query_get :: "string \<Rightarrow> string \<Rightarrow> string" where
  "query_get q k = (case map_of (parse_query q) k of None \<Rightarrow> [] | Some v \<Rightarrow> v)"

definition last_index_char :: "char \<Rightarrow> string \<Rightarrow> nat option" where
  "last_index_char c s =
     (if c \<in> set s then Some (length s - 1 - length (takeWhile (\<lambda>x. x \<noteq> c) (rev s))) else None)"

definition hostname_of :: "string \<Rightarrow> string" where
  "hostname_of hp =
     (let h = (case last_index_char (CHR '':'') hp of
                 None \<Rightarrow> hp
               | Some i \<Rightarrow> if list_all is_digit (drop (Suc i) hp) then take i hp else hp)
      in if has_prefix h ''['' \<and> has_suffix h '']'' then drop 1 (butlast h) else h)"

section \<open>utils/stream_url.go and utils/file_url.go\<close>

definition get_file_extension_from_url :: "url_parser \<Rightarrow> string \<Rightarrow> string option" where
  "get_file_extension_from_url parse raw = map_option (\<lambda>u. path_ext (u_path u)) (parse raw)"

definition get_sub_path_from_url :: "url_parser \<Rightarrow> string \<Rightarrow> string option" where
  "get_sub_path_from_url parse raw =
     (case parse raw of
        None \<Rightarrow> None
      | Some u \<Rightarrow>
          let segs = split_char (CHR ''/'') (u_path u) in
          if length segs \<le> 1 then Some ''stream''
          else Some (join_str ''/'' (butlast (drop 1 segs))))"

definition backslash :: string where "backslash = [CHR 0x5C]"

text \<open>\<open>FileURLToPath\<close>; \<open>windows\<close> is the test of \<open>runtime.GOOS\<close>. None is the error result.\<close>

definition from_slash :: "bool \<Rightarrow> string \<Rightarrow> string" where
  "from_slash windows p = (if windows then replace_char (CHR ''/'') backslash p else p)"

definition raw_file_path :: "bool \<Rightarrow> string \<Rightarrow> string" where
  "raw_file_path windows raw =
     (let p = trim_prefix raw ''file://'' in
      if \<not> windows then p
      else
        let two = backslash @ backslash; q = replace_char (CHR ''/'') two p in
        if has_prefix q two \<and> length q \<ge> 3 \<and> q ! 2 = CHR '':'' then trim_prefix q two else q)"

definition file_url_to_path :: "bool \<Rightarrow> url_parser \<Rightarrow> string \<Rightarrow> string option" where
  "file_url_to_path windows parse raw =
     (if raw = [] then None
      else if \<not> has_prefix raw ''file://'' then None
      else
        let raw_path = raw_file_path windows raw in
        (case parse raw of
           None \<Rightarrow> Some raw_path
         | Some u \<Rightarrow>
             if u_scheme u \<noteq> ''file'' then Some raw_path
             else
               let remote = (u_host u \<noteq> [] \<and> \<not> equal_fold (u_host u) ''localhost'');
                   p = from_slash windows (u_path u);
                   value =
                     (if windows then
                        (if remote then
                           (if length (u_host u) = 2 \<and> u_host u ! 1 = CHR '':'' then u_host u @ p
                            else backslash @ backslash @ u_host u @ p)
                         else if has_prefix p backslash \<and> length p \<ge> 3 \<and> p ! 2 = CHR '':''
                         then trim_prefix p backslash else p)
                      else if remote then ''//'' @ u_host u @ p else p)
               in if value = [] then Some raw_path else Some value))"

lemma file_url_to_path_None: "file_url_to_path w parse raw = None \<longleftrightarrow> \<not> has_prefix raw ''file://''"
proof -
  have "has_prefix raw ''file://'' \<Longrightarrow> raw \<noteq> []" by (cases raw) auto
  then show ?thesis
    by (auto simp: file_url_to_path_def Let_def split: option.splits)
qed

end
