(* ===== verification/HttpMedia.thy ===== *)
theory HttpMedia
  imports GoUrl
begin

text \<open>
  What the program decides from bytes and headers: whether a body is an M3U playlist
  (utils/m3u.go), whether a response is a playlist or media (utils/url.go), when it
  decompresses (utils/http_decode.go), which headers a request carries on, where names are
  resolved and what the base URL is (utils/http.go).
\<close>

section \<open>utils/m3u.go\<close>

definition bom :: string where "bom = [CHR 0xEF, CHR 0xBB, CHR 0xBF]"

function trim_left_bom :: "string \<Rightarrow> string" where
  "trim_left_bom s =
     (if has_prefix s bom then trim_left_bom (drop 3 s)
      else (case s of
              [] \<Rightarrow> []
            | c # r \<Rightarrow> if c \<in> set ([CHR 0x0D, CHR 0x0A, CHR 0x09] @ '' '') then trim_left_bom r else s))"
  by pat_completeness auto
termination
proof (relation "measure length")
  fix s :: string
  assume "has_prefix s bom"
  then have "s \<noteq> []" by (cases s) (auto simp: bom_def)
  then show "(drop 3 s, s) \<in> measure length" by simp
qed auto

declare trim_left_bom.simps [simp del]

text \<open>UTF-16 to UTF-8: the pairing of surrogates and the encoding of one rune.\<close>

fun utf16_units :: "bool \<Rightarrow> string \<Rightarrow> nat list" where
  "utf16_units le (a # b # r) =
     (if le then of_char a + 256 * of_char b else 256 * of_char a + of_char b) # utf16_units le r"
| "utf16_units le _ = []"

fun utf16_decode :: "nat list \<Rightarrow> nat list" where
  "utf16_decode [] = []"
| "utf16_decode [u] = [if 0xD800 \<le> u \<and> u < 0xE000 then 0xFFFD else u]"
| "utf16_decode (u # v # r) =
     (if 0xD800 \<le> u \<and> u < 0xDC00 \<and> 0xDC00 \<le> v \<and> v < 0xE000
      then (0x10000 + (u - 0xD800) * 0x400 + (v - 0xDC00)) # utf16_decode r
      else (if 0xD800 \<le> u \<and> u < 0xE000 then 0xFFFD else u) # utf16_decode (v # r))"

definition utf8_rune :: "nat \<Rightarrow> string" where
  "utf8_rune n =
     (if n < 0x80 then [char_of n]
      else if n < 0x800 then [char_of (0xC0 + n div 64), char_of (0x80 + n mod 64)]
      else if n < 0x10000
      then [char_of (0xE0 + n div 4096), char_of (0x80 + n div 64 mod 64), char_of (0x80 + n mod 64)]
      else [char_of (0xF0 + n div 262144), char_of (0x80 + n div 4096 mod 64),
            char_of (0x80 + n div 64 mod 64), char_of (0x80 + n mod 64)])"

definition decode_utf16 :: "bool \<Rightarrow> string \<Rightarrow> string" where
  "decode_utf16 le body = concat (map utf8_rune (utf16_decode (utf16_units le body)))"

definition normalize_m3u_body :: "string \<Rightarrow> string" where
  "normalize_m3u_body body =
     (let t = trim_left_bom body in
      if t = [] then []
      else if has_prefix t [CHR 0xFF, CHR 0xFE] then decode_utf16 True (drop 2 t)
      else if has_prefix t [CHR 0xFE, CHR 0xFF] then decode_utf16 False (drop 2 t)
      else t)"

definition is_m3u_content :: "string \<Rightarrow> bool" where
  "is_m3u_content body =
     (let n = normalize_m3u_body body; up = to_upper n in
      if n = [] then False
      else
        (case (case index_of up ''#EXTM3U'' of Some i \<Rightarrow> Some i | None \<Rightarrow> index_of up ''#EXTINF:'') of
           None \<Rightarrow> False
         | Some marker \<Rightarrow>
             let pre = take marker up in
             if contains_str pre ''<HTML'' \<or> contains_str pre ''<!DOCTYPE HTML'' \<or>
                contains_str pre ''<BODY'' \<or> contains_str pre ''<HEAD'' then False
             else has_prefix up ''#EXTM3U'' \<or> contains_str up ''#EXTINF:''))"

section \<open>Responses\<close>

text \<open>A response as the code sees it: status, header (canonical names, in order), the path of
  the URL of the request when it is known, and the body.\<close>

record http_response =
  hr_status :: int
  hr_header :: "(string \<times> string) list"
  hr_path :: "string option"
  hr_body :: string

definition header_get :: "(string \<times> string) list \<Rightarrow> string \<Rightarrow> string" where
  "header_get h k = (case map_of h k of None \<Rightarrow> [] | Some v \<Rightarrow> v)"

definition content_type :: "http_response \<Rightarrow> string" where
  "content_type r = to_lower (header_get (hr_header r) ''Content-Type'')"

definition is_an_m3u8_media :: "http_response \<Rightarrow> bool" where
  "is_an_m3u8_media r =
     (if list_ex (has_prefix (content_type r))
           [''application/x-mpegurl'', ''text/plain'', ''audio/x-mpegurl'', ''audio/mpegurl'',
            ''application/vnd.apple.mpegurl''] then True
      else (case hr_path r of
              None \<Rightarrow> False | Some p \<Rightarrow> to_lower (path_ext p) \<in> set [''.m3u'', ''.m3u8'']))"

definition is_probably_media :: "http_response \<Rightarrow> bool" where
  "is_probably_media r =
     (if has_prefix (content_type r) ''video/'' \<or> has_prefix (content_type r) ''audio/'' then True
      else if contains_str (content_type r) ''application/octet-stream'' then True
      else (case hr_path r of
              None \<Rightarrow> False
            | Some p \<Rightarrow> to_lower (path_ext p) \<in> set [''.ts'', ''.mp4'', ''.m4s'', ''.aac'']))"

text \<open>\<open>hasM3U8Signature\<close>: \<open>n\<close> is the number of bytes that the first read delivers (at most
  4096, at least one unless the body is empty); the result holds the body as it is left.\<close>

definition sniffed :: "string \<Rightarrow> string" where
  "sniffed d = trim_prefix (trim_left_by (\<lambda>c. c \<in> set ('' '' @ [CHR 0x09, CHR 0x0D, CHR 0x0A])) d) bom"

definition has_m3u8_signature :: "nat \<Rightarrow> http_response \<Rightarrow> bool \<times> http_response" where
  "has_m3u8_signature n r =
     (if hr_body r = [] then (False, r)
      else
        let k = min 4096 (max 1 (min n (length (hr_body r)))); d = sniffed (take k (hr_body r));
            up = to_upper d
        in (contains_str up ''#EXTM3U'' \<or> contains_str up ''#EXTINF:'' \<or>
            contains_str up ''#EXT-X-STREAM-INF'',
            r\<lparr>hr_body := d @ drop k (hr_body r)\<rparr>))"

definition is_probably_m3u8 :: "nat \<Rightarrow> http_response \<Rightarrow> bool \<times> http_response" where
  "is_probably_m3u8 n r = (if is_an_m3u8_media r then (True, r) else has_m3u8_signature n r)"

text \<open>\<open>MaybeDecompressResponseBody\<close>; \<open>gunzip\<close> is the decompressor, None for an error of its
  header.\<close>

definition maybe_decompress_response_body ::
  "(string \<Rightarrow> string option) \<Rightarrow> http_response \<Rightarrow> http_response option" where
  "maybe_decompress_response_body gunzip r =
     (let e = to_lower (trim_space (header_get (hr_header r) ''Content-Encoding'')) in
      if e = [] \<or> e = ''identity'' then Some r
      else if \<not> contains_str e ''gzip'' then Some r
      else (case gunzip (hr_body r) of
              None \<Rightarrow> None
            | Some b \<Rightarrow>
                Some (r\<lparr>hr_body := b,
                  hr_header := filter (\<lambda>kv. fst kv \<notin> set [''Content-Encoding'', ''Content-Length''])
                                 (hr_header r)\<rparr>)))"

section \<open>utils/http.go\<close>

definition hop_by_hop_request_headers :: "string list" where
  "hop_by_hop_request_headers =
     [''Connection'', ''Keep-Alive'', ''Proxy-Authenticate'', ''Proxy-Authorization'',
      ''Proxy-Connection'', ''Te'', ''Trailer'', ''Transfer-Encoding'', ''Upgrade'', ''Host'',
      ''Content-Length'']"

definition internal_only_request_headers :: "string list" where
  "internal_only_request_headers = [''Accept-Encoding'', ''If-Range'', ''Range'']"

definition should_skip_request_header :: "string \<Rightarrow> bool \<Rightarrow> bool" where
  "should_skip_request_header h internal =
     (if h \<in> set hop_by_hop_request_headers then True
      else if \<not> internal then False
      else h \<in> set internal_only_request_headers)"

text \<open>The header of the request that \<open>customHttpRequest\<close> sends. Headers have canonical names;
  \<open>Add\<close> appends a value, \<open>Set\<close> writes the only one.\<close>

definition custom_request_header :: "environ \<Rightarrow> (string \<times> string) list \<Rightarrow> bool \<Rightarrow> (string \<times> string) list" where
  "custom_request_header env orig internal =
     (let kept = filter (\<lambda>kv. \<not> should_skip_request_header (fst kv) internal) orig;
          h1 = (if ''User-Agent'' \<in> set (map fst kept) then kept
                else kept @ [(''User-Agent'', get_env env ''USER_AGENT'')])
      in if ''Accept'' \<in> set (map fst kept) then h1
         else h1 @ [(''Accept'', get_env env ''HTTP_ACCEPT'')])"

datatype dial_error = DnsError bool bool string | OtherDialError string

definition should_try_dns_fallback :: "dial_error \<Rightarrow> bool" where
  "should_try_dns_fallback e =
     (case e of
        DnsError temp timeout msg \<Rightarrow> temp \<or> timeout \<or> trim_space msg \<noteq> []
      | OtherDialError msg \<Rightarrow>
          list_ex (contains_str (to_lower msg))
            [''lookup'', ''getaddrinfo'', ''getaddrinfow'', ''temporary'', ''no such host''])"

text \<open>\<open>dialContextWithResolver\<close>: \<open>dial\<close> connects to an address, \<open>resolve\<close> looks a host up, \<open>split\<close>
  and \<open>join\<close> are \<open>net.SplitHostPort\<close> and \<open>JoinHostPort\<close>.\<close>

fun dial_each :: "(string \<Rightarrow> dial_error + 'c) \<Rightarrow> string list \<Rightarrow> dial_error \<Rightarrow> dial_error + 'c" where
  "dial_each dial [] err = Inl err"
| "dial_each dial (a # as) err = (case dial a of Inr c \<Rightarrow> Inr c | Inl e \<Rightarrow> dial_each dial as e)"

definition dial_context_with_resolver ::
  "(string \<Rightarrow> dial_error + 'c) \<Rightarrow> (string \<Rightarrow> string list option) \<Rightarrow>
   (string \<Rightarrow> (string \<times> string) option) \<Rightarrow> (string \<Rightarrow> string \<Rightarrow> string) \<Rightarrow> string \<Rightarrow> dial_error + 'c" where
  "dial_context_with_resolver dial resolve split join addr =
     (case dial addr of
        Inr c \<Rightarrow> Inr c
      | Inl err \<Rightarrow>
          (case split addr of
             None \<Rightarrow> Inl err
           | Some (host, port) \<Rightarrow>
               if \<not> should_try_dns_fallback err then Inl err
               else (case resolve host of
                       None \<Rightarrow> Inl err
                     | Some ips \<Rightarrow> if ips = [] then Inl err
                                   else dial_each dial (map (\<lambda>ip. join ip port) ips) err)))"

definition get_fallback_dns_servers :: "environ \<Rightarrow> string list" where
  "get_fallback_dns_servers env =
     (let raw = trim_space (os_getenv env ''FALLBACK_DNS_SERVERS'');
          defaults = [''1.1.1.1:53'', ''8.8.8.8:53'']
      in if raw = [] then defaults
         else
           let servers = map (\<lambda>s. if contains_str s '':'' then s else s @ '':53'')
                 (filter (\<lambda>s. s \<noteq> []) (map trim_space (split_char (CHR '','') raw)))
           in if servers = [] then defaults else servers)"

text \<open>\<open>DetermineBaseURL\<close>, for the request's (uses TLS, host) when there is one.\<close>

definition determine_base_url :: "environ \<Rightarrow> (bool \<times> string) option \<Rightarrow> string" where
  "determine_base_url env r =
     (case lookup_env env ''BASE_URL'' of
        Some b \<Rightarrow> trim_suffix b ''/''
      | None \<Rightarrow>
          (case r of
             None \<Rightarrow> []
           | Some (tls, host) \<Rightarrow> (if tls then ''https://'' else ''http://'') @ host))"

section \<open>Facts\<close>

lemma custom_request_header_agent:
  "''User-Agent'' \<in> set (map fst (custom_request_header env orig internal))"
  "''Accept'' \<in> set (map fst (custom_request_header env orig internal))"
  by (auto simp: custom_request_header_def Let_def)

lemma agent_not_skipped:
  "\<not> should_skip_request_header ''User-Agent'' internal" "\<not> should_skip_request_header ''Accept'' internal"
  by (simp_all add: should_skip_request_header_def hop_by_hop_request_headers_def
      internal_only_request_headers_def)

lemma custom_request_header_skips:
  "kv \<in> set (custom_request_header env orig internal) \<Longrightarrow> \<not> should_skip_request_header (fst kv) internal"
  using agent_not_skipped [of internal]
  by (cases kv) (auto simp: custom_request_header_def Let_def split: if_splits)

lemma fallback_servers_nonempty: "get_fallback_dns_servers env \<noteq> []"
  by (auto simp: get_fallback_dns_servers_def Let_def)

text \<open>The sniffing of a body that starts with white space loses those bytes.\<close>

lemma signature_keeps_body:
  assumes "hr_body r \<noteq> []" and "\<not> is_space (hd (hr_body r))" and "hd (hr_body r) \<noteq> CHR 0xEF"
  shows "hr_body (snd (has_m3u8_signature n r)) = hr_body r"
proof -
  obtain c b where b: "hr_body r = c # b" using assms(1) by (cases "hr_body r") auto
  have "\<exists>t. take k (c # b) = c # t" if "0 < k" for k using that by (cases k) auto
  moreover have "sniffed (c # t) = c # t" for t
  proof -
    have "c \<notin> set ('' '' @ [CHR 0x09, CHR 0x0D, CHR 0x0A])"
      using assms(2) b by (auto simp: is_space_def)
    then have "trim_left_by (\<lambda>c. c \<in> set ('' '' @ [CHR 0x09, CHR 0x0D, CHR 0x0A])) (c # t) = c # t"
      by (simp add: trim_left_by_def)
    moreover have "\<not> has_prefix (c # t) bom" using assms(3) b by (simp add: bom_def)
    ultimately show ?thesis by (simp add: sniffed_def trim_prefix_def)
  qed
  moreover define k where "k = min 4096 (max 1 (min n (length (c # b))))"
  moreover have "0 < k" by (simp add: k_def)
  ultimately have "sniffed (take k (c # b)) = take k (c # b)" by metis
  then show ?thesis by (simp add: has_m3u8_signature_def b Let_def k_def)
qed

end
