(* ===== verification/LoadBalancer.thy ===== *)
theory LoadBalancer
  imports Slugs HttpMedia Concurrency Complex_Main
begin

text \<open>
  The choice of an upstream for a channel, proxy/loadbalancer: instance.go, context.go,
  helpers.go. The state kept between calls is the list of tested candidates per stream
  (\<open>testedIndexes\<close>). What the network, the clock and the other connections do is the record
  \<open>lb_world\<close>, indexed by the lap and, within a lap, by the round or the attempt. The probes
  of one source run concurrently; \<open>lw_arrival\<close> is the order in which their results come in.
  A health is a rational number (the code's float64).
\<close>

section \<open>Indexes\<close>

text \<open>\<open>lessSourceIndex\<close> of this package is the order of \<open>utils\<close>, unlike that of sourceproc.\<close>

definition lb_less_source_index :: "string \<Rightarrow> string \<Rightarrow> bool" where
  "lb_less_source_index a b =
     (case (atoi a, atoi b) of
        (Some m, Some n) \<Rightarrow> m < n
      | (Some _, None) \<Rightarrow> True
      | (None, Some _) \<Rightarrow> False
      | (None, None) \<Rightarrow> a < b)"

definition path_base :: "string \<Rightarrow> string" where
  "path_base p =
     (if p = [] then ''.''
      else
        let q = trim_right_by (\<lambda>c. c = CHR ''/'') p in
        if q = [] then ''/'' else rev (takeWhile (\<lambda>c. c \<noteq> CHR ''/'') (rev q)))"

definition get_stream_id :: "string \<Rightarrow> string" where
  "get_stream_id p =
     (let i = hd (split_char (CHR ''.'') (path_base p)) in
      if i = [] then [] else trim_prefix i ''/'')"

text \<open>\<open>WithExcludedIndexes\<close>: the set of indexes stored in the context.\<close>

definition with_excluded_indexes :: "string list \<Rightarrow> string list \<Rightarrow> string list" where
  "with_excluded_indexes old indexes =
     (let n = dedup_acc [] (filter (\<lambda>i. i \<noteq> []) (map trim_space indexes)) in if n = [] then old else n)"

definition normalized_indexes :: "string list \<Rightarrow> string list" where
  "normalized_indexes indexes = dedup_acc [] (filter (\<lambda>i. i \<noteq> []) (map trim_space indexes))"

definition append_discovery_indexes :: "string list \<Rightarrow> stream_info \<Rightarrow> string list" where
  "append_discovery_indexes indexes s =
     (case si_urls s of
        None \<Rightarrow> indexes
      | Some us \<Rightarrow>
          let merged = normalized_indexes indexes in
          merged @ dedup_acc merged
            (List.map_filter (\<lambda>(i, inner).
               let t = trim_space i in
               if t = [] \<or> inner = [] \<or> \<not> has_prefix (to_upper t) ''DISC_'' then None else Some t) us))"

definition available_indexes :: "string list \<Rightarrow> stream_info \<Rightarrow> string list" where
  "available_indexes indexes s =
     (case si_urls s of
        None \<Rightarrow> indexes
      | Some us \<Rightarrow>
          let kept = filter (\<lambda>i. case map_of us i of None \<Rightarrow> False | Some m \<Rightarrow> m \<noteq> []) indexes
          in if kept = [] then indexes else kept)"

definition without_excluded :: "string list \<Rightarrow> string list \<Rightarrow> string list" where
  "without_excluded excluded indexes =
     (if excluded = [] then indexes
      else let kept = filter (\<lambda>i. i \<notin> set excluded) indexes in if kept = [] then indexes else kept)"

section \<open>Requests\<close>

definition upstream_dropped_headers :: "string list" where
  "upstream_dropped_headers =
     [''Accept-Encoding'', ''Range'', ''If-Range'', ''Connection'', ''Proxy-Connection'',
      ''Keep-Alive'', ''Te'', ''Trailer'', ''Transfer-Encoding'', ''Upgrade'', ''Host'', ''Content-Length'']"

definition build_stream_request :: "string \<Rightarrow> string \<Rightarrow> (string \<times> string) list \<Rightarrow> (string \<times> string) list" where
  "build_stream_request user_agent accept orig =
     (let kept = filter (\<lambda>kv. fst kv \<notin> set upstream_dropped_headers) orig;
          h = (if ''User-Agent'' \<in> set (map fst kept) then kept else kept @ [(''User-Agent'', user_agent)])
      in if ''Accept'' \<in> set (map fst kept) then h else h @ [(''Accept'', accept)])"

definition local_content_type :: "string \<Rightarrow> string" where
  "local_content_type p =
     (let e = to_lower (path_ext p) in
      if e = ''.ts'' then ''video/MP2T''
      else if e = ''.mp4'' then ''video/mp4''
      else if e = ''.m3u8'' then ''application/x-mpegURL''
      else if e = ''.m3u'' then ''audio/x-mpegurl''
      else ''application/octet-stream'')"

datatype lb_net_error = NetError bool string | OtherNetError string

text \<open>\<open>isRetryableStreamError\<close>: the flag of \<open>NetError\<close> is Timeout or Temporary.\<close>

definition is_retryable_stream_error :: "lb_net_error \<Rightarrow> bool" where
  "is_retryable_stream_error e =
     (let (flag, msg) = (case e of NetError t m \<Rightarrow> (t, m) | OtherNetError m \<Rightarrow> (False, m))
      in flag \<or> contains_str (to_lower msg) ''lookup'' \<or> contains_str (to_lower msg) ''temporary'' \<or>
         contains_str (to_lower msg) ''timeout'')"

definition is_acceptable_stream_status :: "int \<Rightarrow> bool" where
  "is_acceptable_stream_status n = (n = 200 \<or> n = 206)"

section \<open>One source\<close>

datatype lb_phase = Probe | Refetch

record lb_world =
  lw_do :: "nat \<Rightarrow> lb_phase \<Rightarrow> string \<Rightarrow> nat \<Rightarrow> lb_net_error + http_response option"
  lw_local :: "string \<Rightarrow> string option"
  lw_peek :: "nat \<Rightarrow> string \<Rightarrow> nat"
  lw_measure :: "nat \<Rightarrow> string \<Rightarrow> rat option"
  lw_arrival :: "nat \<Rightarrow> string list \<Rightarrow> string list"
  lw_cm :: "nat \<Rightarrow> nat \<Rightarrow> cm_state"
  lw_cancelled :: "nat \<Rightarrow> nat \<Rightarrow> bool"
  lw_windows :: bool
  lw_parse :: url_parser

definition stream_probe_retry_count :: nat where "stream_probe_retry_count = 3"

text \<open>The attempts of \<open>openStreamResponse\<close>, from the given one on.\<close>

fun open_attempts ::
  "(nat \<Rightarrow> lb_net_error + http_response option) \<Rightarrow> nat \<Rightarrow> nat \<Rightarrow> lb_net_error + http_response option" where
  "open_attempts ask a 0 = Inl (OtherNetError [])"
| "open_attempts ask a (Suc n) =
     (case ask a of
        Inr r \<Rightarrow> Inr r
      | Inl e \<Rightarrow>
          if \<not> is_retryable_stream_error e \<or> n = 0 then Inl e else open_attempts ask (Suc a) n)"

definition open_local_stream_response :: "lb_world \<Rightarrow> string \<Rightarrow> lb_net_error + http_response option" where
  "open_local_stream_response w url =
     (case file_url_to_path (lw_windows w) (lw_parse w) url of
        None \<Rightarrow> Inl (OtherNetError ''invalid local file URL'')
      | Some p \<Rightarrow>
          (case lw_local w p of
             None \<Rightarrow> Inl (OtherNetError ''open local file'')
           | Some body \<Rightarrow>
               Inr (Some \<lparr>hr_status = 200, hr_header = [(''Content-Type'', local_content_type p)],
                          hr_path = map_option u_path (lw_parse w url), hr_body = body\<rparr>)))"

definition open_stream_response ::
  "lb_world \<Rightarrow> nat \<Rightarrow> lb_phase \<Rightarrow> string \<Rightarrow> lb_net_error + http_response option" where
  "open_stream_response w lap ph url =
     (if has_prefix url ''file://'' then open_local_stream_response w url
      else open_attempts (lw_do w lap ph url) 1 stream_probe_retry_count)"

record candidate =
  ca_sub :: string
  ca_url :: string
  ca_order :: nat
  ca_health :: rat

text \<open>What the goroutine of one candidate ends with: a healthy candidate or a failure.\<close>

definition probe_candidate :: "lb_world \<Rightarrow> nat \<Rightarrow> nat \<Rightarrow> string \<Rightarrow> string \<Rightarrow> candidate option" where
  "probe_candidate w lap order sub url =
     (case open_stream_response w lap Probe url of
        Inl _ \<Rightarrow> None
      | Inr None \<Rightarrow> None
      | Inr (Some r) \<Rightarrow>
          if \<not> is_acceptable_stream_status (hr_status r) then None
          else if fst (is_probably_m3u8 (lw_peek w lap url) r)
          then Some \<lparr>ca_sub = sub, ca_url = url, ca_order = order, ca_health = 1\<rparr>
          else (case lw_measure w lap url of
                  None \<Rightarrow> None
                | Some h \<Rightarrow> Some \<lparr>ca_sub = sub, ca_url = url, ca_order = order, ca_health = h\<rparr>))"

definition entry_url_part :: "string \<Rightarrow> string" where
  "entry_url_part e = (case cut_str e '':::'' of None \<Rightarrow> e | Some (a, b) \<Rightarrow> b)"

definition candidate_id :: "string \<Rightarrow> string \<Rightarrow> string" where
  "candidate_id idx sub = idx @ ''|'' @ sub"

definition lb_sorted_sub_indexes :: "url_map \<Rightarrow> string list" where
  "lb_sorted_sub_indexes urls = sort_by (<) (map fst urls)"

definition candidate_less :: "candidate \<Rightarrow> candidate \<Rightarrow> bool" where
  "candidate_less a b =
     (if ca_health a \<noteq> ca_health b then ca_health a > ca_health b else ca_order a < ca_order b)"

text \<open>The candidates that are probed: (order, key, URL), those not tested in this lap, when the
  source has a free slot.\<close>

definition probed_subs ::
  "utils_state \<Rightarrow> cm_state \<Rightarrow> string list \<Rightarrow> string \<Rightarrow> url_map \<Rightarrow> (nat \<times> string \<times> string) list" where
  "probed_subs us cm tested idx urls =
     (if fst (check_concurrency us idx cm) then []
      else
        filter (\<lambda>(order, sub, url). candidate_id idx sub \<notin> set tested)
          (map (\<lambda>(order, sub). (order, sub, entry_url_part (the (map_of urls sub))))
            (zip [0..<length urls] (lb_sorted_sub_indexes urls))))"

record lb_result =
  lr_index :: string
  lr_sub :: string
  lr_url :: string
  lr_response :: http_response

text \<open>The second fetch, in the order of the candidates; failures are marked as tested.\<close>

fun refetch_candidates ::
  "lb_world \<Rightarrow> nat \<Rightarrow> string \<Rightarrow> candidate list \<Rightarrow> string list \<Rightarrow> lb_result option \<times> string list" where
  "refetch_candidates w lap idx [] tested = (None, tested)"
| "refetch_candidates w lap idx (c # cs) tested =
     (case open_stream_response w lap Refetch (ca_url c) of
        Inr (Some r) \<Rightarrow>
          if is_acceptable_stream_status (hr_status r)
          then (Some \<lparr>lr_index = idx, lr_sub = ca_sub c, lr_url = ca_url c, lr_response = r\<rparr>, tested)
          else refetch_candidates w lap idx cs (tested @ [candidate_id idx (ca_sub c)])
      | _ \<Rightarrow> refetch_candidates w lap idx cs (tested @ [candidate_id idx (ca_sub c)]))"

definition arrived :: "lb_world \<Rightarrow> nat \<Rightarrow> candidate list \<Rightarrow> candidate list" where
  "arrived w lap cs =
     map (\<lambda>sub. the (find (\<lambda>c. ca_sub c = sub) cs)) (lw_arrival w lap (map ca_sub cs))"

definition try_stream_urls ::
  "utils_state \<Rightarrow> lb_world \<Rightarrow> nat \<Rightarrow> nat \<Rightarrow> string \<Rightarrow> url_map \<Rightarrow> string list \<Rightarrow> lb_result option \<times> string list" where
  "try_stream_urls us w lap rnd idx urls tested =
     (let subs = probed_subs us (lw_cm w lap rnd) tested idx urls;
          probes = map (\<lambda>(order, sub, url). (sub, probe_candidate w lap order sub url)) subs;
          failed = map (\<lambda>p. candidate_id idx (fst p)) (filter (\<lambda>p. snd p = None) probes);
          found = arrived w lap (List.map_filter snd probes)
      in refetch_candidates w lap idx (sort_by candidate_less found) (tested @ failed))"

section \<open>All sources, all laps\<close>

datatype lb_error = NoIndexes | Cancelled | AllFailed | SlugError slug_error | NoUrls | NoValidUrls | Exhausted

definition priority_less :: "utils_state \<Rightarrow> cm_state \<Rightarrow> string \<Rightarrow> string \<Rightarrow> bool" where
  "priority_less us cm a b =
     (let p = fst (concurrency_priority_value us a cm); q = fst (concurrency_priority_value us b cm) in
      if p \<noteq> q then p > q else lb_less_source_index a b)"

text \<open>The loop of \<open>tryAllStreams\<close>: \<open>tried\<close> are the indexes done. Each round sorts anew. None: the
  bound \<open>n\<close> on the rounds is used up.\<close>

fun try_all_loop ::
  "nat \<Rightarrow> utils_state \<Rightarrow> lb_world \<Rightarrow> nat \<Rightarrow> stream_info \<Rightarrow> nat \<Rightarrow> nat \<Rightarrow> string list \<Rightarrow> string list \<Rightarrow>
     string list \<Rightarrow> ((lb_error + lb_result) \<times> string list) option" where
  "try_all_loop 0 us w lap s cnt rnd idxs tried tested =
     (if length tried \<ge> cnt then Some (Inl AllFailed, tested) else None)"
| "try_all_loop (Suc n) us w lap s cnt rnd idxs tried tested =
     (if length tried \<ge> cnt then Some (Inl AllFailed, tested)
      else
        let idxs' = sort_by (priority_less us (lw_cm w lap rnd)) idxs;
            idx = (case find (\<lambda>i. i \<notin> set tried) idxs' of None \<Rightarrow> [] | Some i \<Rightarrow> i);
            tried' = List.insert idx tried
        in (case map_of (urls_of s) idx of
              None \<Rightarrow> try_all_loop n us w lap s cnt (Suc rnd) idxs' tried' tested
            | Some urls \<Rightarrow>
                if urls = [] then try_all_loop n us w lap s cnt (Suc rnd) idxs' tried' tested
                else
                  (case try_stream_urls us w lap rnd idx urls tested of
                     (Some r, tested') \<Rightarrow> Some (Inr r, tested')
                   | (None, tested') \<Rightarrow>
                       if lw_cancelled w lap (Suc rnd) then Some (Inl Cancelled, tested')
                       else try_all_loop n us w lap s cnt (Suc rnd) idxs' tried' tested')))"

definition source_candidates :: "string list \<Rightarrow> string list \<Rightarrow> stream_info \<Rightarrow> string list" where
  "source_candidates excluded indexes s =
     without_excluded excluded (available_indexes (append_discovery_indexes indexes s) s)"

definition try_all_streams ::
  "utils_state \<Rightarrow> lb_world \<Rightarrow> nat \<Rightarrow> string list \<Rightarrow> stream_info \<Rightarrow> string list \<Rightarrow>
     ((lb_error + lb_result) \<times> string list) option" where
  "try_all_streams us w lap excluded s tested =
     (let idxs = source_candidates excluded (get_m3u_indexes us) s in
      if available_indexes (append_discovery_indexes (get_m3u_indexes us) s) s = []
      then Some (Inl NoIndexes, tested)
      else if lw_cancelled w lap 0 then Some (Inl Cancelled, tested)
      else try_all_loop (length idxs) us w lap s (length idxs) 0 idxs [] tested)"

definition fetch_backend_urls :: "slug_error + stream_info \<Rightarrow> lb_error + stream_info" where
  "fetch_backend_urls r =
     (case r of
        Inl e \<Rightarrow> Inl (SlugError e)
      | Inr s \<Rightarrow>
          if urls_of s = [] then Inl NoUrls
          else if \<not> list_ex (\<lambda>(i, m). m \<noteq> []) (urls_of s) then Inl NoValidUrls
          else Inr s)"

text \<open>The laps of \<open>Balance\<close>. \<open>MaxRetries = 0\<close> means no bound on the laps, so the loop has fuel;
  None: the fuel is used up. \<open>lw_cancelled\<close> of the lap after this one at round 0 stands for the
  context ending during the pause.\<close>

fun balance_loop ::
  "nat \<Rightarrow> utils_state \<Rightarrow> lb_world \<Rightarrow> int \<Rightarrow> string list \<Rightarrow> stream_info \<Rightarrow> nat \<Rightarrow> string list \<Rightarrow>
     ((lb_error + lb_result) \<times> string list) option" where
  "balance_loop 0 us w retries excluded s lap tested =
     (if int lap < retries \<or> retries = 0 then None else Some (Inl Exhausted, tested))"
| "balance_loop (Suc n) us w retries excluded s lap tested =
     (if int lap < retries \<or> retries = 0 then
        (case try_all_streams us w lap excluded s tested of
           None \<Rightarrow> None
         | Some (Inr r, tested') \<Rightarrow> Some (Inr r, tested')
         | Some (Inl e, tested') \<Rightarrow>
             if e = Cancelled then Some (Inl Cancelled, tested')
             else if lw_cancelled w (Suc lap) 0 then Some (Inl Cancelled, [])
             else balance_loop n us w retries excluded s (Suc lap) [])
      else Some (Inl Exhausted, tested))"

definition balance ::
  "nat \<Rightarrow> utils_state \<Rightarrow> lb_world \<Rightarrow> lb_config \<Rightarrow> string list \<Rightarrow> (string \<Rightarrow> slug_error + stream_info) \<Rightarrow>
     string \<Rightarrow> string list \<Rightarrow> ((lb_error + lb_result) \<times> string list) option" where
  "balance fuel us w cfg excluded by_slug url_path tested =
     (case fetch_backend_urls (by_slug (get_stream_id url_path)) of
        Inl e \<Rightarrow> Some (Inl e, tested)
      | Inr s \<Rightarrow> balance_loop fuel us w (lb_max_retries cfg) excluded s 0 tested)"

section \<open>The order of the sources\<close>

lemma lb_less_key: "lb_less_source_index a b \<longleftrightarrow> index_key_of a < index_key_of b"
  by (auto simp: lb_less_source_index_def index_key_of_def split: option.splits)

interpretation lb_index_order: keyed_order lb_less_source_index index_key_of
  by unfold_locales (rule lb_less_key)

interpretation priority_order: strict_weak_order "priority_less us cm" for us cm
  by unfold_locales (auto simp: priority_less_def Let_def lb_less_key split: if_splits)

interpretation candidate_rank: strict_weak_order candidate_less
  by unfold_locales (auto simp: candidate_less_def split: if_splits)

lemma sort_priority_sorted:
  "sort_by (priority_less us cm) (sort_by (priority_less us cm) xs) = sort_by (priority_less us cm) xs"
  by (rule sort_by_sorted) (rule priority_order.sorted_sort_by)

lemma dedup_acc_trimmed: "\<forall>i \<in> set xs. P i \<Longrightarrow> \<forall>i \<in> set (dedup_acc seen xs). P i"
  by (simp add: dedup_acc_set)

lemma distinct_append_discovery: "si_urls s \<noteq> None \<Longrightarrow> distinct (append_discovery_indexes indexes s)"
  by (auto simp: append_discovery_indexes_def normalized_indexes_def distinct_dedup_acc dedup_acc_set Let_def
      split: option.splits)

lemma distinct_source_candidates: "si_urls s \<noteq> None \<Longrightarrow> distinct (source_candidates excluded indexes s)"
  using distinct_append_discovery [of s indexes]
  by (auto simp: source_candidates_def without_excluded_def available_indexes_def Let_def split: option.splits)

section \<open>The loop over the sources ends\<close>

lemma find_fresh:
  "set tried \<subseteq> set xs \<Longrightarrow> distinct xs \<Longrightarrow> length tried < length xs \<Longrightarrow>
     \<exists>i. find (\<lambda>i. i \<notin> set tried) xs = Some i \<and> i \<in> set xs \<and> i \<notin> set tried"
proof -
  assume a: "set tried \<subseteq> set xs" "distinct xs" "length tried < length xs"
  have "set xs \<noteq> set tried"
    using a(2,3) by (metis card_length distinct_card not_less)
  then obtain i where "i \<in> set xs" "i \<notin> set tried" using a(1) by blast
  then obtain j where "find (\<lambda>i. i \<notin> set tried) xs = Some j"
    by (cases "find (\<lambda>i. i \<notin> set tried) xs") (auto simp: find_None_iff)
  then show ?thesis by (auto simp: find_Some_iff)
qed

lemma try_all_loop_total:
  "distinct idxs \<Longrightarrow> set tried \<subseteq> set idxs \<Longrightarrow> length idxs \<le> n + length tried \<Longrightarrow>
     try_all_loop n us w lap s (length idxs) rnd idxs tried tested \<noteq> None"
proof (induction n arbitrary: rnd idxs tried tested)
  case 0
  then show ?case by simp
next
  case (Suc n)
  define xs where "xs = sort_by (priority_less us (lw_cm w lap rnd)) idxs"
  show ?case
  proof (cases "length idxs \<le> length tried")
    case True
    then show ?thesis by simp
  next
    case False
    have xs: "set xs = set idxs" "distinct xs" "length xs = length idxs"
      using Suc.prems(1) by (simp_all add: xs_def)
    obtain i where i: "find (\<lambda>i. i \<notin> set tried) xs = Some i" "i \<in> set xs" "i \<notin> set tried"
      using find_fresh [of tried xs] xs Suc.prems(2) False by auto
    have next_round: "try_all_loop n us w lap s (length idxs) (Suc rnd) xs (List.insert i tried) t \<noteq> None" for t
      using Suc.IH [of xs "List.insert i tried" "Suc rnd" t] xs i Suc.prems by (simp add: not_in_set_insert)
    show ?thesis
      using False next_round
      by (auto simp: Let_def xs_def [symmetric] i(1) split: option.splits prod.splits)
  qed
qed

lemma try_all_streams_total:
  "si_urls s \<noteq> None \<Longrightarrow> try_all_streams us w lap excluded s tested \<noteq> None"
  using try_all_loop_total [OF distinct_source_candidates, of s "[]" excluded "get_m3u_indexes us"]
  by (simp add: try_all_streams_def Let_def)

lemma balance_loop_total:
  "si_urls s \<noteq> None \<Longrightarrow> retries \<noteq> 0 \<Longrightarrow> retries \<le> int (n + lap) \<Longrightarrow>
     balance_loop n us w retries excluded s lap tested \<noteq> None"
proof (induction n arbitrary: lap tested)
  case 0
  then show ?case by simp
next
  case (Suc n)
  then show ?case
    using try_all_streams_total [of s us w lap excluded tested]
    by (auto split: option.splits sum.splits prod.splits)
qed

section \<open>The sources are tried in the order of their free slots\<close>

fun visit_sources ::
  "utils_state \<Rightarrow> lb_world \<Rightarrow> nat \<Rightarrow> stream_info \<Rightarrow> nat \<Rightarrow> string list \<Rightarrow> string list \<Rightarrow>
     (lb_error + lb_result) \<times> string list" where
  "visit_sources us w lap s rnd [] tested = (Inl AllFailed, tested)"
| "visit_sources us w lap s rnd (i # is) tested =
     (case map_of (urls_of s) i of
        None \<Rightarrow> visit_sources us w lap s (Suc rnd) is tested
      | Some urls \<Rightarrow>
          if urls = [] then visit_sources us w lap s (Suc rnd) is tested
          else
            (case try_stream_urls us w lap rnd i urls tested of
               (Some r, tested') \<Rightarrow> (Inr r, tested')
             | (None, tested') \<Rightarrow>
                 if lw_cancelled w lap (Suc rnd) then (Inl Cancelled, tested')
                 else visit_sources us w lap s (Suc rnd) is tested'))"

lemma find_after_prefix:
  "\<forall>y \<in> set ys. y \<in> set tried \<Longrightarrow> i \<notin> set tried \<Longrightarrow>
     find (\<lambda>i. i \<notin> set tried) (ys @ i # zs) = Some i"
  by (induction ys) auto

lemma try_all_loop_visits:
  assumes cm: "\<And>r. lw_cm w lap r = c" and srt: "sort_by (priority_less us c) xs = xs"
    and xs: "xs = ys @ zs" "distinct xs" and tried: "set tried = set ys" "length tried = length ys"
    and n: "length zs \<le> n"
    and idxs: "sort_by (priority_less us c) idxs = xs"
  shows "try_all_loop n us w lap s (length xs) rnd idxs tried tested =
    Some (visit_sources us w lap s rnd zs tested)"
  using xs tried n idxs
proof (induction zs arbitrary: n ys tried rnd tested idxs)
  case Nil
  then show ?case by (cases n) simp_all
next
  case (Cons i zs)
  then obtain m where m: "n = Suc m" by (cases n) auto
  have i: "i \<notin> set tried" using Cons.prems by auto
  have fresh: "find (\<lambda>i. i \<notin> set tried) xs = Some i"
    unfolding Cons.prems(1) using i Cons.prems(3) by (intro find_after_prefix) auto
  have rest: "try_all_loop m us w lap s (length xs) (Suc rnd) xs (List.insert i tried) t =
      Some (visit_sources us w lap s (Suc rnd) zs t)" for t
    using Cons.IH [of "ys @ [i]" "List.insert i tried" m xs "Suc rnd" t] Cons.prems m i srt by simp
  have len: "\<not> length xs \<le> length tried" using Cons.prems(1,4) by simp
  show ?case
    unfolding m try_all_loop.simps visit_sources.simps cm Cons.prems(6) Let_def
    using rest len by (simp add: fresh split: option.splits prod.splits)
qed

lemma try_all_streams_visits:
  assumes "\<And>r. lw_cm w lap r = c" and "si_urls s \<noteq> None"
    and "available_indexes (append_discovery_indexes (get_m3u_indexes us) s) s \<noteq> []"
    and "\<not> lw_cancelled w lap 0"
  shows "try_all_streams us w lap excluded s tested =
    Some (visit_sources us w lap s 0
      (sort_by (priority_less us c) (source_candidates excluded (get_m3u_indexes us) s)) tested)"
proof -
  let ?i = "source_candidates excluded (get_m3u_indexes us) s"
  let ?x = "sort_by (priority_less us c) ?i"
  have "try_all_loop (length ?i) us w lap s (length ?x) 0 ?i [] tested = Some (visit_sources us w lap s 0 ?x tested)"
    by (rule try_all_loop_visits [where ys = "[]" and c = c])
       (use assms distinct_source_candidates sort_priority_sorted in auto)
  then show ?thesis using assms(3,4) by (simp add: try_all_streams_def Let_def)
qed

section \<open>The result of a source\<close>

text \<open>The results of the probes come in some order, each once.\<close>

definition arrival_ok :: "lb_world \<Rightarrow> bool" where
  "arrival_ok w = (\<forall>lap xs. mset (lw_arrival w lap xs) = mset xs)"

lemma find_by_sub: "distinct (map ca_sub cs) \<Longrightarrow> c \<in> set cs \<Longrightarrow> find (\<lambda>d. ca_sub d = ca_sub c) cs = Some c"
  by (induction cs) force+

lemma arrived_mset:
  assumes "arrival_ok w" and "distinct (map ca_sub cs)"
  shows "mset (arrived w lap cs) = mset cs"
proof -
  let ?f = "\<lambda>sub. the (find (\<lambda>c. ca_sub c = sub) cs)"
  have "mset (arrived w lap cs) = image_mset ?f (mset (map ca_sub cs))"
    using assms(1) by (simp add: arrived_def arrival_ok_def del: mset_map) (metis mset_map)
  also have "\<dots> = mset (map (\<lambda>c. ?f (ca_sub c)) cs)" by (simp add: image_mset.compositionality comp_def)
  also have "map (\<lambda>c. ?f (ca_sub c)) cs = cs"
    by (rule map_idI) (simp add: find_by_sub [OF assms(2)])
  finally show ?thesis .
qed

lemma probe_fields:
  "probe_candidate w lap order sub url = Some c \<Longrightarrow> ca_sub c = sub \<and> ca_url c = url \<and> ca_order c = order"
  by (auto simp: probe_candidate_def split: sum.splits option.splits if_splits)

definition healthy_candidates ::
  "utils_state \<Rightarrow> lb_world \<Rightarrow> nat \<Rightarrow> nat \<Rightarrow> string \<Rightarrow> url_map \<Rightarrow> string list \<Rightarrow> candidate list" where
  "healthy_candidates us w lap rnd idx urls tested =
     List.map_filter (\<lambda>(order, sub, url). probe_candidate w lap order sub url)
       (probed_subs us (lw_cm w lap rnd) tested idx urls)"

lemma probed_subs_from:
  assumes "(order, sub, url) \<in> set (probed_subs us cm tested idx urls)"
  shows "\<exists>e. map_of urls sub = Some e \<and> url = entry_url_part e"
    and "\<not> fst (check_concurrency us idx cm)"
    and "candidate_id idx sub \<notin> set tested"
proof -
  have mem: "\<not> fst (check_concurrency us idx cm)" "candidate_id idx sub \<notin> set tested"
    "(order, sub) \<in> set (zip [0..<length urls] (lb_sorted_sub_indexes urls))"
    "url = entry_url_part (the (map_of urls sub))"
    using assms by (auto simp: probed_subs_def split: if_splits)
  then have "sub \<in> set (map fst urls)" by (auto simp: lb_sorted_sub_indexes_def dest!: set_zip_rightD)
  then obtain e where "map_of urls sub = Some e" by (metis map_of_eq_None_iff not_None_eq set_map)
  then show "\<exists>e. map_of urls sub = Some e \<and> url = entry_url_part e" using mem(4) by simp
  show "\<not> fst (check_concurrency us idx cm)" "candidate_id idx sub \<notin> set tested" using mem by auto
qed

lemma distinct_map_filter_key:
  "distinct (map k xs) \<Longrightarrow> (\<And>x y. f x = Some y \<Longrightarrow> g y = k x) \<Longrightarrow> distinct (map g (List.map_filter f xs))"
proof (induction xs)
  case Nil
  then show ?case by (simp add: List.map_filter_simps)
next
  case (Cons x xs)
  have "g y \<notin> g ` set (List.map_filter f xs)" if "f x = Some y" for y
    using Cons.prems that by (auto simp: List.map_filter_def)
  then show ?case using Cons by (auto simp: List.map_filter_simps split: option.splits)
qed

lemma probed_keys:
  assumes "distinct (map fst urls)"
  shows "distinct (map (\<lambda>(order, sub, url). order) (probed_subs us cm tested idx urls))"
    and "distinct (map (\<lambda>(order, sub, url). sub) (probed_subs us cm tested idx urls))"
proof -
  let ?z = "map (\<lambda>(order, sub). (order, sub, entry_url_part (the (map_of urls sub))))
      (zip [0..<length urls] (lb_sorted_sub_indexes urls))"
  have len: "length (lb_sorted_sub_indexes urls) = length urls" by (simp add: lb_sorted_sub_indexes_def)
  have "map (\<lambda>(order, sub, url). order) ?z = [0..<length urls]"
    "map (\<lambda>(order, sub, url). sub) ?z = lb_sorted_sub_indexes urls"
    using len by (simp_all add: case_prod_beta comp_def map_fst_zip map_snd_zip)
  then have "distinct (map (\<lambda>(order, sub, url). order) ?z)" "distinct (map (\<lambda>(order, sub, url). sub) ?z)"
    using assms by (simp_all add: lb_sorted_sub_indexes_def)
  then show "distinct (map (\<lambda>(order, sub, url). order) (probed_subs us cm tested idx urls))"
    "distinct (map (\<lambda>(order, sub, url). sub) (probed_subs us cm tested idx urls))"
    by (simp_all add: probed_subs_def distinct_map_filter)
qed

lemma healthy_keys:
  assumes "distinct (map fst urls)"
  shows "distinct (map ca_order (healthy_candidates us w lap rnd idx urls tested))"
    and "distinct (map ca_sub (healthy_candidates us w lap rnd idx urls tested))"
  unfolding healthy_candidates_def
  by (rule distinct_map_filter_key [OF probed_keys(1) [OF assms]], auto dest: probe_fields)
     (rule distinct_map_filter_key [OF probed_keys(2) [OF assms]], auto dest: probe_fields)

text \<open>The order in which the probes end does not matter.\<close>

lemma candidate_order_determined:
  assumes "arrival_ok w" and "distinct (map fst urls)"
  shows "sort_by candidate_less (arrived w lap (healthy_candidates us w lap rnd idx urls tested)) =
    sort_by candidate_less (healthy_candidates us w lap rnd idx urls tested)"
proof (rule candidate_rank.sort_by_determined)
  let ?cs = "healthy_candidates us w lap rnd idx urls tested"
  show "mset (sort_by candidate_less (arrived w lap ?cs)) = mset ?cs"
    using arrived_mset [OF assms(1) healthy_keys(2) [OF assms(2)]] by simp
  show "sorted_wrt (\<lambda>a b. \<not> candidate_less b a) (sort_by candidate_less (arrived w lap ?cs))"
    by (rule candidate_rank.sorted_sort_by)
  fix a b assume ab: "a \<in> set ?cs" "b \<in> set ?cs" "\<not> candidate_less a b" "\<not> candidate_less b a"
  then have "ca_order a = ca_order b" by (auto simp: candidate_less_def split: if_splits)
  then show "a = b" using healthy_keys(1) [OF assms(2), of us w lap rnd idx tested] ab(1,2)
    by (simp add: distinct_map inj_on_def)
qed

lemma try_stream_urls_sorted:
  assumes "arrival_ok w" and "distinct (map fst urls)"
  shows "fst (try_stream_urls us w lap rnd idx urls tested) =
    fst (refetch_candidates w lap idx (sort_by candidate_less (healthy_candidates us w lap rnd idx urls tested)) [])"
proof -
  have "List.map_filter snd (map (\<lambda>(order, sub, url). (sub, probe_candidate w lap order sub url)) xs) =
      List.map_filter (\<lambda>(order, sub, url). probe_candidate w lap order sub url) xs" for xs
    by (simp add: List.map_filter_def filter_map comp_def case_prod_beta)
  moreover have "fst (refetch_candidates w lap idx cs t) = fst (refetch_candidates w lap idx cs [])" for cs t
  proof (induction cs arbitrary: t)
    case Nil
    then show ?case by simp
  next
    case (Cons c cs)
    show ?case
      using Cons.IH [of "t @ [candidate_id idx (ca_sub c)]"] Cons.IH [of "[candidate_id idx (ca_sub c)]"]
      by (simp split: sum.splits option.splits)
  qed
  ultimately show ?thesis
    using candidate_order_determined [OF assms, of lap us rnd idx tested]
    by (simp add: try_stream_urls_def Let_def healthy_candidates_def)
qed

lemma refetch_from:
  "fst (refetch_candidates w lap idx cs t) = Some r \<Longrightarrow>
     lr_index r = idx \<and> is_acceptable_stream_status (hr_status (lr_response r)) \<and>
     (\<exists>c \<in> set cs. lr_sub r = ca_sub c \<and> lr_url r = ca_url c)"
proof (induction cs arbitrary: t)
  case Nil
  then show ?case by simp
next
  case (Cons c cs)
  then show ?case by (auto split: sum.splits option.splits if_splits dest: Cons.IH)
qed

lemma try_stream_urls_result:
  assumes "arrival_ok w" and "distinct (map fst urls)"
    and "fst (try_stream_urls us w lap rnd idx urls tested) = Some r"
  shows "lr_index r = idx" and "is_acceptable_stream_status (hr_status (lr_response r))"
    and "\<exists>e. map_of urls (lr_sub r) = Some e \<and> lr_url r = entry_url_part e"
    and "\<not> fst (check_concurrency us idx (lw_cm w lap rnd))"
    and "candidate_id idx (lr_sub r) \<notin> set tested"
proof -
  note r = refetch_from [OF assms(3) [unfolded try_stream_urls_sorted [OF assms(1,2)]]]
  then show "lr_index r = idx" "is_acceptable_stream_status (hr_status (lr_response r))" by auto
  from r obtain c where c: "c \<in> set (healthy_candidates us w lap rnd idx urls tested)"
    "lr_sub r = ca_sub c" "lr_url r = ca_url c" by auto
  then obtain order sub url where
    p: "(order, sub, url) \<in> set (probed_subs us (lw_cm w lap rnd) tested idx urls)"
       "probe_candidate w lap order sub url = Some c"
    by (auto simp: healthy_candidates_def List.map_filter_def)
  note f = probed_subs_from [OF p(1)] and g = probe_fields [OF p(2)]
  show "\<exists>e. map_of urls (lr_sub r) = Some e \<and> lr_url r = entry_url_part e"
    "\<not> fst (check_concurrency us idx (lw_cm w lap rnd))" "candidate_id idx (lr_sub r) \<notin> set tested"
    using f g c by auto
qed

section \<open>The result of a lap\<close>

definition result_ok :: "utils_state \<Rightarrow> lb_world \<Rightarrow> nat \<Rightarrow> stream_info \<Rightarrow> string list \<Rightarrow> lb_result \<Rightarrow> bool" where
  "result_ok us w lap s idxs r =
     (lr_index r \<in> set idxs \<and> is_acceptable_stream_status (hr_status (lr_response r)) \<and>
      (\<exists>e. lookup_url (urls_of s) (lr_index r) (lr_sub r) = Some e \<and> lr_url r = entry_url_part e) \<and>
      (\<exists>rnd. \<not> fst (check_concurrency us (lr_index r) (lw_cm w lap rnd))))"

lemma result_ok_cong: "set xs = set ys \<Longrightarrow> result_ok us w lap s xs r = result_ok us w lap s ys r"
  by (simp add: result_ok_def)

lemma try_all_loop_result:
  "arrival_ok w \<Longrightarrow> urls_ok (urls_of s) \<Longrightarrow> distinct idxs \<Longrightarrow> set tried \<subseteq> set idxs \<Longrightarrow>
     try_all_loop n us w lap s (length idxs) rnd idxs tried tested = Some (Inr r, t) \<Longrightarrow>
     result_ok us w lap s idxs r"
proof (induction n arbitrary: rnd idxs tried tested)
  case 0
  then show ?case by (simp split: if_splits)
next
  case (Suc n)
  define xs where "xs = sort_by (priority_less us (lw_cm w lap rnd)) idxs"
  have xs: "set xs = set idxs" "distinct xs" "length xs = length idxs"
    using Suc.prems(3) by (simp_all add: xs_def)
  have lt: "length tried < length idxs" using Suc.prems(5) by (simp split: if_splits)
  then obtain i where i: "find (\<lambda>i. i \<notin> set tried) xs = Some i" "i \<in> set xs" "i \<notin> set tried"
    using find_fresh [of tried xs] xs Suc.prems(4) by auto
  have more: "result_ok us w lap s idxs r"
    if "try_all_loop n us w lap s (length idxs) (Suc rnd) xs (List.insert i tried) u = Some (Inr r, t)" for u
    using Suc.IH [OF Suc.prems(1,2), of xs "List.insert i tried" "Suc rnd" u] that xs i Suc.prems(4)
      result_ok_cong [OF xs(1)] by simp
  have hit: "result_ok us w lap s idxs r"
    if "map_of (urls_of s) i = Some urls" "fst (try_stream_urls us w lap rnd i urls tested) = Some r" for urls
    using try_stream_urls_result [OF Suc.prems(1) urls_ok_lookup [OF Suc.prems(2) that(1)] that(2)]
      that(1) i xs by (auto simp: result_ok_def lookup_url_def)
  show ?case
    using Suc.prems(5) lt more hit
    by (auto simp: Let_def xs_def [symmetric] i(1) split: option.splits prod.splits if_splits)
qed

lemma try_all_streams_result:
  assumes "arrival_ok w" "urls_ok (urls_of s)" "si_urls s \<noteq> None"
    and "try_all_streams us w lap excluded s tested = Some (Inr r, t)"
  shows "result_ok us w lap s (source_candidates excluded (get_m3u_indexes us) s) r"
  using try_all_loop_result [OF assms(1,2) distinct_source_candidates [OF assms(3)], of "[]"] assms(4)
  by (simp add: try_all_streams_def Let_def split: if_splits)

text \<open>The excluded sources are used only when no other source has the channel.\<close>

lemma excluded_last_resort:
  "i \<in> set (without_excluded excluded idxs) \<Longrightarrow> i \<in> set excluded \<Longrightarrow> set idxs \<subseteq> set excluded"
  by (auto simp: without_excluded_def Let_def filter_empty_conv split: if_splits)

lemma balance_loop_result:
  "arrival_ok w \<Longrightarrow> urls_ok (urls_of s) \<Longrightarrow> si_urls s \<noteq> None \<Longrightarrow>
     balance_loop n us w retries excluded s lap tested = Some (Inr r, t) \<Longrightarrow>
     \<exists>k \<ge> lap. result_ok us w k s (source_candidates excluded (get_m3u_indexes us) s) r"
proof (induction n arbitrary: lap tested)
  case 0
  then show ?case by (simp split: if_splits)
next
  case (Suc n)
  then show ?case
    using try_all_streams_result [OF Suc.prems(1-3), of us lap excluded tested r]
    by (auto split: if_splits option.splits prod.splits sum.splits dest!: Suc.IH intro: exI [of _ lap])
       (meson Suc_leD order_refl)+
qed

section \<open>The whole call\<close>

lemma restore_fallback_urls_ok [goinv]: "urls_ok (urls_of s) \<Longrightarrow> urls_ok (urls_of (restore_stream_fallback_url s))"
  by (auto simp: restore_stream_fallback_url_def Let_def urls_of_def [of "_\<lparr>si_urls := _\<rparr>"] intro!: urls_ok_update)

lemma load_all_urls_ok: "urls_ok (urls_of s) \<Longrightarrow> urls_ok (urls_of (fold (load_stream_urls files) is s))"
  by (induction "is" arbitrary: s) (simp_all add: load_stream_urls_ok)

lemma slug_stream_ok:
  assumes "parse_stream_info_by_slug us files cur new slug = Inr s"
  shows "urls_ok (urls_of s)"
  using assms
  by (auto simp: parse_stream_info_by_slug_def urls_of_def [of "_\<lparr>si_urls := Some []\<rparr>"] urls_ok_def [of "[]"]
      split: sum.splits intro!: restore_fallback_urls_ok load_all_urls_ok)

lemma fetch_backend_ok: "fetch_backend_urls r = Inr s \<Longrightarrow> r = Inr s \<and> si_urls s \<noteq> None"
  by (cases "si_urls s") (auto simp: fetch_backend_urls_def urls_of_def split: sum.splits if_splits)

lemma balance_total:
  assumes "lb_max_retries cfg \<noteq> 0" and "lb_max_retries cfg \<le> int fuel"
  shows "balance fuel us w cfg excluded by_slug p tested \<noteq> None"
  using assms balance_loop_total [of _ "lb_max_retries cfg" fuel 0 us w excluded tested]
  by (auto simp: balance_def dest!: fetch_backend_ok split: sum.splits)

lemma balance_serves_stored:
  assumes "arrival_ok w"
    and "balance fuel us w cfg excluded (parse_stream_info_by_slug us files cur new) p tested = Some (Inr r, t)"
  shows "\<exists>s lap. parse_stream_info_by_slug us files cur new (get_stream_id p) = Inr s \<and>
    result_ok us w lap s (source_candidates excluded (get_m3u_indexes us) s) r"
proof -
  from assms(2) obtain s where s: "fetch_backend_urls (parse_stream_info_by_slug us files cur new (get_stream_id p)) = Inr s"
    and loop: "balance_loop fuel us w (lb_max_retries cfg) excluded s 0 tested = Some (Inr r, t)"
    by (auto simp: balance_def split: sum.splits)
  from fetch_backend_ok [OF s] balance_loop_result [OF assms(1) _ _ loop] slug_stream_ok show ?thesis
    by blast
qed

text \<open>A negative bound on the laps means no attempt.\<close>

lemma balance_negative:
  assumes "lb_max_retries cfg < 0" and "fetch_backend_urls (by_slug (get_stream_id p)) = Inr s"
  shows "balance fuel us w cfg excluded by_slug p tested = Some (Inl Exhausted, tested)"
  using assms by (cases fuel) (auto simp: balance_def)

text \<open>The probes of one source may end in any order.\<close>

lemma arrival_irrelevant:
  assumes "arrival_ok w" and "arrival_ok (w\<lparr>lw_arrival := a\<rparr>)" and "distinct (map fst urls)"
  shows "try_stream_urls us (w\<lparr>lw_arrival := a\<rparr>) lap rnd idx urls tested = try_stream_urls us w lap rnd idx urls tested"
proof -
  let ?w = "w\<lparr>lw_arrival := a\<rparr>"
  have fields: "lw_do ?w = lw_do w" "lw_local ?w = lw_local w" "lw_peek ?w = lw_peek w"
    "lw_measure ?w = lw_measure w" "lw_cm ?w = lw_cm w" "lw_windows ?w = lw_windows w" "lw_parse ?w = lw_parse w"
    by simp_all
  have open_eq: "open_stream_response ?w = open_stream_response w"
    unfolding open_stream_response_def [abs_def] open_local_stream_response_def fields ..
  have probe_eq: "probe_candidate ?w = probe_candidate w"
    unfolding probe_candidate_def [abs_def] open_eq fields ..
  have refetch_eq: "refetch_candidates ?w lap idx cs t = refetch_candidates w lap idx cs t" for cs t
    by (induction cs arbitrary: t) (simp_all add: open_eq cong: sum.case_cong option.case_cong if_cong)
  have healthy_eq: "healthy_candidates us ?w lap rnd idx urls tested = healthy_candidates us w lap rnd idx urls tested"
    unfolding healthy_candidates_def probe_eq fields ..
  have collect: "List.map_filter snd (map (\<lambda>(ord, sub, url). (sub, probe_candidate w lap ord sub url)) xs) =
      List.map_filter (\<lambda>(ord, sub, url). probe_candidate w lap ord sub url) xs" for xs
    by (induction xs) (auto simp: List.map_filter_simps split: option.splits)
  show ?thesis
    unfolding try_stream_urls_def Let_def probe_eq fields refetch_eq collect
    unfolding healthy_candidates_def [symmetric]
    unfolding candidate_order_determined [OF assms(1,3)]
      candidate_order_determined [OF assms(2,3), of lap us rnd idx tested, unfolded healthy_eq] ..
qed

end
