(* ===== verification/Coordinator.thy ===== *)
theory Coordinator
  imports Concurrency LoadBalancer
begin

text \<open>
  The shared buffer of one stream, proxy/stream/buffer/coordinator.go, the media writer of
  coordinator_media.go, the registry of registry.go and the back-off of proxy/backoff.go.
  The ring is a list of slots with the index of the writer; a reader's position is an index.
  Every operation that holds the lock is one step of the state. The channels that wake
  readers have no state; a reader that must wait gets \<open>Blocked\<close> and asks again later.
  \<open>LastError\<close> is an atomic value that can hold nothing, a nil pointer or a chunk.
\<close>

section \<open>proxy/backoff.go\<close>

text \<open>Durations are 64-bit numbers of nanoseconds.\<close>

record backoff =
  bo_initial :: int
  bo_max :: int
  bo_current :: int

definition new_backoff :: "int \<Rightarrow> int \<Rightarrow> backoff" where
  "new_backoff i m = \<lparr>bo_initial = i, bo_max = m, bo_current = i\<rparr>"

definition backoff_next :: "backoff \<Rightarrow> int \<times> backoff" where
  "backoff_next b =
     (if bo_max b = 0 then (bo_initial b, b)
      else
        let d = wrap64 (bo_current b * 2)
        in (bo_current b, b\<lparr>bo_current := (if d > bo_max b then bo_max b else d)\<rparr>))"

definition backoff_reset :: "backoff \<Rightarrow> backoff" where
  "backoff_reset b = (if bo_max b > 0 then b\<lparr>bo_current := bo_initial b\<rparr> else b)"

section \<open>State\<close>

datatype stream_error = EOF | StreamTimeout | CtxError | ErrorText string

datatype coord_state = Active | Draining | Closed

record chunk =
  ck_data :: string
  ck_error :: "stream_error option"
  ck_status :: int
  ck_time :: int
  ck_seq :: int

datatype last_error = NothingStored | NilStored | ErrorStored chunk

record coordinator =
  co_slots :: "chunk list"
  co_pos :: nat
  co_clients :: int
  co_writer_signal :: bool
  co_writer_active :: bool
  co_resp_header :: "(string \<times> string) list option"
  co_last_error :: last_error
  co_setup_busy :: bool
  co_state :: coord_state
  co_lb_result :: "lb_result option"
  co_write_seq :: int

definition status_client_closed :: int where "status_client_closed = 0"
definition status_server_error :: int where "status_server_error = 1"
definition status_eof :: int where "status_eof = 2"
definition status_m3u8_parsed :: int where "status_m3u8_parsed = 3"
definition status_m3u8_parse_error :: int where "status_m3u8_parse_error = 4"
definition status_incompatible :: int where "status_incompatible = 5"
definition status_completed :: int where "status_completed = 6"

text \<open>\<open>newChunkData\<close>, and what \<open>Reset\<close> leaves.\<close>

definition new_chunk :: chunk where
  "new_chunk = \<lparr>ck_data = [], ck_error = None, ck_status = 0, ck_time = 0, ck_seq = 0\<rparr>"

definition new_stream_coordinator :: "stream_config \<Rightarrow> coordinator" where
  "new_stream_coordinator cfg =
     \<lparr>co_slots = replicate (nat (cfg_shared_buffer_size cfg)) new_chunk, co_pos = 0, co_clients = 0,
      co_writer_signal = False, co_writer_active = False, co_resp_header = None,
      co_last_error = NilStored, co_setup_busy = False, co_state = Active, co_lb_result = None,
      co_write_seq = 0\<rparr>"

definition ring_size :: "coordinator \<Rightarrow> nat" where "ring_size c = length (co_slots c)"

definition ring_next :: "coordinator \<Rightarrow> nat \<Rightarrow> nat" where
  "ring_next c p = (if Suc p = ring_size c then 0 else Suc p)"

section \<open>Clients and the writer's setup\<close>

definition try_start_writer_setup :: "coordinator \<Rightarrow> bool \<times> coordinator" where
  "try_start_writer_setup c =
     (if co_setup_busy c \<or> co_writer_active c \<or> co_lb_result c \<noteq> None then (False, c)
      else (True, c\<lparr>co_setup_busy := True\<rparr>))"

definition finish_writer_setup :: "coordinator \<Rightarrow> coordinator" where
  "finish_writer_setup c = (if \<not> co_setup_busy c then c else c\<lparr>co_setup_busy := False\<rparr>)"

text \<open>\<open>WaitForWriterSetup\<close> has to wait.\<close>

definition must_wait_for_setup :: "coordinator \<Rightarrow> bool" where
  "must_wait_for_setup c = co_setup_busy c"

definition register_client :: "coordinator \<Rightarrow> coordinator" where
  "register_client c =
     (let c1 = (if co_state c \<noteq> Active \<and> co_clients c = 0
                then c\<lparr>co_state := Active, co_last_error := NilStored\<rparr> else c)
      in c1\<lparr>co_clients := co_clients c1 + 1\<rparr>)"

definition clear_buffer :: "coordinator \<Rightarrow> coordinator" where
  "clear_buffer c = c\<lparr>co_slots := map (\<lambda>_. new_chunk) (co_slots c)\<rparr>"

definition unregister_client :: "coordinator \<Rightarrow> coordinator" where
  "unregister_client c =
     (let c1 = c\<lparr>co_clients := co_clients c - 1\<rparr> in
      if co_clients c1 = 0
      then clear_buffer (c1\<lparr>co_state := Draining, co_writer_signal := True, co_resp_header := None\<rparr>)
      else c1)"

definition has_client :: "coordinator \<Rightarrow> bool" where "has_client c = (co_clients c > 0)"

section \<open>Writing\<close>

text \<open>A ring without slots is a nil pointer: using it panics.\<close>

datatype write_result = Written | Refused | WritePanic

definition write_chunk :: "chunk \<Rightarrow> coordinator \<Rightarrow> write_result \<times> coordinator" where
  "write_chunk ch c =
     (if co_state c \<noteq> Active then (Refused, c)
      else if co_slots c = [] then (WritePanic, c)
      else
        let cur = \<lparr>ck_data = ck_data ch, ck_error = ck_error ch, ck_status = ck_status ch,
                   ck_time = ck_time ch, ck_seq = co_write_seq c + 1\<rparr>;
            c1 = c\<lparr>co_write_seq := co_write_seq c + 1, co_slots := (co_slots c)[co_pos c := cur],
                   co_pos := ring_next c (co_pos c)\<rparr>
        in (Written,
            if ck_error cur \<noteq> None \<or> ck_status cur \<noteq> 0
            then c1\<lparr>co_last_error := (if co_last_error c1 = NothingStored then ErrorStored cur else co_last_error c1),
                    co_state := Draining\<rparr>
            else c1))"

definition write_error :: "stream_error option \<Rightarrow> int \<Rightarrow> int \<Rightarrow> coordinator \<Rightarrow> coordinator" where
  "write_error err status now c =
     (snd (write_chunk (new_chunk\<lparr>ck_error := err, ck_status := status, ck_time := now\<rparr>) c))\<lparr>co_state := Closed\<rparr>"

section \<open>Reading\<close>

text \<open>The start of \<open>ReadChunks\<close>: the position it reads from (None is a nil position).\<close>

definition slot_stale :: "coordinator \<Rightarrow> nat \<Rightarrow> bool" where
  "slot_stale c p = (ck_seq (co_slots c ! p) < co_write_seq c - int (ring_size c))"

definition read_start :: "coordinator \<Rightarrow> nat option \<Rightarrow> nat" where
  "read_start c from =
     (let p = (case from of None \<Rightarrow> co_pos c | Some p \<Rightarrow> p) in if slot_stale c p then co_pos c else p)"

text \<open>The walk from a position to the writer's position: data and the last error seen.
  \<open>fuel\<close> is the size of the ring: the walk also ends where it began.\<close>

definition payload :: "chunk \<Rightarrow> chunk list" where
  "payload ch = (if ck_data ch = [] then [] else [new_chunk\<lparr>ck_data := ck_data ch, ck_time := ck_time ch\<rparr>])"

definition error_of :: "chunk \<Rightarrow> chunk option \<Rightarrow> chunk option" where
  "error_of ch found =
     (if ck_error ch \<noteq> None \<or> ck_status ch \<noteq> 0
      then Some (new_chunk\<lparr>ck_error := ck_error ch, ck_status := ck_status ch, ck_time := ck_time ch\<rparr>) else found)"

fun walk :: "nat \<Rightarrow> coordinator \<Rightarrow> nat \<Rightarrow> chunk list \<Rightarrow> chunk option \<Rightarrow> chunk list \<times> chunk option \<times> nat" where
  "walk 0 c p acc err = (acc, err, p)"
| "walk (Suc n) c p acc err =
     (if p = co_pos c then (acc, err, p)
      else walk n c (ring_next c p) (acc @ payload (co_slots c ! p)) (error_of (co_slots c ! p) err))"

datatype read_result = Blocked nat | ReadPanic | Chunks "chunk list" "chunk option" nat

text \<open>One look of \<open>ReadChunks\<close> at the ring, once its position is fixed.\<close>

definition read_poll :: "coordinator \<Rightarrow> nat \<Rightarrow> read_result" where
  "read_poll c p =
     (if p = co_pos c \<and> co_state c = Active then Blocked p
      else
        (case walk (ring_size c) c p [] None of
           (chunks, Some e, q) \<Rightarrow> Chunks chunks (Some e) q
         | (chunks, None, q) \<Rightarrow>
             Chunks chunks (case co_last_error c of ErrorStored e \<Rightarrow> Some e | _ \<Rightarrow> None) q))"

definition read_chunks :: "coordinator \<Rightarrow> nat option \<Rightarrow> read_result" where
  "read_chunks c from = (if co_slots c = [] then ReadPanic else read_poll c (read_start c from))"

section \<open>The read loop of a writer\<close>

text \<open>What one iteration of \<open>readAndWriteStream\<close> meets: the end of the context seen before the
  read or while it is under way, a read that does not return within the time-out, or the
  result of a read (data and error). An event carries the time at which the iteration starts
  and the time after the read. Time is in nanoseconds.\<close>

datatype read_event = ReadResult string "stream_error option" | ReadStalled | CtxDone | CtxDoneReading

definition get_timeout_duration :: "stream_config \<Rightarrow> int" where
  "get_timeout_duration cfg =
     (if cfg_timeout_seconds cfg = 0 then 60000000000
      else wrap64 (cfg_timeout_seconds cfg * 1000000000))"

definition should_timeout :: "stream_config \<Rightarrow> int \<Rightarrow> int \<Rightarrow> bool" where
  "should_timeout cfg now last_success =
     (cfg_timeout_seconds cfg > 0 \<and> now - last_success \<ge> get_timeout_duration cfg)"

definition should_retry :: "stream_config \<Rightarrow> int \<Rightarrow> bool" where
  "should_retry cfg timeout = (cfg_timeout_seconds cfg = 0 \<or> timeout > 0)"

text \<open>The loop, generic in the state that \<open>process\<close> changes; \<open>active\<close> is the loop condition and
  \<open>between\<close> what other threads do to the state before an iteration. None as the first
  component: no error. The outer option is None while the events last no longer than the
  loop.\<close>

fun read_and_write_stream ::
  "stream_config \<Rightarrow> ('s \<Rightarrow> bool) \<Rightarrow> (nat \<Rightarrow> 's \<Rightarrow> 's) \<Rightarrow> (int \<Rightarrow> string \<Rightarrow> 's \<Rightarrow> stream_error option \<times> 's) \<Rightarrow>
     (int \<times> int \<times> read_event) list \<Rightarrow> nat \<Rightarrow> int \<Rightarrow> 's \<Rightarrow> (stream_error option \<times> 's) option" where
  "read_and_write_stream cfg active between process [] zero ok_at st =
     (if active (between 0 st) then None else Some (None, between 0 st))"
| "read_and_write_stream cfg active between process ((start, now, ev) # evs) zero ok_at st0 =
     (let st = between (Suc (length evs)) st0;
          go = read_and_write_stream cfg active between process evs
      in if \<not> active st then Some (None, st)
         else if ev = CtxDone then Some (Some CtxError, st)
         else if should_timeout cfg start ok_at then Some (Some StreamTimeout, st)
         else
           (case ev of
              CtxDone \<Rightarrow> Some (Some CtxError, st)
            | CtxDoneReading \<Rightarrow> Some (Some CtxError, st)
            | ReadStalled \<Rightarrow>
                if cfg_timeout_seconds cfg > 0 then Some (Some StreamTimeout, st) else go zero ok_at st
            | ReadResult data err \<Rightarrow>
                if data = [] then
                  (if Suc zero > 10 then Some (Some EOF, st)
                   else
                     (case err of
                        None \<Rightarrow> go (Suc zero) ok_at st
                      | Some e \<Rightarrow>
                          if e = EOF then Some (Some EOF, st)
                          else if should_retry cfg (get_timeout_duration cfg) then go (Suc zero) ok_at st
                          else Some (Some e, st)))
                else if err = Some EOF then
                  (case process now data st of
                     (Some e, st') \<Rightarrow> Some (Some e, st') | (None, st') \<Rightarrow> Some (Some EOF, st'))
                else
                  (case err of
                     Some e \<Rightarrow>
                       if should_retry cfg (get_timeout_duration cfg) then go 0 now st
                       else Some (Some e, st)
                   | None \<Rightarrow>
                       (case process now data st of
                          (Some e, st') \<Rightarrow> Some (Some e, st') | (None, st') \<Rightarrow> go 0 now st'))))"

section \<open>The media writer\<close>

definition media_process :: "int \<Rightarrow> string \<Rightarrow> coordinator \<Rightarrow> stream_error option \<times> coordinator" where
  "media_process now data c = (None, snd (write_chunk (new_chunk\<lparr>ck_data := data, ck_time := now\<rparr>) c))"

definition end_media_writer :: "int \<Rightarrow> stream_error option \<Rightarrow> coordinator \<Rightarrow> coordinator" where
  "end_media_writer now err c =
     (case err of
        None \<Rightarrow> c
      | Some CtxError \<Rightarrow> write_error (Some CtxError) status_client_closed now c
      | Some StreamTimeout \<Rightarrow> write_error None status_server_error now c
      | Some EOF \<Rightarrow> write_error (Some EOF) status_eof now c
      | Some e \<Rightarrow> write_error (Some e) status_server_error now c)"

text \<open>\<open>StartMediaWriter\<close> on the coordinator, whose ring has slots, and the connection slots; \<open>cm_end\<close> is what other streams do to
  the slots while it runs. The outer option is that of the read loop.\<close>

definition begin_media_writer :: "lb_result \<Rightarrow> coordinator \<Rightarrow> coordinator" where
  "begin_media_writer r c =
     (finish_writer_setup (c\<lparr>co_lb_result := Some r\<rparr>))\<lparr>co_resp_header := None\<rparr>"

definition start_media_writer ::
  "utils_state \<Rightarrow> stream_config \<Rightarrow> (nat \<Rightarrow> coordinator \<Rightarrow> coordinator) \<Rightarrow> (cm_state \<Rightarrow> cm_state) \<Rightarrow>
     lb_result \<Rightarrow> (int \<times> int \<times> read_event) list \<Rightarrow> int \<Rightarrow> coordinator \<times> cm_state \<Rightarrow> (coordinator \<times> cm_state) option" where
  "start_media_writer us cfg between cm_end r evs now st =
     (let c1 = begin_media_writer r (fst st); (got, cm1) = update_concurrency us (lr_index r) True (snd st) in
      if \<not> got
      then Some ((write_error (Some (ErrorText ''concurrency limit reached'')) status_server_error now c1)
                   \<lparr>co_lb_result := None\<rparr>, cm1)
      else
        let c2 = c1\<lparr>co_resp_header := Some (hr_header (lr_response r))\<rparr> in
        map_option (\<lambda>(err, c3).
            ((end_media_writer now err c3)\<lparr>co_lb_result := None\<rparr>,
             snd (update_concurrency us (lr_index r) False (cm_end cm1))))
          (read_and_write_stream cfg (\<lambda>c. co_state c = Active) between media_process evs 0 now c2))"

section \<open>The registry\<close>

type_synonym registry = "(string \<times> coordinator) list"

definition get_or_create_coordinator :: "stream_config \<Rightarrow> string \<Rightarrow> registry \<Rightarrow> coordinator \<times> registry" where
  "get_or_create_coordinator cfg i reg =
     (case map_of reg i of
        Some c \<Rightarrow> (c, reg)
      | None \<Rightarrow> (new_stream_coordinator cfg, AList.update i (new_stream_coordinator cfg) reg))"

definition remove_coordinator :: "string \<Rightarrow> registry \<Rightarrow> registry" where
  "remove_coordinator i reg = AList.delete i reg"

definition registry_cleanup :: "registry \<Rightarrow> registry" where
  "registry_cleanup reg = filter (\<lambda>(i, c). co_clients c \<noteq> 0) reg"

definition registry_shutdown :: "registry \<Rightarrow> registry" where
  "registry_shutdown reg = []"

end
