(* ===== verification/CoordinatorFacts.thy ===== *)
theory CoordinatorFacts
  imports Coordinator
begin

text \<open>
  The ring as a bounded log. The abstract state is the list of all chunks written since the
  coordinator was made; the ring holds the last of them. \<open>bounded_log\<close> is the contract; the
  coordinator provides it. What a reader gets is stated on the abstract log, also for a
  reader that the writer has lapped.
\<close>

section \<open>The contract of a bounded log\<close>

text \<open>A reader at position \<open>pos r\<close> has seen the first \<open>r\<close> entries of the log \<open>h\<close>. \<open>read\<close> yields the
  last entries, as many as the positions are apart.\<close>

locale bounded_log =
  fixes ok :: "'s \<Rightarrow> 'e list \<Rightarrow> bool"
    and append :: "'e \<Rightarrow> 's \<Rightarrow> 's"
    and read :: "'s \<Rightarrow> nat \<Rightarrow> 'e list"
    and capacity :: "'s \<Rightarrow> nat"
    and valid :: "'e \<Rightarrow> bool"
  assumes capacity_pos: "ok s h \<Longrightarrow> 0 < capacity s"
    and append_ok: "ok s h \<Longrightarrow> valid e \<Longrightarrow> ok (append e s) (h @ [e])"
    and append_capacity: "ok s h \<Longrightarrow> valid e \<Longrightarrow> capacity (append e s) = capacity s"
    and read_suffix: "ok s h \<Longrightarrow> r \<le> length h \<Longrightarrow>
      read s (r mod capacity s) = drop (length h - (length h - r) mod capacity s) h"
begin

fun append_all :: "'e list \<Rightarrow> 's \<Rightarrow> 's" where
  "append_all [] s = s"
| "append_all (e # es) s = append_all es (append e s)"

lemma append_all_ok: "ok s h \<Longrightarrow> list_all valid es \<Longrightarrow> ok (append_all es s) (h @ es)"
proof (induction es arbitrary: s h)
  case Nil
  then show ?case by simp
next
  case (Cons e es)
  then show ?case using Cons.IH [OF append_ok [OF Cons.prems(1), of e]] Cons.prems by simp
qed

lemma append_all_capacity: "ok s h \<Longrightarrow> list_all valid es \<Longrightarrow> capacity (append_all es s) = capacity s"
proof (induction es arbitrary: s h)
  case Nil
  then show ?case by simp
next
  case (Cons e es)
  then show ?case using Cons.IH [OF append_ok [OF Cons.prems(1), of e]] append_capacity [OF Cons.prems(1), of e] Cons.prems by simp
qed

text \<open>A reader that keeps up gets exactly what has been written since.\<close>

lemma reader_in_time:
  assumes "ok s h" and "list_all valid es" and "length es < capacity s"
  shows "read (append_all es s) (length h mod capacity s) = es"
proof -
  have ok: "ok (append_all es s) (h @ es)" by (rule append_all_ok [OF assms(1,2)])
  have "read (append_all es s) (length h mod capacity (append_all es s)) =
      drop (length (h @ es) - (length (h @ es) - length h) mod capacity (append_all es s)) (h @ es)"
    by (rule read_suffix [OF ok]) simp
  then show ?thesis using assms(3) by (simp add: append_all_capacity [OF assms(1,2)])
qed

text \<open>A reader that is lapped loses a whole number of rounds.\<close>

lemma reader_lapped:
  assumes "ok s h" and "list_all valid es" and "length es = k * capacity s + j" and "j < capacity s"
  shows "read (append_all es s) (length h mod capacity s) = drop (k * capacity s) es"
proof -
  have ok: "ok (append_all es s) (h @ es)" by (rule append_all_ok [OF assms(1,2)])
  have "read (append_all es s) (length h mod capacity (append_all es s)) =
      drop (length (h @ es) - (length (h @ es) - length h) mod capacity (append_all es s)) (h @ es)"
    by (rule read_suffix [OF ok]) simp
  also have "(length (h @ es) - length h) mod capacity (append_all es s) = j"
    using assms(3,4) by (simp add: append_all_capacity [OF assms(1,2)])
  finally show ?thesis using assms(3) by (simp add: append_all_capacity [OF assms(1,2)])
qed

end

section \<open>The coordinator's ring\<close>

text \<open>An entry of the log is a chunk without error, as a reader gets it. \<open>ring_log c h\<close>: an
  active coordinator whose slots hold the last writes of \<open>h\<close> with their numbers, and nothing
  where there has been no write.\<close>

definition data_chunk :: "string \<times> int \<Rightarrow> chunk" where
  "data_chunk e = new_chunk\<lparr>ck_data := fst e, ck_time := snd e\<rparr>"

definition ring_log :: "coordinator \<Rightarrow> (string \<times> int) list \<Rightarrow> bool" where
  "ring_log c h =
     (0 < ring_size c \<and> co_state c = Active \<and> co_pos c = length h mod ring_size c \<and>
      co_write_seq c = int (length h) \<and> (\<forall>e. co_last_error c \<noteq> ErrorStored e) \<and>
      (\<forall>i < length h. length h \<le> i + ring_size c \<longrightarrow>
         co_slots c ! (i mod ring_size c) = (data_chunk (h ! i))\<lparr>ck_seq := int i + 1\<rparr>) \<and>
      (\<forall>e \<in> set h. fst e \<noteq> []) \<and> (\<forall>ch \<in> set (co_slots c). 0 \<le> ck_seq ch))"

definition write_data :: "string \<times> int \<Rightarrow> coordinator \<Rightarrow> coordinator" where
  "write_data e c = snd (write_chunk (data_chunk e) c)"

lemma ring_next_mod: "0 < ring_size c \<Longrightarrow> ring_next c (i mod ring_size c) = Suc i mod ring_size c"
  by (simp add: ring_next_def mod_Suc)

lemma write_data_simps:
  assumes "ring_log c h"
  shows "write_chunk (data_chunk e) c =
    (Written, c\<lparr>co_write_seq := co_write_seq c + 1,
       co_slots := (co_slots c)[co_pos c := (data_chunk e)\<lparr>ck_seq := co_write_seq c + 1\<rparr>],
       co_pos := ring_next c (co_pos c)\<rparr>)"
  using assms by (auto simp: ring_log_def write_chunk_def data_chunk_def new_chunk_def ring_size_def Let_def)

lemma mod_window: "i < l \<Longrightarrow> l < i + n \<Longrightarrow> i mod n \<noteq> l mod (n :: nat)"
proof
  assume a: "i < l" "l < i + n" "i mod n = l mod n"
  then have "n dvd l - i" by (metis mod_eq_dvd_iff_nat less_imp_le)
  moreover have "0 < l - i" "l - i < n" using a by auto
  ultimately show False by (meson nat_dvd_not_less)
qed

lemma ring_log_write:
  assumes "ring_log c h" and "fst e \<noteq> []"
  shows "ring_log (write_data e c) (h @ [e])" and "ring_size (write_data e c) = ring_size c"
proof -
  let ?n = "ring_size c"
  have n: "0 < ?n" "co_pos c = length h mod ?n" and seq: "co_write_seq c = int (length h)"
    using assms(1) by (auto simp: ring_log_def)
  define d where "d = write_data e c"
  have d: "d = c\<lparr>co_write_seq := co_write_seq c + 1,
       co_slots := (co_slots c)[co_pos c := (data_chunk e)\<lparr>ck_seq := co_write_seq c + 1\<rparr>],
       co_pos := ring_next c (co_pos c)\<rparr>"
    by (simp add: d_def write_data_def write_data_simps [OF assms(1)])
  show size: "ring_size (write_data e c) = ?n"
    unfolding d_def [symmetric] by (simp add: d ring_size_def)
  have pos: "co_pos d = Suc (length h) mod ?n" using n by (simp add: d ring_next_mod)
  have slots: "co_slots d ! (i mod ?n) = (data_chunk ((h @ [e]) ! i))\<lparr>ck_seq := int i + 1\<rparr>"
    if i: "i < Suc (length h)" "Suc (length h) \<le> i + ?n" for i
  proof (cases "i = length h")
    case True
    have "length h mod ?n < length (co_slots c)" using n(1) by (simp add: ring_size_def)
    then show ?thesis using True n(2) seq by (simp add: d)
  next
    case False
    then have "i mod ?n \<noteq> length h mod ?n" using i by (intro mod_window) auto
    then have "co_slots d ! (i mod ?n) = co_slots c ! (i mod ?n)" using n(2) by (simp add: d)
    then show ?thesis using assms(1) i False by (auto simp: ring_log_def nth_append)
  qed
  show "ring_log (write_data e c) (h @ [e])"
    unfolding d_def [symmetric] ring_log_def
    using assms pos slots size [unfolded d_def [symmetric]] seq
    by (auto simp: ring_log_def d dest!: set_update_subset_insert [THEN subsetD])
qed

text \<open>The walk over the last \<open>d\<close> writes.\<close>

lemma payload_data: "fst e \<noteq> [] \<Longrightarrow> payload ((data_chunk e)\<lparr>ck_seq := x\<rparr>) = [data_chunk e]"
  by (simp add: payload_def data_chunk_def new_chunk_def)

lemma error_of_data: "error_of ((data_chunk e)\<lparr>ck_seq := x\<rparr>) err = err"
  by (simp add: error_of_def data_chunk_def new_chunk_def)

lemma walk_suffix:
  assumes log: "ring_log c h"
  shows "d \<le> length h \<Longrightarrow> d < ring_size c \<Longrightarrow> d \<le> fuel \<Longrightarrow>
    walk fuel c ((length h - d) mod ring_size c) acc None =
      (acc @ map data_chunk (drop (length h - d) h), None, co_pos c)"
proof (induction d arbitrary: fuel acc)
  case 0
  then show ?case using log by (cases fuel) (simp_all add: ring_log_def)
next
  case (Suc d)
  let ?n = "ring_size c" and ?i = "length h - Suc d"
  obtain f where f: "fuel = Suc f" using Suc.prems(3) by (cases fuel) auto
  have i: "?i < length h" "Suc ?i = length h - d" using Suc.prems(1) by auto
  have pos: "co_pos c = length h mod ?n" "0 < ?n" using log by (auto simp: ring_log_def)
  have "?i mod ?n \<noteq> co_pos c" unfolding pos(1) using i(1) Suc.prems by (intro mod_window) auto
  moreover have "length h \<le> ?i + ?n" using Suc.prems(1,2) by simp
  then have slot: "co_slots c ! (?i mod ?n) = (data_chunk (h ! ?i))\<lparr>ck_seq := int ?i + 1\<rparr>"
    using log i(1) unfolding ring_log_def by blast
  moreover have "fst (h ! ?i) \<noteq> []" using log i(1) unfolding ring_log_def by (meson nth_mem)
  moreover have "drop ?i h = h ! ?i # drop (length h - d) h"
    using i by (metis Cons_nth_drop_Suc)
  moreover have "ring_next c (?i mod ?n) = (length h - d) mod ?n"
    using ring_next_mod [OF pos(2)] i(2) by metis
  ultimately show ?case
    using Suc.IH [of f "acc @ [data_chunk (h ! ?i)]"] Suc.prems f
    by (simp add: payload_data error_of_data)
qed

text \<open>The test for a stale position: the slot of a written entry that is still in the ring is
  never found stale.\<close>

lemma written_slot_not_stale:
  assumes "ring_log c h" and "i < length h" and "length h \<le> i + ring_size c"
  shows "\<not> slot_stale c (i mod ring_size c)"
  using assms by (auto simp: ring_log_def slot_stale_def)

lemma position_has_written_slot:
  assumes "0 < n" and "(n :: nat) \<le> l"
  shows "\<exists>i. i < l \<and> l \<le> i + n \<and> i mod n = r mod n"
proof -
  have r: "r mod n < n" using assms(1) by simp
  define k m where "k = (l - 1 - r mod n) div n" and "m = (l - 1 - r mod n) mod n"
  have le: "r mod n \<le> l - 1" using r assms(2) by simp
  have "l - 1 - r mod n = k * n + m" by (simp add: k_def m_def)
  moreover have "m < n" using assms(1) by (simp add: m_def)
  ultimately have "r mod n + k * n < l \<and> l \<le> r mod n + k * n + n"
    using le assms by linarith
  moreover have "(r mod n + k * n) mod n = r mod n" by simp
  ultimately show ?thesis by blast
qed

text \<open>No position is ever found stale: a reader that the writer has lapped keeps its
  position.\<close>

lemma not_stale:
  assumes log: "ring_log c h"
  shows "\<not> slot_stale c (r mod ring_size c)"
proof -
  let ?p = "r mod ring_size c"
  have n: "0 < ring_size c" using log by (simp add: ring_log_def)
  show ?thesis
  proof (cases "ring_size c \<le> length h")
    case True
    then obtain i where "i < length h" "length h \<le> i + ring_size c" "i mod ring_size c = ?p"
      using position_has_written_slot [OF n] by blast
    with written_slot_not_stale [OF log, of i] show ?thesis by simp
  next
    case False
    have "co_slots c ! ?p \<in> set (co_slots c)" using n by (simp add: ring_size_def)
    then have "0 \<le> ck_seq (co_slots c ! ?p)" using log by (simp add: ring_log_def)
    then show ?thesis using log False by (simp add: slot_stale_def ring_log_def)
  qed
qed

lemma never_stale: "ring_log c h \<Longrightarrow> read_start c (Some (r mod ring_size c)) = r mod ring_size c"
  using not_stale by (simp add: read_start_def)

definition received :: "read_result \<Rightarrow> (string \<times> int) list" where
  "received r = (case r of Chunks cs _ _ \<Rightarrow> map (\<lambda>ch. (ck_data ch, ck_time ch)) cs | _ \<Rightarrow> [])"

definition ring_read :: "coordinator \<Rightarrow> nat \<Rightarrow> (string \<times> int) list" where
  "ring_read c p = received (read_chunks c (Some p))"

lemma mod_behind:
  assumes "r \<le> (l :: nat)" and "0 < n"
  shows "r mod n = (l - (l - r) mod n) mod n"
proof -
  define q m where "q = (l - r) div n" and "m = (l - r) mod n"
  have "l - r = q * n + m" by (simp add: q_def m_def)
  then have "l - m = r + q * n" using assms(1) by linarith
  then show ?thesis by (simp add: m_def [symmetric])
qed

lemma ring_read_suffix:
  assumes log: "ring_log c h" and r: "r \<le> length h"
  shows "ring_read c (r mod ring_size c) = drop (length h - (length h - r) mod ring_size c) h"
proof -
  let ?n = "ring_size c" and ?d = "(length h - r) mod ring_size c"
  have n: "0 < ?n" "co_pos c = length h mod ?n" "co_state c = Active" using log by (auto simp: ring_log_def)
  have read: "ring_read c (r mod ?n) = received (read_poll c (r mod ?n))"
    using n(1) never_stale [OF log, of r] by (auto simp: ring_read_def read_chunks_def ring_size_def)
  have d: "?d \<le> length h" "?d < ?n" "?d \<le> ?n"
    using n(1) le_trans [OF mod_less_eq_dividend [of "length h - r" ?n] diff_le_self]
      mod_less_divisor [OF n(1), of "length h - r"] by auto
  have p: "r mod ?n = (length h - ?d) mod ?n" using mod_behind [OF r n(1)] .
  have le: "co_last_error c \<noteq> ErrorStored e" for e using log by (simp add: ring_log_def)
  show ?thesis
  proof (cases "r mod ?n = co_pos c")
    case True
    then have "r mod ?n = length h mod ?n" using n(2) by simp
    then have "?d = 0" using r by (metis mod_eq_dvd_iff_nat dvd_eq_mod_eq_0)
    then show ?thesis using True n(3) read by (simp add: received_def read_poll_def)
  next
    case False
    have "walk ?n c (r mod ?n) [] None = (map data_chunk (drop (length h - ?d) h), None, co_pos c)"
      unfolding p using walk_suffix [OF log d(1,2,3), of "[]"] by simp
    then have "read_poll c (r mod ?n) = Chunks (map data_chunk (drop (length h - ?d) h)) None (co_pos c)"
      using False le by (simp add: read_poll_def split: last_error.splits)
    then show ?thesis by (simp add: read received_def comp_def data_chunk_def new_chunk_def)
  qed
qed

text \<open>The coordinator provides the contract, for chunks that are not empty.\<close>

interpretation ring: bounded_log ring_log write_data ring_read ring_size "\<lambda>e. fst e \<noteq> []"
proof unfold_locales
  fix s h e r
  show "ring_log s h \<Longrightarrow> 0 < ring_size s" by (simp add: ring_log_def)
  show "ring_log s h \<Longrightarrow> fst e \<noteq> [] \<Longrightarrow> ring_log (write_data e s) (h @ [e])" by (rule ring_log_write(1))
  show "ring_log s h \<Longrightarrow> fst e \<noteq> [] \<Longrightarrow> ring_size (write_data e s) = ring_size s" by (rule ring_log_write(2))
  show "ring_log s h \<Longrightarrow> r \<le> length h \<Longrightarrow>
      ring_read s (r mod ring_size s) = drop (length h - (length h - r) mod ring_size s) h"
    by (rule ring_read_suffix)
qed

text \<open>The writes of a writer, one after the other.\<close>

fun write_all :: "(string \<times> int) list \<Rightarrow> coordinator \<Rightarrow> coordinator" where
  "write_all [] c = c"
| "write_all (e # es) c = write_all es (write_data e c)"

lemma write_all_eq: "write_all es c = ring.append_all es c"
  by (induction es c rule: write_all.induct) simp_all

lemma new_coordinator_log:
  "0 < cfg_shared_buffer_size cfg \<Longrightarrow> ring_log (new_stream_coordinator cfg) []"
  by (simp add: ring_log_def new_chunk_def new_stream_coordinator_def ring_size_def)

lemma ring_pos: "ring_log c h \<Longrightarrow> co_pos c = length h mod ring_size c"
  by (simp add: ring_log_def)

lemma write_all_size: "ring_log c h \<Longrightarrow> list_all (\<lambda>e. fst e \<noteq> []) es \<Longrightarrow> ring_size (write_all es c) = ring_size c"
  unfolding write_all_eq by (rule ring.append_all_capacity)

text \<open>A coordinator from its start: any writes, then those a reader has not seen.\<close>

lemma reader_after_writes:
  assumes size: "0 < cfg_shared_buffer_size cfg" and es: "list_all (\<lambda>e. fst e \<noteq> []) (h @ es)"
    and len: "int (length es) = int k * cfg_shared_buffer_size cfg + j" "0 \<le> j" "j < cfg_shared_buffer_size cfg"
  shows "received (read_chunks (write_all es (write_all h (new_stream_coordinator cfg)))
      (Some (co_pos (write_all h (new_stream_coordinator cfg))))) = drop (k * nat (cfg_shared_buffer_size cfg)) es"
    and "\<not> slot_stale (write_all es (write_all h (new_stream_coordinator cfg)))
      (co_pos (write_all h (new_stream_coordinator cfg)))"
proof -
  define n where "n = nat (cfg_shared_buffer_size cfg)"
  define c where "c = write_all h (new_stream_coordinator cfg)"
  have h: "list_all (\<lambda>e. fst e \<noteq> []) h" "list_all (\<lambda>e. fst e \<noteq> []) es" using es by auto
  have log: "ring_log c h"
    using ring.append_all_ok [OF new_coordinator_log [OF size] h(1)] by (simp add: c_def write_all_eq)
  have "ring_size c = ring_size (new_stream_coordinator cfg)"
    unfolding c_def by (rule write_all_size [OF new_coordinator_log [OF size] h(1)])
  then have n: "ring_size c = n" by (simp add: n_def new_stream_coordinator_def ring_size_def)
  have len': "length es = k * ring_size c + nat j" "nat j < ring_size c"
    using len size by (simp_all add: n n_def flip: of_nat_eq_iff [where 'a = int])
  have "ring_read (ring.append_all es c) (length h mod ring_size c) = drop (k * ring_size c) es"
    by (rule ring.reader_lapped [OF log h(2) len'])
  then show "received (read_chunks (write_all es (write_all h (new_stream_coordinator cfg)))
      (Some (co_pos (write_all h (new_stream_coordinator cfg))))) = drop (k * nat (cfg_shared_buffer_size cfg)) es"
    using ring_pos [OF log] n by (simp add: c_def write_all_eq ring_read_def n_def)
  have log': "ring_log (write_all es c) (h @ es)"
    unfolding write_all_eq by (rule ring.append_all_ok [OF log h(2)])
  show "\<not> slot_stale (write_all es (write_all h (new_stream_coordinator cfg)))
      (co_pos (write_all h (new_stream_coordinator cfg)))"
    using not_stale [OF log', of "length h"] ring_pos [OF log] write_all_size [OF log h(2)] by (simp add: c_def)
qed

section \<open>Errors and clients\<close>

text \<open>\<open>LastError\<close> starts as a stored nil pointer, which is not the absence of a value: no
  operation ever records an error there.\<close>

lemma write_keeps_no_error:
  "co_last_error c = NilStored \<Longrightarrow> co_last_error (snd (write_chunk ch c)) = NilStored"
  by (auto simp: write_chunk_def Let_def)

lemma ops_keep_no_error:
  "co_last_error c = NilStored \<Longrightarrow> co_last_error (write_error e st now c) = NilStored"
  "co_last_error c = NilStored \<Longrightarrow> co_last_error (register_client c) = NilStored"
  "co_last_error c = NilStored \<Longrightarrow> co_last_error (unregister_client c) = NilStored"
  by (simp_all add: write_error_def write_keeps_no_error register_client_def unregister_client_def
      clear_buffer_def Let_def)

text \<open>A coordinator operation by other threads.\<close>

datatype coord_op = Register | Unregister | WriteChunk chunk | WriteError "stream_error option" int int
  | StartSetup | FinishSetup

definition run_op :: "coord_op \<Rightarrow> coordinator \<Rightarrow> coordinator" where
  "run_op op c =
     (case op of
        Register \<Rightarrow> register_client c
      | Unregister \<Rightarrow> unregister_client c
      | WriteChunk ch \<Rightarrow> snd (write_chunk ch c)
      | WriteError e st now \<Rightarrow> write_error e st now c
      | StartSetup \<Rightarrow> snd (try_start_writer_setup c)
      | FinishSetup \<Rightarrow> finish_writer_setup c)"

inductive coord_reach :: "stream_config \<Rightarrow> coordinator \<Rightarrow> bool" for cfg where
  init: "coord_reach cfg (new_stream_coordinator cfg)"
| step: "coord_reach cfg c \<Longrightarrow> coord_reach cfg (run_op op c)"

inductive_simps coord_reach_simps: "coord_reach cfg c"

lemma run_op_no_error: "co_last_error c = NilStored \<Longrightarrow> co_last_error (run_op op c) = NilStored"
  by (cases op)
     (simp_all add: run_op_def ops_keep_no_error write_keeps_no_error try_start_writer_setup_def
        finish_writer_setup_def)

lemma reach_no_last_error: "coord_reach cfg c \<Longrightarrow> co_last_error c = NilStored"
  by (induction rule: coord_reach.induct) (simp_all add: new_stream_coordinator_def run_op_no_error)

lemma write_chunk_size: "ring_size (snd (write_chunk ch c)) = ring_size c"
  by (simp add: write_chunk_def ring_size_def Let_def)

lemma run_op_size: "ring_size (run_op op c) = ring_size c"
  using write_chunk_size
  by (cases op)
     (simp_all add: run_op_def try_start_writer_setup_def finish_writer_setup_def register_client_def
        unregister_client_def clear_buffer_def write_error_def ring_size_def Let_def)

lemma reach_size: "coord_reach cfg c \<Longrightarrow> ring_size c = nat (cfg_shared_buffer_size cfg)"
  by (induction rule: coord_reach.induct) (simp_all add: new_stream_coordinator_def ring_size_def run_op_size [unfolded ring_size_def])

text \<open>With no slots (a configured size of zero) the first write panics.\<close>

lemma zero_size_panics:
  "cfg_shared_buffer_size cfg = 0 \<Longrightarrow> coord_reach cfg c \<Longrightarrow> co_state c = Active \<Longrightarrow> fst (write_chunk ch c) = WritePanic"
  using reach_size [of cfg c] by (simp add: write_chunk_def ring_size_def)

text \<open>At most one setup of a writer is in progress.\<close>

lemma setup_exclusive:
  "fst (try_start_writer_setup c) \<Longrightarrow> \<not> fst (try_start_writer_setup (snd (try_start_writer_setup c)))"
  by (auto simp: try_start_writer_setup_def split: if_splits)

lemma setup_until_finish:
  "co_setup_busy c \<Longrightarrow> list_all (\<lambda>op. op \<noteq> FinishSetup) ops \<Longrightarrow>
     co_setup_busy (fold run_op ops c) \<and> \<not> fst (try_start_writer_setup (fold run_op ops c))"
proof (induction ops arbitrary: c)
  case Nil
  then show ?case by (simp add: try_start_writer_setup_def)
next
  case (Cons op ops)
  have "co_setup_busy (run_op op c)"
    using Cons.prems
    by (cases op) (auto simp: run_op_def try_start_writer_setup_def register_client_def
        unregister_client_def clear_buffer_def write_error_def write_chunk_def Let_def)
  then show ?case using Cons by simp
qed

section \<open>The writer\<close>

text \<open>A chunk that carries an error or a status ends the active state; nothing is written after.\<close>

lemma write_after_error:
  "co_state c = Active \<Longrightarrow> co_slots c \<noteq> [] \<Longrightarrow> ck_error ch \<noteq> None \<or> ck_status ch \<noteq> 0 \<Longrightarrow>
     fst (write_chunk ch2 (snd (write_chunk ch c))) = Refused"
  by (auto simp: write_chunk_def Let_def)

lemma write_error_closes: "co_state (write_error e st now c) = Closed"
  by (simp add: write_error_def)

text \<open>The loop never returns an error that a read has returned: such errors are retried (or
  counted as empty reads). The three ends are the end of the body, a time-out and the end of
  the context, besides what processing returns.\<close>

definition loop_end_ok :: "(stream_error option \<times> 's) option \<Rightarrow> bool" where
  "loop_end_ok r = (case r of Some (Some e, _) \<Rightarrow> e \<in> {EOF, StreamTimeout, CtxError} | _ \<Rightarrow> True)"

lemma read_loop_ends:
  assumes process: "\<And>now d s. fst (process now d s) = None"
    and retry: "should_retry cfg (get_timeout_duration cfg)"
  shows "loop_end_ok (read_and_write_stream cfg active between process evs zero ok_at st)"
proof (induction evs arbitrary: zero ok_at st)
  case Nil
  then show ?case by (simp add: loop_end_ok_def)
next
  case (Cons p evs)
  obtain start now ev where p: "p = (start, now, ev)" by (cases p)
  have none: "process now d s = (x, t) \<Longrightarrow> x = None" for d s x t
    using process [of now d s] by simp
  show ?case
  proof (cases ev)
    case (ReadResult data err)
    show ?thesis
      using Cons.IH retry
      by (cases err) (auto simp: p ReadResult Let_def loop_end_ok_def [of "Some _"] loop_end_ok_def [of None]
          split: prod.splits dest!: none)
  qed (use Cons.IH in \<open>auto simp: p Let_def loop_end_ok_def [of "Some _"]\<close>)
qed

text \<open>The media writer gives its slot back however it ends, and changes no count when it gets
  none.\<close>

lemma media_writer_slot:
  assumes "cm_ok us cm" and "get_count cm (lr_index r) < cm_limit us cm (lr_index r)"
    and "cm_ok us (cm_end (snd (update_concurrency us (lr_index r) True cm)))"
    and "start_media_writer us cfg between cm_end r evs now (c, cm) = Some (c', cm')"
  shows "get_count cm' =
    (let n = get_count (cm_end (snd (update_concurrency us (lr_index r) True cm)))
     in n(lr_index r := max 0 (n (lr_index r) - 1)))"
proof -
  have "fst (update_concurrency us (lr_index r) True cm)"
    using cm.acquire_granted [OF assms(1)] assms(2) by blast
  with assms(4) have "cm' = snd (update_concurrency us (lr_index r) False (cm_end (snd (update_concurrency us (lr_index r) True cm))))"
    by (auto simp: start_media_writer_def Let_def split: prod.splits)
  then show ?thesis
    using cm.release_used [OF assms(3), of "lr_index r"] cm.ok_bounds [OF assms(3), of "lr_index r"]
    by (auto simp: Let_def)
qed

lemma media_writer_refused:
  assumes "cm_ok us cm" and "cm_limit us cm (lr_index r) \<le> get_count cm (lr_index r)"
    and "start_media_writer us cfg between cm_end r evs now (c, cm) = Some (c', cm')"
  shows "get_count cm' = get_count cm \<and> co_state c' = Closed \<and> co_lb_result c' = None"
proof -
  have no: "\<not> fst (update_concurrency us (lr_index r) True cm)"
    using cm.acquire_granted [OF assms(1), of "lr_index r"] assms(2) by auto
  then have "get_count (snd (update_concurrency us (lr_index r) True cm)) = get_count cm"
    using cm.acquire_used [OF assms(1), of "lr_index r"] by simp
  then show ?thesis
    using no assms(3) write_error_closes by (auto simp: start_media_writer_def Let_def split: prod.splits)
qed

end
