(* ===== verification/ChannelIcons.thy ===== *)
theory ChannelIcons
  imports GoUrl Base64
begin

text \<open>
  The search for a channel's logo among local picture files, sourceproc/channel_icons.go,
  and the logo parser of utils/middlewares.go it shares with the playlist parser. The
  directory walk is an input: the files under the scanned directory as pairs (name, path
  relative to the root), None when the walk fails.
\<close>

section \<open>utils/middlewares.go\<close>

definition general_parser :: "string \<Rightarrow> string" where
  "general_parser v =
     (if has_prefix v dquote \<and> has_suffix v dquote then trim_by (\<lambda>c. c = CHR 0x22) v else v)"

definition tvg_name_parser :: "go_lib \<Rightarrow> environ \<Rightarrow> string \<Rightarrow> string" where
  "tvg_name_parser lib env v =
     (let f = os_getenv env ''TITLE_SUBSTR_FILTER'';
          v1 = (if f = [] then v
                else (case lib_regex_erase lib f of None \<Rightarrow> v | Some erase \<Rightarrow> erase v))
      in general_parser v1)"

text \<open>\<open>TvgIdParser\<close>, \<open>TvgChNoParser\<close>, \<open>TvgTypeParser\<close> and \<open>GroupTitleParser\<close> are \<open>GeneralParser\<close>.\<close>

definition tvg_logo_parser :: "go_lib \<Rightarrow> environ \<Rightarrow> string \<Rightarrow> string" where
  "tvg_logo_parser lib env v0 =
     (let v = general_parser v0 in
      (case lib_url_parse lib v of
         None \<Rightarrow> v
       | Some u \<Rightarrow>
           if (u_scheme u = ''http'' \<or> u_scheme u = ''https'') \<and> u_host u \<noteq> [] then
             (case lib_join_path lib (os_getenv env ''BASE_URL'') [''/a/'' @ url_encode v] of
                None \<Rightarrow> v | Some final \<Rightarrow> final)
           else v))"

section \<open>Keys\<close>

record icon_candidate =
  ic_key :: string
  ic_tokens :: "string list"
  ic_path :: string
  ic_priority :: int

definition icon_replacements :: "(string \<times> string) list" where
  "icon_replacements =
     [(''&'', '' and ''), (''+'', '' plus ''), (''@'', '' at ''), ([CHR 0x27], []),
      (''.'', '' ''), (''_'', '' ''), (''/'', '' ''), ([CHR 0x5C], '' ''), (''-'', '' ''),
      ('':'', '' ''), (''('', '' ''), ('')'', '' ''), (''['', '' ''), ('']'', '' '')]"

definition normalize_channel_icon_text :: "string \<Rightarrow> string" where
  "normalize_channel_icon_text raw =
     (let v = trim_space (to_lower raw) in
      if v = [] then []
      else
        let t = map (\<lambda>c. if is_letter c \<or> is_digit c then c else CHR '' '')
                  (replace_pairs icon_replacements v)
        in join_str ''-'' (Prelude.fields t))"

definition split_normalized_channel_icon_tokens :: "string \<Rightarrow> string list" where
  "split_normalized_channel_icon_tokens raw =
     (let n = normalize_channel_icon_text raw in if n = [] then [] else split_char (CHR ''-'') n)"

definition normalize_logo_candidate_key :: "string \<Rightarrow> string" where
  "normalize_logo_candidate_key raw =
     (let ts = split_normalized_channel_icon_tokens raw in
      if ts = [] then []
      else join_str ''-'' (if last ts = ''us'' \<or> last ts = ''usa'' then butlast ts else ts))"

definition is_channel_icon_noise_token :: "string \<Rightarrow> bool" where
  "is_channel_icon_noise_token t =
     (t \<in> set [''us'', ''usa'', ''hd'', ''sd'', ''uhd'', ''fhd'', ''4k'', ''1080p'', ''720p'',
               ''east'', ''west'', ''north'', ''south'', ''central'', ''backup'', ''feed''])"

definition trim_trailing_noise_tokens :: "string list \<Rightarrow> string list" where
  "trim_trailing_noise_tokens ts = rev (dropWhile is_channel_icon_noise_token (rev ts))"

text \<open>The closure \<open>add\<close> of \<open>buildChannelIconLookupKeys\<close>. Its loop ends after two rounds, since a
  second trim of noise tokens removes nothing.\<close>

function add_icon_keys :: "string list \<Rightarrow> string list \<Rightarrow> string list" where
  "add_icon_keys current keys =
     (if current = [] then keys
      else
        let key = join_str ''-'' current;
            keys' = (if key \<in> set keys then keys else keys @ [key]);
            nxt = trim_trailing_noise_tokens current
        in if length nxt = length current then keys' else add_icon_keys nxt keys')"
  by pat_completeness auto
termination
proof (relation "measure (length \<circ> fst)")
  fix current keys :: "string list" and key :: string and keys' nxt :: "string list"
  assume "nxt = trim_trailing_noise_tokens current" and "length nxt \<noteq> length current"
  moreover have "length (trim_trailing_noise_tokens current) \<le> length current"
    using length_dropWhile_le [of is_channel_icon_noise_token "rev current"]
    by (simp add: trim_trailing_noise_tokens_def)
  ultimately show "((nxt, keys'), current, keys) \<in> measure (length \<circ> fst)" by simp
qed simp

declare add_icon_keys.simps [simp del]

definition build_channel_icon_lookup_keys :: "string \<Rightarrow> string \<Rightarrow> string list" where
  "build_channel_icon_lookup_keys title tvg =
     add_icon_keys (split_normalized_channel_icon_tokens tvg)
       (add_icon_keys (split_normalized_channel_icon_tokens title) [])"

section \<open>Candidates\<close>

definition has_token_prefix :: "string list \<Rightarrow> string list \<Rightarrow> bool" where
  "has_token_prefix cand query =
     (if length query < 2 \<or> length cand \<le> length query then False
      else list_all2 (=) (take (length query) cand) query)"

definition is_all_digits :: "string \<Rightarrow> bool" where
  "is_all_digits v = (v \<noteq> [] \<and> list_all is_digit v)"

definition token_penalty :: "string \<Rightarrow> int" where
  "token_penalty t =
     (if t \<in> set [''logo'', ''white'', ''light'', ''dark'', ''square'', ''round'', ''live'', ''event'',
                  ''coverage'', ''stream''] then 4
      else if t \<in> set [''default'', ''aluminum'', ''butterscotch'', ''garnet'', ''hz'', ''screen'',
                  ''bug'', ''localish''] then 3
      else if length t = 4 \<and> is_all_digits t then 2 else 0)"

definition suffix_variant_penalty :: "string list \<Rightarrow> int" where
  "suffix_variant_penalty ts = sum_list (map token_penalty ts)"

definition candidate_prefix_score :: "icon_candidate \<Rightarrow> string list \<Rightarrow> int" where
  "candidate_prefix_score c query =
     (let extra = drop (length query) (ic_tokens c) in
      ic_priority c + int (length extra) * 10 + suffix_variant_penalty extra)"

definition icon_candidate_less :: "icon_candidate \<Rightarrow> icon_candidate \<Rightarrow> bool" where
  "icon_candidate_less l r =
     (if ic_priority l \<noteq> ic_priority r then ic_priority l < ic_priority r
      else if length (ic_tokens l) \<noteq> length (ic_tokens r) then length (ic_tokens l) < length (ic_tokens r)
      else if length (ic_key l) \<noteq> length (ic_key r) then length (ic_key l) < length (ic_key r)
      else ic_path l < ic_path r)"

definition channel_icon_path_priority :: "string \<Rightarrow> int" where
  "channel_icon_path_priority p =
     (let l = to_lower (replace_char (CHR 0x5C) ''/'' (trim_space p)) in
      if contains_str l ''/obsolete/'' then 60
      else if contains_str l ''/screen-bug/'' then 50
      else if contains_str l ''/us-local/'' then 30
      else if contains_str l ''/hd/'' then 20
      else if contains_str l ''/custom/'' then 10
      else 0)"

definition icon_candidate_of :: "string \<times> string \<Rightarrow> icon_candidate option" where
  "icon_candidate_of f =
     (let name = trim_space (fst f) in
      if name = [] \<or> \<not> equal_fold (path_ext name) ''.png'' then None
      else let key = normalize_logo_candidate_key (trim_suffix name (path_ext name)) in
        if key = [] then None
        else Some \<lparr>ic_key = key, ic_tokens = split_char (CHR ''-'') key, ic_path = snd f,
                   ic_priority = channel_icon_path_priority (snd f)\<rparr>)"

text \<open>\<open>walk root\<close> lists the files under the scanned directory of a root, which is
  countries/united-states when that exists.\<close>

type_synonym icon_walk = "string \<Rightarrow> (string \<times> string) list option"

definition load_local_tv_logo_candidates :: "icon_walk \<Rightarrow> string \<Rightarrow> icon_candidate list option" where
  "load_local_tv_logo_candidates walk root =
     (case walk root of
        None \<Rightarrow> None
      | Some fs \<Rightarrow> let cs = List.map_filter icon_candidate_of fs in if cs = [] then None else Some cs)"

section \<open>The cache\<close>

record icon_cache =
  icc_root :: string
  icc_exact :: "(string \<times> icon_candidate) list option"
  icc_candidates :: "icon_candidate list"
  icc_error :: bool

definition add_exact_icon ::
  "icon_candidate \<Rightarrow> (string \<times> icon_candidate) list \<Rightarrow> (string \<times> icon_candidate) list" where
  "add_exact_icon c m =
     (case map_of m (ic_key c) of
        None \<Rightarrow> AList.update (ic_key c) c m
      | Some e \<Rightarrow> if icon_candidate_less c e then AList.update (ic_key c) c m else m)"

definition exact_icons :: "icon_candidate list \<Rightarrow> (string \<times> icon_candidate) list" where
  "exact_icons cs = fold add_exact_icon cs []"

text \<open>\<open>ensureLoaded\<close>, for the root directory found (empty when there is none): success, and
  the cache.\<close>

definition icon_ensure_loaded :: "icon_walk \<Rightarrow> string \<Rightarrow> icon_cache \<Rightarrow> bool \<times> icon_cache" where
  "icon_ensure_loaded walk root c =
     (if root = [] then (False, c)
      else if icc_root c = root \<and> (icc_exact c \<noteq> None \<or> icc_error c) then (\<not> icc_error c, c)
      else
        (case load_local_tv_logo_candidates walk root of
           None \<Rightarrow> (False, \<lparr>icc_root = root, icc_exact = None, icc_candidates = [], icc_error = True\<rparr>)
         | Some cs \<Rightarrow>
             let sorted_cs = sort_by icon_candidate_less cs in
             (True, \<lparr>icc_root = root, icc_exact = Some (exact_icons sorted_cs),
                     icc_candidates = sorted_cs, icc_error = False\<rparr>)))"

definition local_tv_logo_url :: "go_lib \<Rightarrow> environ \<Rightarrow> string \<Rightarrow> string" where
  "local_tv_logo_url lib env p =
     (let base = trim_right_by (\<lambda>c. c = CHR ''/'') (trim_space (os_getenv env ''BASE_URL'')) in
      if base = [] then []
      else
        let rel = trim_prefix (trim_space p) ''/'' in
        if rel = [] then []
        else (case lib_join_path lib base [''tvlogos'', rel] of
                None \<Rightarrow> base @ ''/tvlogos/'' @ rel | Some j \<Rightarrow> j))"

text \<open>The two nested loops over keys and candidates, on the best candidate and its score.\<close>

definition better_icon ::
  "string list \<Rightarrow> icon_candidate \<Rightarrow> (icon_candidate \<times> int) option \<Rightarrow> (icon_candidate \<times> int) option" where
  "better_icon query c best =
     (if \<not> has_token_prefix (ic_tokens c) query then best
      else let score = candidate_prefix_score c query in
        (case best of
           None \<Rightarrow> Some (c, score)
         | Some (b, bs) \<Rightarrow>
             if score < bs \<or> (score = bs \<and> icon_candidate_less c b) then Some (c, score) else best))"

definition best_prefix_icon :: "icon_candidate list \<Rightarrow> string list \<Rightarrow> (icon_candidate \<times> int) option" where
  "best_prefix_icon cs keys =
     fold (\<lambda>key best.
             let query = split_char (CHR ''-'') key in
             if length query < 2 then best else fold (better_icon query) cs best) keys None"

definition icon_lookup ::
  "go_lib \<Rightarrow> environ \<Rightarrow> icon_walk \<Rightarrow> string \<Rightarrow> string \<Rightarrow> string \<Rightarrow> icon_cache \<Rightarrow> string \<times> icon_cache" where
  "icon_lookup lib env walk root title tvg c0 =
     (case icon_ensure_loaded walk root c0 of
        (ok, c) \<Rightarrow>
          if \<not> ok then ([], c)
          else
            let keys = build_channel_icon_lookup_keys title tvg;
                exact = (case icc_exact c of None \<Rightarrow> [] | Some m \<Rightarrow> m)
            in if keys = [] then ([], c)
               else (case List.map_filter (map_of exact) keys of
                       e # _ \<Rightarrow> (local_tv_logo_url lib env (ic_path e), c)
                     | [] \<Rightarrow>
                         (case best_prefix_icon (icc_candidates c) keys of
                            None \<Rightarrow> ([], c)
                          | Some (b, _) \<Rightarrow> (local_tv_logo_url lib env (ic_path b), c))))"

definition auto_retrieve_channel_icons_enabled :: "environ \<Rightarrow> bool" where
  "auto_retrieve_channel_icons_enabled env =
     (let v = trim_space (os_getenv env ''AUTO_RETRIEVE_CHANNEL_ICONS'') in
      if v = [] then False else parse_bool v = Some True)"

definition maybe_apply_auto_channel_icon ::
  "go_lib \<Rightarrow> environ \<Rightarrow> icon_walk \<Rightarrow> string \<Rightarrow> stream_info \<Rightarrow> icon_cache \<Rightarrow> stream_info \<times> icon_cache" where
  "maybe_apply_auto_channel_icon lib env walk root s c =
     (if trim_space (si_logo_url s) \<noteq> [] \<or> \<not> auto_retrieve_channel_icons_enabled env then (s, c)
      else
        let (u, c') = icon_lookup lib env walk root (si_title s) (si_tvg_id s) c in
        if u = [] then (s, c')
        else (s\<lparr>si_logo_url := tvg_logo_parser lib env u, si_auto_logo := True\<rparr>, c'))"

section \<open>The best candidate\<close>

interpretation icon_order: strict_weak_order icon_candidate_less
  by unfold_locales (auto simp: icon_candidate_less_def split: if_splits)

text \<open>The exact table holds for every key the least candidate of that key.\<close>

definition icon_entry_ok :: "icon_candidate list \<Rightarrow> string \<Rightarrow> icon_candidate option \<Rightarrow> bool" where
  "icon_entry_ok cs k r =
     (case r of
        None \<Rightarrow> k \<notin> ic_key ` set cs
      | Some e \<Rightarrow> e \<in> set cs \<and> ic_key e = k \<and>
                  (\<forall>c \<in> set cs. ic_key c = k \<longrightarrow> \<not> icon_candidate_less c e))"

definition exact_ok :: "icon_candidate list \<Rightarrow> (string \<times> icon_candidate) list \<Rightarrow> bool" where
  "exact_ok cs m = (\<forall>k. icon_entry_ok cs k (map_of m k))"

lemma icon_entry_other:
  "ic_key c \<noteq> k \<Longrightarrow> icon_entry_ok cs k r \<Longrightarrow> icon_entry_ok (cs @ [c]) k r"
  by (auto simp: icon_entry_ok_def split: option.splits)

lemma icon_entry_new: "icon_entry_ok cs (ic_key c) None \<Longrightarrow> icon_entry_ok (cs @ [c]) (ic_key c) (Some c)"
  by (auto simp: icon_entry_ok_def icon_order.irrefl) (metis image_eqI)

lemma icon_entry_replace:
  "icon_entry_ok cs (ic_key c) (Some e) \<Longrightarrow> icon_candidate_less c e \<Longrightarrow>
     icon_entry_ok (cs @ [c]) (ic_key c) (Some c)"
  by (auto simp: icon_entry_ok_def icon_order.irrefl dest: icon_order.trans)

lemma icon_entry_keep:
  "icon_entry_ok cs (ic_key c) (Some e) \<Longrightarrow> \<not> icon_candidate_less c e \<Longrightarrow>
     icon_entry_ok (cs @ [c]) (ic_key c) (Some e)"
  by (auto simp: icon_entry_ok_def)

lemma exact_ok_step:
  assumes "exact_ok cs m"
  shows "exact_ok (cs @ [c]) (add_exact_icon c m)"
proof -
  have ok: "icon_entry_ok cs k (map_of m k)" for k using assms by (simp add: exact_ok_def)
  have "icon_entry_ok (cs @ [c]) k (map_of (add_exact_icon c m) k)" for k
  proof (cases "k = ic_key c")
    case True
    then show ?thesis
      using ok [of k] icon_entry_new icon_entry_replace icon_entry_keep
      by (cases "map_of m k") (auto simp: add_exact_icon_def update_conv')
  next
    case False
    then have "map_of (add_exact_icon c m) k = map_of m k"
      by (simp add: add_exact_icon_def update_conv' split: option.splits)
    then show ?thesis using False ok [of k] icon_entry_other by metis
  qed
  then show ?thesis by (simp add: exact_ok_def)
qed

lemma exact_icons_ok: "exact_ok cs (exact_icons cs)"
proof (induction cs rule: rev_induct)
  case Nil
  then show ?case by (simp add: exact_ok_def exact_icons_def icon_entry_ok_def)
next
  case (snoc c cs)
  then show ?case using exact_ok_step by (simp add: exact_icons_def)
qed

text \<open>The best candidate by prefix is one of the candidates whose tokens extend a key of at
  least two tokens, and no such candidate scores lower.\<close>

definition icon_hits :: "icon_candidate list \<Rightarrow> string list \<Rightarrow> (icon_candidate \<times> int) set" where
  "icon_hits cs query =
     {(c, s). c \<in> set cs \<and> has_token_prefix (ic_tokens c) query \<and> s = candidate_prefix_score c query}"

definition best_hit :: "(icon_candidate \<times> int) set \<Rightarrow> (icon_candidate \<times> int) option \<Rightarrow> bool" where
  "best_hit hits r =
     (case r of None \<Rightarrow> hits = {} | Some (c, s) \<Rightarrow> (c, s) \<in> hits \<and> (\<forall>d t. (d, t) \<in> hits \<longrightarrow> s \<le> t))"

lemma best_hit_step:
  "best_hit hits r \<Longrightarrow>
     best_hit (hits \<union> icon_hits [c] query) (better_icon query c r)"
  by (cases r) (auto simp: best_hit_def icon_hits_def better_icon_def Let_def, force+)

lemma icon_hits_Cons: "icon_hits (c # cs) query = icon_hits [c] query \<union> icon_hits cs query"
  by (auto simp: icon_hits_def)

lemma best_hit_fold:
  "best_hit hits r \<Longrightarrow> best_hit (hits \<union> icon_hits cs query) (fold (better_icon query) cs r)"
proof (induction cs arbitrary: hits r)
  case Nil
  then show ?case by (simp add: icon_hits_def)
next
  case (Cons c cs)
  from Cons.IH [OF best_hit_step [OF Cons.prems]] show ?case
    by (simp add: icon_hits_Cons [of c cs] Un_assoc)
qed

lemma short_query_hits: "length query < 2 \<Longrightarrow> icon_hits cs query = {}"
  by (auto simp: icon_hits_def has_token_prefix_def)

lemma best_prefix_icon_least:
  "best_hit (\<Union>key \<in> set keys. icon_hits cs (split_char (CHR ''-'') key)) (best_prefix_icon cs keys)"
proof (induction keys rule: rev_induct)
  case Nil
  then show ?case by (simp add: best_hit_def best_prefix_icon_def)
next
  case (snoc key keys)
  show ?case
  proof (cases "length (split_char (CHR ''-'') key) < 2")
    case True
    then show ?thesis using snoc short_query_hits [OF True, of cs]
      by (simp add: best_prefix_icon_def Let_def)
  next
    case False
    then show ?thesis using best_hit_fold [OF snoc, of cs "split_char (CHR ''-'') key"]
      by (simp add: best_prefix_icon_def Let_def Un_commute)
  qed
qed

end
