(* ===== verification/PlaylistParser.thy ===== *)
theory PlaylistParser
  imports ChannelIcons Slugs
begin

text \<open>
  Reading and writing entries of a playlist: sourceproc/parser.go, the URL of an entry
  (\<open>GenerateStreamURL\<close> of sourceproc/helpers.go) and the entries made up for discovered
  sources, sourceproc/discovery_source.go. \<open>proc_ctx\<close> is what the code reads from package
  variables and the system, \<open>proc_state\<close> what these functions write: the URL files, the
  directory new-slugs and the icon cache.
\<close>

record proc_ctx =
  pc_lib :: go_lib
  pc_us :: utils_state
  pc_filters :: filter_config
  pc_walk :: icon_walk
  pc_icon_root :: string
  pc_windows :: bool
  pc_resolve :: "string \<Rightarrow> string \<Rightarrow> string option"
  pc_sched :: "string list \<Rightarrow> string list"

record proc_state =
  ps_files :: stream_files
  ps_new_slugs :: slug_dir
  ps_icons :: icon_cache

section \<open>The attribute pattern\<close>

text \<open>\<open>attributeRegex\<close>, ([a-zA-Z0-9_-]+)="([^"]*)", as a scanner: the characters of a key
  cannot hold "=", so the longest run of them is the only one that can match.\<close>

definition is_key_char :: "char \<Rightarrow> bool" where
  "is_key_char c = (is_letter c \<or> is_digit c \<or> c = CHR ''_'' \<or> c = CHR ''-'')"

definition eq_quote :: string where "eq_quote = ''='' @ dquote"

definition match_attr :: "string \<Rightarrow> (string \<times> string \<times> string) option" where
  "match_attr s =
     (let k = takeWhile is_key_char s; r = dropWhile is_key_char s in
      if k = [] \<or> \<not> has_prefix r eq_quote then None
      else
        let v = takeWhile (\<lambda>c. c \<noteq> CHR 0x22) (drop 2 r); t = dropWhile (\<lambda>c. c \<noteq> CHR 0x22) (drop 2 r)
        in (case t of [] \<Rightarrow> None | _ # rest \<Rightarrow> Some (k, v, rest)))"

lemma match_attr_text:
  assumes "match_attr s = Some (k, v, rest)"
  shows "s = k @ eq_quote @ v @ dquote @ rest"
proof -
  define r where "r = dropWhile is_key_char s"
  from assms have k: "k = takeWhile is_key_char s" and p: "has_prefix r eq_quote"
    and v: "v = takeWhile (\<lambda>c. c \<noteq> CHR 0x22) (drop 2 r)"
    and t: "\<exists>c. dropWhile (\<lambda>c. c \<noteq> CHR 0x22) (drop 2 r) = c # rest"
    unfolding r_def by (auto simp: match_attr_def Let_def split: if_splits list.splits)
  from t obtain c where c: "dropWhile (\<lambda>c. c \<noteq> CHR 0x22) (drop 2 r) = c # rest" ..
  from iffD1 [OF dropWhile_eq_Cons_conv c] have "c = CHR 0x22" and "drop 2 r = v @ c # rest"
    unfolding v by blast+
  moreover have "eq_quote @ drop 2 r = r"
    using trim_prefix_has [OF p] p by (simp add: trim_prefix_def eq_quote_def dquote_def numeral_2_eq_2)
  moreover have "s = k @ r" by (simp add: k r_def)
  ultimately show ?thesis unfolding dquote_def by (metis append_Cons append_Nil)
qed

function find_attrs :: "string \<Rightarrow> (string \<times> string) list" where
  "find_attrs [] = []"
| "find_attrs (c # s) =
     (case match_attr (c # s) of
        None \<Rightarrow> find_attrs s
      | Some (k, v, rest) \<Rightarrow> (k, v) # find_attrs rest)"
  by pat_completeness auto
termination
proof (relation "measure length")
  fix c s x k y v rest
  assume "match_attr (c # s) = Some x" and "(k, y) = x" and "(v, rest) = y"
  then have "match_attr (c # s) = Some (k, v, rest)" by simp
  from arg_cong [OF match_attr_text [OF this], of length] show "(rest, c # s) \<in> measure length"
    by (simp add: eq_quote_def dquote_def)
qed auto

definition attr_text :: "string \<times> string \<Rightarrow> string" where
  "attr_text a = fst a @ eq_quote @ snd a @ dquote"

text \<open>\<open>strings.Replace\<close> of the first occurrence by nothing.\<close>

definition remove_first :: "string \<Rightarrow> string \<Rightarrow> string" where
  "remove_first m s = (case cut_str s m of None \<Rightarrow> s | Some (a, b) \<Rightarrow> a @ b)"

section \<open>Storing the URL of an entry\<close>

definition hex_digit :: "nat \<Rightarrow> char" where
  "hex_digit n = (if n < 10 then char_of (48 + n) else char_of (87 + n))"

definition hex_encode :: "string \<Rightarrow> string" where
  "hex_encode s = concat (map (\<lambda>c. let n = (of_char c :: nat) in [hex_digit (n div 16), hex_digit (n mod 16)]) s)"

definition url_hash :: "go_lib \<Rightarrow> string \<Rightarrow> string" where
  "url_hash lib url = hex_encode (lib_sha3 lib url)"

definition url_file_name :: "go_lib \<Rightarrow> string \<Rightarrow> string \<Rightarrow> string \<Rightarrow> string" where
  "url_file_name lib title idx url =
     raw_url_encode title @ ''_'' @ idx @ ''__'' @ url_hash lib url"

definition file_less :: "(string \<times> string) \<times> string \<Rightarrow> (string \<times> string) \<times> string \<Rightarrow> bool" where
  "file_less f g = (fst (fst f) < fst (fst g) \<or> (fst (fst f) = fst (fst g) \<and> snd (fst f) < snd (fst g)))"

definition index_stream_url ::
  "go_lib \<Rightarrow> string \<Rightarrow> int \<Rightarrow> string \<Rightarrow> stream_info \<Rightarrow> stream_files \<Rightarrow> stream_info \<times> stream_files" where
  "index_stream_url lib idx line url s files =
     (let us0 = (if map_of (urls_of s) idx = None then AList.update idx [] (urls_of s) else urls_of s);
          hash = url_hash lib url;
          file = (take 3 hash, url_file_name lib (si_title s) idx url);
          s1 = s\<lparr>si_urls := Some us0, si_source_m3u := idx, si_source_index := line,
                 si_source_url := trim_space url\<rparr>;
          (s2, files') =
            (if map_of files file = None then
               (s1\<lparr>si_urls := Some (AList.update idx
                      (AList.update hash (itoa line @ '':::'' @ url)
                         (case map_of us0 idx of None \<Rightarrow> [] | Some m \<Rightarrow> m)) us0)\<rparr>,
                insort_by file_less (file, itoa line @ '':::'' @ std_encode url) files)
             else (s1, files))
      in (record_source_epg_meta idx (si_tvg_id s2) s2, files'))"

section \<open>Parsing an entry\<close>

text \<open>The URL of an entry; in a local playlist, a relative path is made absolute with the
  operating system's path functions (\<open>pc_resolve\<close>: file URL's path, relative path).\<close>

definition entry_url :: "proc_ctx \<Rightarrow> string \<Rightarrow> string \<Rightarrow> string" where
  "entry_url ctx idx content =
     (let clean = trim_space content in
      (case get_source_config (pc_us ctx) idx of
         None \<Rightarrow> clean
       | Some c \<Rightarrow>
           if has_prefix (sc_url c) ''file://'' \<and> \<not> has_prefix clean ''http://'' \<and>
              \<not> has_prefix clean ''https://'' \<and> \<not> has_prefix clean ''file://'' then
             (case file_url_to_path (pc_windows ctx) (lib_url_parse (pc_lib ctx)) (sc_url c) of
                None \<Rightarrow> clean
              | Some p \<Rightarrow> (case pc_resolve ctx p clean of None \<Rightarrow> clean | Some a \<Rightarrow> ''file://'' @ a))
           else clean))"

definition apply_attr :: "proc_ctx \<Rightarrow> string \<times> string \<Rightarrow> stream_info \<Rightarrow> stream_info" where
  "apply_attr ctx a s =
     (let env = us_environ (pc_us ctx); k = to_lower (trim_space (fst a)); v = trim_space (snd a) in
      if k = ''tvg-id'' then s\<lparr>si_tvg_id := general_parser v\<rparr>
      else if k \<in> set [''tvg-chno'', ''channel-id'', ''channel-number'']
      then s\<lparr>si_tvg_chno := general_parser v\<rparr>
      else if k = ''tvg-name'' then s\<lparr>si_title := tvg_name_parser (pc_lib ctx) env v\<rparr>
      else if k = ''tvg-type'' then s\<lparr>si_tvg_type := general_parser v\<rparr>
      else if k \<in> set [''tvg-group'', ''group-title''] then s\<lparr>si_group := general_parser v\<rparr>
      else if k = ''tvg-logo'' then s\<lparr>si_logo_url := tvg_logo_parser (pc_lib ctx) env v\<rparr>
      else s)"

definition line_attributes :: "proc_ctx \<Rightarrow> string \<Rightarrow> stream_info" where
  "line_attributes ctx line =
     (let attrs = find_attrs line;
          s1 = fold (apply_attr ctx) attrs (empty_stream\<lparr>si_urls := Some []\<rparr>);
          rest = fold (\<lambda>a l. remove_first (attr_text a) l) attrs line;
          s2 = (case cut_str rest '','' of
                  None \<Rightarrow> s1
                | Some (_, t) \<Rightarrow>
                    s1\<lparr>si_title := tvg_name_parser (pc_lib ctx) (us_environ (pc_us ctx)) (trim_space t)\<rparr>);
          t = apply_channel_merge_rule (pc_filters ctx) (si_title s2)
      in s2\<lparr>si_title := (if t = [] then ''Unknown Channel'' else t)\<rparr>)"

text \<open>\<open>parseLine\<close>. Its second test for an empty title, and the result nil, cannot be reached.\<close>

definition parse_line ::
  "proc_ctx \<Rightarrow> string \<Rightarrow> string \<times> int \<Rightarrow> string \<Rightarrow> proc_state \<Rightarrow> stream_info \<times> proc_state" where
  "parse_line ctx line next_line idx st =
     (let url = entry_url ctx idx (fst next_line);
          s1 = line_attributes ctx line;
          (s2, icons) = maybe_apply_auto_channel_icon (pc_lib ctx) (us_environ (pc_us ctx))
                          (pc_walk ctx) (pc_icon_root ctx) s1 (ps_icons st);
          (s3, files) = index_stream_url (pc_lib ctx) idx (snd next_line) url s2 (ps_files st)
      in (s3, st\<lparr>ps_icons := icons, ps_files := files\<rparr>))"

section \<open>Writing an entry\<close>

definition first_extension :: "url_parser \<Rightarrow> string list \<Rightarrow> string" where
  "first_extension parse urls =
     (case filter (\<lambda>e. e \<noteq> []) (List.map_filter (get_file_extension_from_url parse) urls) of
        [] \<Rightarrow> [] | e # _ \<Rightarrow> e)"

text \<open>\<open>GenerateStreamURL\<close>: \<open>pc_sched\<close> is the order in which the goroutines send their paths.\<close>

definition generate_stream_url :: "proc_ctx \<Rightarrow> string \<Rightarrow> stream_info \<Rightarrow> slug_dir \<Rightarrow> string \<times> slug_dir" where
  "generate_stream_url ctx base s new =
     (let parse = lib_url_parse (pc_lib ctx);
          urls = concat (map (\<lambda>im. map snd (snd im)) (urls_of s));
          ext = first_extension parse urls;
          (slug, new') = encode_slug (pc_lib ctx) s new;
          final = (case List.map_filter (get_sub_path_from_url parse) (pc_sched ctx urls) of
                     p # _ \<Rightarrow> base @ ''/p/'' @ p @ ''/'' @ slug
                   | [] \<Rightarrow> base @ ''/p/stream/'' @ slug)
      in (final @ (if contains_str ext ''.m3u'' then [] else ext), new'))"

definition opt_attr :: "string \<Rightarrow> string \<Rightarrow> (string \<times> string) list" where
  "opt_attr k v = (if v = [] then [] else [(k, v)])"

definition output_title :: "stream_info \<Rightarrow> string" where
  "output_title s =
     (let t = trim_space (si_display_title s) in if t = [] then si_title s else t)"

definition entry_attrs :: "utils_state \<Rightarrow> stream_info \<Rightarrow> (string \<times> string) list" where
  "entry_attrs us s =
     opt_attr ''tvg-id'' (si_tvg_id s) @ opt_attr ''tvg-chno'' (si_tvg_chno s) @
     opt_attr ''tvg-logo'' (si_logo_url s) @
     opt_attr ''tvg-group'' (stream_group_for_output us s) @
     opt_attr ''group-title'' (stream_group_for_output us s) @
     opt_attr ''tvg-type'' (si_tvg_type s) @ opt_attr ''tvg-name'' (output_title s)"

definition extinf_line :: "utils_state \<Rightarrow> stream_info \<Rightarrow> string" where
  "extinf_line us s =
     join_str '' '' (''#EXTINF:-1'' # map attr_text (entry_attrs us s)) @ '','' @ output_title s"

definition format_stream_entry :: "proc_ctx \<Rightarrow> string \<Rightarrow> stream_info \<Rightarrow> slug_dir \<Rightarrow> string \<times> slug_dir" where
  "format_stream_entry ctx base s new =
     (let (url, new') = generate_stream_url ctx base s new;
          direct = (direct_source_proxying_enabled (us_environ (pc_us ctx)) \<and> trim_space (si_source_url s) \<noteq> [])
      in (extinf_line (pc_us ctx) s @ newline @
          (if direct then trim_space (si_source_url s) else url) @ newline, new'))"

section \<open>Discovered sources\<close>

definition is_discovered_m3u8_source :: "go_lib \<Rightarrow> string \<Rightarrow> source_config \<Rightarrow> bool" where
  "is_discovered_m3u8_source lib idx c =
     (if \<not> has_prefix (to_upper (trim_space idx)) ''DISC_'' then False
      else (case lib_url_parse lib (trim_space (sc_url c)) of
              None \<Rightarrow> False | Some u \<Rightarrow> equal_fold (path_ext (u_path u)) ''.m3u8''))"

definition clean_discovered_title_segment :: "string \<Rightarrow> string" where
  "clean_discovered_title_segment v =
     (let t = trim_space v in
      if t = [] then []
      else squeeze (replace_pairs
             [(''_'', '' ''), (''-'', '' ''), (''.'', '' ''), (''%20'', '' ''), (''+'', '' '')] t))"

definition normalize_discovered_title_key :: "string \<Rightarrow> string" where
  "normalize_discovered_title_key v = to_lower (replace_char (CHR '' '') [] (trim_space v))"

definition generic_discovery_path_segments :: "string list" where
  "generic_discovery_path_segments =
     [''channel'', ''index'', ''live'', ''master'', ''media'', ''playlist'', ''stream'']"

text \<open>The loop over the path segments from the last one down; \<open>n\<close> segments precede the list's
  head in the path.\<close>

fun title_from_segments :: "string list \<Rightarrow> string option" where
  "title_from_segments [] = None"
| "title_from_segments (seg # before) =
     (let t = trim_space seg;
          cleaned = clean_discovered_title_segment (trim_suffix t (path_ext t))
      in if t = [] \<or> cleaned = [] then title_from_segments before
         else if normalize_discovered_title_key cleaned \<in> set generic_discovery_path_segments \<and>
                 before \<noteq> []
         then title_from_segments before
         else Some cleaned)"

definition derive_discovered_stream_title :: "go_lib \<Rightarrow> source_config \<Rightarrow> string" where
  "derive_discovered_stream_title lib c =
     (let group_or_default =
            (if trim_space (sc_group c) \<noteq> [] then trim_space (sc_group c) else ''Discovered Stream'')
      in if trim_space (sc_name c) \<noteq> [] then trim_space (sc_name c)
         else (case lib_url_parse lib (trim_space (sc_url c)) of
                 None \<Rightarrow> group_or_default
               | Some u \<Rightarrow>
                   (case filter (\<lambda>v. v \<noteq> [])
                           (map (\<lambda>k. clean_discovered_title_segment (query_get (u_raw_query u) k))
                             [''name'', ''channel'', ''title'', ''id'']) of
                      v # _ \<Rightarrow> v
                    | [] \<Rightarrow>
                        (case title_from_segments (rev (split_char (CHR ''/'') (u_path u))) of
                           Some t \<Rightarrow> t
                         | None \<Rightarrow>
                             let h = trim_space (hostname_of (u_host u)) in
                             if h \<noteq> [] then h else group_or_default))))"

definition build_synthetic_discovered_stream ::
  "go_lib \<Rightarrow> source_config \<Rightarrow> stream_files \<Rightarrow> (stream_info \<times> stream_files) option" where
  "build_synthetic_discovered_stream lib c files =
     (let idx = trim_space (sc_index c); url = trim_space (sc_url c) in
      if idx = [] \<or> url = [] then None
      else Some (index_stream_url lib idx 0 url
             (empty_stream\<lparr>si_title := derive_discovered_stream_title lib c,
                           si_group := trim_space (sc_group c), si_urls := Some []\<rparr>) files))"

end
