(* ===== verification/PlaylistFacts.thy ===== *)
theory PlaylistFacts
  imports PlaylistParser
begin

text \<open>
  What the playlist writer writes, the playlist parser reads back; and the URL that the
  parser stores is the one that the loader of a channel's URLs finds.
\<close>

section \<open>Scanning attributes\<close>

definition plain_prefix :: "string \<Rightarrow> bool" where
  "plain_prefix p =
     (p \<noteq> [] \<and> \<not> is_key_char (last p) \<and> CHR ''='' \<notin> set p \<and> CHR 0x22 \<notin> set p)"

definition attr_ok :: "string \<times> string \<Rightarrow> bool" where
  "attr_ok a = (fst a \<noteq> [] \<and> list_all is_key_char (fst a) \<and> CHR 0x22 \<notin> set (snd a))"

lemma key_char_not_eq [simp]: "\<not> is_key_char (CHR ''='')" "\<not> is_key_char (CHR 0x22)"
    "\<not> is_key_char (CHR '' '')" "\<not> is_key_char (CHR '','')"
  by (simp_all add: is_key_char_def is_letter_def is_digit_def)

lemma match_attr_no_quote: "CHR 0x22 \<notin> set s \<Longrightarrow> match_attr s = None"
proof (rule ccontr)
  assume q: "CHR 0x22 \<notin> set s" and "match_attr s \<noteq> None"
  then obtain k v rest where "match_attr s = Some (k, v, rest)" by auto
  from match_attr_text [OF this] q show False by (simp add: dquote_def)
qed

lemma find_attrs_no_quote: "CHR 0x22 \<notin> set s \<Longrightarrow> find_attrs s = []"
  by (induction s) (simp_all add: match_attr_no_quote)

lemma match_attr_here:
  assumes "attr_ok (k, v)"
  shows "match_attr (attr_text (k, v) @ r) = Some (k, v, r)"
proof -
  have k: "k \<noteq> []" "\<forall>c \<in> set k. is_key_char c" and v: "\<forall>c \<in> set v. c \<noteq> CHR 0x22"
    using assms by (auto simp: attr_ok_def list_all_iff)
  have "takeWhile is_key_char (k @ eq_quote @ v @ dquote @ r) = k"
    and "dropWhile is_key_char (k @ eq_quote @ v @ dquote @ r) = eq_quote @ v @ dquote @ r"
    using k by (simp_all add: eq_quote_def)
  moreover have "takeWhile (\<lambda>c. c \<noteq> CHR 0x22) (v @ dquote @ r) = v"
    and "dropWhile (\<lambda>c. c \<noteq> CHR 0x22) (v @ dquote @ r) = dquote @ r"
    using v by (simp_all add: dquote_def)
  moreover have "drop 2 (eq_quote @ v @ dquote @ r) = v @ dquote @ r"
    by (simp add: eq_quote_def dquote_def)
  ultimately show ?thesis using k by (simp add: match_attr_def attr_text_def dquote_def)
qed

lemma match_attr_prefix: "plain_prefix p \<Longrightarrow> match_attr (p @ s) = None"
proof -
  assume p: "plain_prefix p"
  then have "last p \<in> set p \<and> \<not> is_key_char (last p)" by (simp add: plain_prefix_def)
  then obtain x where x: "x \<in> set p" "\<not> is_key_char x" by blast
  have drop: "dropWhile is_key_char (p @ s) = dropWhile is_key_char p @ s"
    and ne: "dropWhile is_key_char p \<noteq> []"
    using x by (auto simp: dropWhile_append1 dropWhile_eq_Nil_conv)
  have "CHR ''='' \<notin> set (dropWhile is_key_char p)"
    using p by (auto simp: plain_prefix_def dest: set_dropWhileD)
  with ne have "\<not> has_prefix (dropWhile is_key_char (p @ s)) eq_quote"
    unfolding drop by (cases "dropWhile is_key_char p") (auto simp: eq_quote_def)
  then show ?thesis by (simp add: match_attr_def Let_def)
qed

lemma plain_prefix_tl: "plain_prefix (c # p) \<Longrightarrow> p = [] \<or> plain_prefix p"
  by (auto simp: plain_prefix_def)

lemma find_attrs_prefix: "p = [] \<or> plain_prefix p \<Longrightarrow> find_attrs (p @ s) = find_attrs s"
proof (induction p)
  case Nil
  then show ?case by simp
next
  case (Cons c p)
  then have "match_attr (c # p @ s) = None" using match_attr_prefix [of "c # p" s] by simp
  then show ?case using Cons plain_prefix_tl by auto
qed

lemma find_attrs_here: "attr_ok a \<Longrightarrow> find_attrs (attr_text a @ r) = a # find_attrs r"
proof -
  assume ok: "attr_ok a"
  obtain k v where a: "a = (k, v)" by (cases a)
  obtain c s where cs: "attr_text a @ r = c # s"
    using ok by (cases "attr_text a @ r") (auto simp: attr_text_def attr_ok_def)
  then show ?thesis using match_attr_here [of k v r] ok by (simp add: a)
qed

text \<open>The attributes of a line that lists them one after the other.\<close>

definition attr_tail :: "(string \<times> string) list \<Rightarrow> string" where
  "attr_tail attrs = concat (map (\<lambda>a. CHR '' '' # attr_text a) attrs)"

lemma plain_blank [simp]: "plain_prefix ('' '')"
  by (simp add: plain_prefix_def)

lemma find_attrs_tail:
  "\<forall>a \<in> set attrs. attr_ok a \<Longrightarrow> CHR 0x22 \<notin> set t \<Longrightarrow> find_attrs (attr_tail attrs @ t) = attrs"
proof (induction attrs)
  case Nil
  then show ?case by (simp add: attr_tail_def find_attrs_no_quote)
next
  case (Cons a attrs)
  have "find_attrs (attr_tail (a # attrs) @ t) = find_attrs ('' '' @ attr_text a @ attr_tail attrs @ t)"
    by (simp add: attr_tail_def)
  also have "\<dots> = find_attrs (attr_text a @ attr_tail attrs @ t)" by (rule find_attrs_prefix) simp
  finally show ?case using Cons by (simp add: find_attrs_here)
qed

section \<open>Removing the attributes\<close>

lemma no_earlier_attr:
  assumes "plain_prefix p" and "attr_ok a"
  shows "\<not> has_prefix (p @ s) (attr_text a)"
proof
  obtain k v where a: "a = (k, v)" by (cases a)
  assume "has_prefix (p @ s) (attr_text a)"
  then obtain z where z: "p @ s = k @ CHR ''='' # z"
    by (auto simp: has_prefix_iff_prefix prefix_def attr_text_def eq_quote_def a)
  consider (short) w where "p = k @ CHR ''='' # w" | (long) w where "k = p @ w"
    using z by (auto simp: append_eq_append_conv2 append_eq_Cons_conv Cons_eq_append_conv)
  then show False
  proof cases
    case short
    then show ?thesis using assms(1) by (simp add: plain_prefix_def)
  next
    case long
    then have "is_key_char (last p)"
      using assms by (auto simp: plain_prefix_def attr_ok_def a list_all_iff)
    then show ?thesis using assms(1) by (simp add: plain_prefix_def)
  qed
qed

lemma index_of_attr:
  "p = [] \<or> plain_prefix p \<Longrightarrow> attr_ok a \<Longrightarrow> index_of (p @ attr_text a @ r) (attr_text a) = Some (length p)"
proof (induction p)
  case Nil
  then show ?case by simp
next
  case (Cons c p)
  then have "\<not> has_prefix ((c # p) @ attr_text a @ r) (attr_text a)" by (intro no_earlier_attr) auto
  then show ?case using Cons plain_prefix_tl by auto
qed

lemma remove_first_attr:
  "plain_prefix p \<Longrightarrow> attr_ok a \<Longrightarrow> remove_first (attr_text a) (p @ attr_text a @ r) = p @ r"
  by (simp add: remove_first_def cut_str_def index_of_attr)

lemma remove_attrs:
  "plain_prefix p \<Longrightarrow> \<forall>a \<in> set attrs. attr_ok a \<Longrightarrow>
     fold (\<lambda>a. remove_first (attr_text a)) attrs (p @ attr_tail attrs @ t) =
       p @ replicate (length attrs) (CHR '' '') @ t"
proof (induction attrs arbitrary: p)
  case Nil
  then show ?case by (simp add: attr_tail_def)
next
  case (Cons a attrs)
  have plain: "plain_prefix (p @ '' '')" using Cons.prems(1) by (simp add: plain_prefix_def)
  have "remove_first (attr_text a) (p @ attr_tail (a # attrs) @ t) = (p @ '' '') @ attr_tail attrs @ t"
    using remove_first_attr [OF plain, of a "attr_tail attrs @ t"] Cons.prems(2) by (simp add: attr_tail_def)
  then show ?case using Cons.IH [OF plain] Cons.prems(2) by simp
qed

lemma cut_str_char:
  "c \<notin> set p \<Longrightarrow> cut_str (p @ c # t) [c] = Some (p, t)"
proof -
  assume "c \<notin> set p"
  then have "index_of (p @ c # t) [c] = Some (length p)" by (induction p) auto
  then show ?thesis by (simp add: cut_str_def)
qed

section \<open>The line of an entry\<close>

definition extinf_head :: string where "extinf_head = ''#EXTINF:-1''"

lemma join_str_Cons: "join_str sep (x # xs) = x @ concat (map (\<lambda>y. sep @ y) xs)"
  by (induction xs arbitrary: x) auto

lemma extinf_line_eq:
  "extinf_line us s = extinf_head @ attr_tail (entry_attrs us s) @ '','' @ output_title s"
  by (simp add: extinf_line_def join_str_Cons attr_tail_def extinf_head_def comp_def)

text \<open>The texts an entry may hold: no double quote, nothing around them to trim.\<close>

definition text_ok :: "string \<Rightarrow> bool" where
  "text_ok v = (CHR 0x22 \<notin> set v \<and> trim_space v = v)"

lemma entry_attrs_ok:
  assumes "text_ok (si_tvg_id s)" "text_ok (si_tvg_chno s)" "text_ok (si_logo_url s)"
    "text_ok (stream_group_for_output us s)" "text_ok (si_tvg_type s)" "text_ok (output_title s)"
  shows "\<forall>a \<in> set (entry_attrs us s). attr_ok a"
proof -
  have key: "list_all is_key_char ''tvg-id''" "list_all is_key_char ''tvg-chno''"
    "list_all is_key_char ''tvg-logo''" "list_all is_key_char ''tvg-group''"
    "list_all is_key_char ''group-title''" "list_all is_key_char ''tvg-type''"
    "list_all is_key_char ''tvg-name''"
    by (simp_all add: is_key_char_def is_letter_def is_digit_def)
  have opt: "\<forall>a \<in> set (opt_attr k v). attr_ok a"
    if "k \<noteq> []" "list_all is_key_char k" "text_ok v" for k v
    using that by (simp add: opt_attr_def attr_ok_def text_ok_def)
  show ?thesis
    unfolding entry_attrs_def set_append ball_Un
    by (intro conjI opt assms key) simp_all
qed

lemma extinf_head_plain: "plain_prefix (extinf_head @ '' '')"
  by (simp add: plain_prefix_def extinf_head_def)

lemma find_attrs_line:
  assumes "\<forall>a \<in> set attrs. attr_ok a" and "CHR 0x22 \<notin> set t"
  shows "find_attrs (extinf_head @ attr_tail attrs @ t) = attrs"
proof (cases attrs)
  case Nil
  have "CHR 0x22 \<notin> set (extinf_head @ t)" using assms by (simp add: extinf_head_def)
  then show ?thesis using Nil by (simp add: attr_tail_def find_attrs_no_quote)
next
  case (Cons a as)
  have "find_attrs ((extinf_head @ '' '') @ attr_text a @ attr_tail as @ t) = find_attrs (attr_text a @ attr_tail as @ t)"
    using extinf_head_plain by (intro find_attrs_prefix) simp
  also have "\<dots> = a # as" using assms Cons by (simp add: find_attrs_here find_attrs_tail)
  finally show ?thesis using Cons by (simp add: attr_tail_def)
qed

lemma strip_attrs_line:
  assumes "\<forall>a \<in> set attrs. attr_ok a"
  shows "fold (\<lambda>a. remove_first (attr_text a)) attrs (extinf_head @ attr_tail attrs @ t) =
    extinf_head @ replicate (length attrs) (CHR '' '') @ t"
proof (cases attrs)
  case Nil
  then show ?thesis by (simp add: attr_tail_def)
next
  case (Cons a as)
  have "remove_first (attr_text a) (extinf_head @ attr_tail attrs @ t) =
      (extinf_head @ '' '') @ attr_tail as @ t"
    using remove_first_attr [OF extinf_head_plain, of a "attr_tail as @ t"] assms Cons
    by (simp add: attr_tail_def)
  then show ?thesis using remove_attrs [OF extinf_head_plain, of as t] assms Cons by simp
qed

lemma cut_stripped_line:
  "cut_str (extinf_head @ replicate n (CHR '' '') @ '','' @ t) '','' =
     Some (extinf_head @ replicate n (CHR '' ''), t)"
  using cut_str_char [of "CHR '',''" "extinf_head @ replicate n (CHR '' '')" t]
  by (simp add: extinf_head_def)

section \<open>Reading the attributes back\<close>

lemma general_parser_id: "CHR 0x22 \<notin> set v \<Longrightarrow> general_parser v = v"
  using trim_by_no_hit [of v "\<lambda>c. c = CHR 0x22"] by (auto simp: general_parser_def)

lemma lower_keys [simp]:
  "to_lower ''tvg-id'' = ''tvg-id''" "to_lower ''tvg-chno'' = ''tvg-chno''"
  "to_lower ''tvg-logo'' = ''tvg-logo''" "to_lower ''tvg-group'' = ''tvg-group''"
  "to_lower ''group-title'' = ''group-title''" "to_lower ''tvg-type'' = ''tvg-type''"
  "to_lower ''tvg-name'' = ''tvg-name''"
  by (simp_all add: to_lower_def lower_char_def)

lemma trim_keys [simp]:
  "trim_space ''tvg-id'' = ''tvg-id''" "trim_space ''tvg-chno'' = ''tvg-chno''"
  "trim_space ''tvg-logo'' = ''tvg-logo''" "trim_space ''tvg-group'' = ''tvg-group''"
  "trim_space ''group-title'' = ''group-title''" "trim_space ''tvg-type'' = ''tvg-type''"
  "trim_space ''tvg-name'' = ''tvg-name''"
  by (simp_all add: trim_space_no_space is_space_def)

lemma apply_opt_attr:
  assumes "text_ok v"
  shows "fold (apply_attr ctx) (opt_attr ''tvg-id'' v) s = (if v = [] then s else s\<lparr>si_tvg_id := v\<rparr>)"
    and "fold (apply_attr ctx) (opt_attr ''tvg-chno'' v) s = (if v = [] then s else s\<lparr>si_tvg_chno := v\<rparr>)"
    and "fold (apply_attr ctx) (opt_attr ''tvg-logo'' v) s =
      (if v = [] then s
       else s\<lparr>si_logo_url := tvg_logo_parser (pc_lib ctx) (us_environ (pc_us ctx)) v\<rparr>)"
    and "fold (apply_attr ctx) (opt_attr ''tvg-group'' v) s = (if v = [] then s else s\<lparr>si_group := v\<rparr>)"
    and "fold (apply_attr ctx) (opt_attr ''group-title'' v) s = (if v = [] then s else s\<lparr>si_group := v\<rparr>)"
    and "fold (apply_attr ctx) (opt_attr ''tvg-type'' v) s = (if v = [] then s else s\<lparr>si_tvg_type := v\<rparr>)"
    and "fold (apply_attr ctx) (opt_attr ''tvg-name'' v) s =
      (if v = [] then s
       else s\<lparr>si_title := tvg_name_parser (pc_lib ctx) (us_environ (pc_us ctx)) v\<rparr>)"
  using assms by (auto simp: opt_attr_def apply_attr_def Let_def text_ok_def general_parser_id)

definition entry_ok :: "proc_ctx \<Rightarrow> stream_info \<Rightarrow> bool" where
  "entry_ok ctx s =
     (text_ok (si_tvg_id s) \<and> text_ok (si_tvg_chno s) \<and> text_ok (si_logo_url s) \<and>
      text_ok (stream_group_for_output (pc_us ctx) s) \<and> text_ok (si_tvg_type s) \<and>
      text_ok (output_title s) \<and> output_title s \<noteq> [] \<and>
      apply_channel_merge_rule (pc_filters ctx) (output_title s) = output_title s \<and>
      os_getenv (us_environ (pc_us ctx)) ''TITLE_SUBSTR_FILTER'' = [])"

text \<open>The fields that come back; a logo is wrapped once more by the logo parser.\<close>

lemma line_attributes_extinf:
  assumes "entry_ok ctx s"
  shows "line_attributes ctx (extinf_line (pc_us ctx) s) =
    empty_stream\<lparr>si_urls := Some [], si_tvg_id := si_tvg_id s, si_tvg_chno := si_tvg_chno s,
      si_tvg_type := si_tvg_type s, si_group := stream_group_for_output (pc_us ctx) s,
      si_logo_url := (if si_logo_url s = [] then []
                      else tvg_logo_parser (pc_lib ctx) (us_environ (pc_us ctx)) (si_logo_url s)),
      si_title := output_title s\<rparr>"
proof -
  let ?as = "entry_attrs (pc_us ctx) s" and ?t = "output_title s"
  have ok: "\<forall>a \<in> set ?as. attr_ok a" by (rule entry_attrs_ok) (use assms in \<open>simp_all add: entry_ok_def\<close>)
  have q: "CHR 0x22 \<notin> set ('','' @ ?t)" "CHR 0x22 \<notin> set ?t" "trim_space ?t = ?t"
    using assms by (simp_all add: entry_ok_def text_ok_def)
  have name: "tvg_name_parser (pc_lib ctx) (us_environ (pc_us ctx)) ?t = ?t"
    using assms q by (simp add: tvg_name_parser_def entry_ok_def general_parser_id)
  have attrs: "find_attrs (extinf_line (pc_us ctx) s) = ?as"
    unfolding extinf_line_eq by (rule find_attrs_line [OF ok q(1)])
  have rest: "cut_str (fold (\<lambda>a. remove_first (attr_text a)) ?as (extinf_line (pc_us ctx) s)) '','' =
      Some (extinf_head @ replicate (length ?as) (CHR '' ''), ?t)"
    unfolding extinf_line_eq strip_attrs_line [OF ok] by (rule cut_stripped_line)
  have fields: "(fold (apply_attr ctx) ?as (empty_stream\<lparr>si_urls := Some []\<rparr>))\<lparr>si_title := ?t\<rparr> =
    empty_stream\<lparr>si_urls := Some [], si_tvg_id := si_tvg_id s, si_tvg_chno := si_tvg_chno s,
      si_tvg_type := si_tvg_type s, si_group := stream_group_for_output (pc_us ctx) s,
      si_logo_url := (if si_logo_url s = [] then []
                      else tvg_logo_parser (pc_lib ctx) (us_environ (pc_us ctx)) (si_logo_url s)),
      si_title := ?t\<rparr>"
    unfolding entry_attrs_def fold_append comp_def
    using assms by (simp add: entry_ok_def apply_opt_attr) (simp add: empty_stream_def)
  show ?thesis
    using assms fields by (simp add: line_attributes_def attrs rest Let_def q name entry_ok_def)
qed

section \<open>The stored URL is found again\<close>

text \<open>The files that the loader reads for a title and a source.\<close>

definition url_file_matches :: "stream_files \<Rightarrow> string \<Rightarrow> string \<Rightarrow> stream_files" where
  "url_file_matches files title idx =
     dedup_acc [] (concat (map (glob_prefix files) (url_file_names title idx)))"

lemma set_url_file_matches:
  "f \<in> set (url_file_matches files title idx) \<longleftrightarrow>
     f \<in> set files \<and> (\<exists>n \<in> set (url_file_names title idx). has_prefix (snd (fst f)) n)"
  by (auto simp: url_file_matches_def dedup_acc_set glob_prefix_def)

lemma load_stream_urls_lookup:
  "lookup_url (urls_of (load_stream_urls files idx s)) i k =
     (case (if i = idx then map_of (rev (List.map_filter entry_of_file (url_file_matches files (si_title s) idx))) k
            else None) of
        Some e \<Rightarrow> Some e | None \<Rightarrow> lookup_url (urls_of s) i k)"
proof -
  define es where "es = List.map_filter entry_of_file (url_file_matches files (si_title s) idx)"
  have load: "load_stream_urls files idx s =
      (if es = [] then s
       else s\<lparr>si_urls := Some (AList.update idx (fold (\<lambda>(k, e). AList.update k e) es
                (case map_of (urls_of s) idx of None \<Rightarrow> [] | Some m \<Rightarrow> m)) (urls_of s))\<rparr>)"
    by (simp add: load_stream_urls_def es_def url_file_matches_def Let_def)
  show ?thesis
    unfolding load es_def [symmetric]
    by (cases "map_of (urls_of s) idx")
       (auto simp: lookup_url_def urls_of_def update_conv' map_of_fold_update map_add_def split: option.splits)
qed

lemma map_filter_entry:
  "f \<in> set xs \<Longrightarrow> entry_of_file f = Some (k, e) \<Longrightarrow>
     \<exists>e'. map_of (rev (List.map_filter entry_of_file xs)) k = Some e'"
proof -
  assume "f \<in> set xs" and "entry_of_file f = Some (k, e)"
  then have "(k, e) \<in> set (List.map_filter entry_of_file xs)" by (force simp: List.map_filter_def)
  then have "k \<in> fst ` set (rev (List.map_filter entry_of_file xs))" by force
  then show ?thesis by (metis map_of_eq_None_iff not_None_eq)
qed

lemma map_filter_entry_from:
  "map_of (rev (List.map_filter entry_of_file xs)) k = Some e \<Longrightarrow>
     \<exists>f \<in> set xs. entry_of_file f = Some (k, e)"
  by (drule map_of_SomeD) (auto simp: List.map_filter_def)

lemma url_file_sub_index:
  assumes "lib_sha3 lib url \<noteq> []"
  shows "sub_index_of_file (url_file_name lib title idx url) \<noteq> []"
proof -
  let ?a = "raw_url_encode title @ ''_'' @ idx" and ?h = "url_hash lib url"
  have h: "?h \<noteq> []" using assms by (cases "lib_sha3 lib url") (simp_all add: url_hash_def hex_encode_def Let_def)
  have "contains_str (?a @ ''__'' @ ?h) ''__''"
    unfolding contains_str_iff_sublist by blast
  then obtain i where i: "index_of (?a @ ''__'' @ ?h) ''__'' = Some i" by (auto simp: contains_str_def)
  have "has_prefix (drop (length ?a) (?a @ ''__'' @ ?h)) ''__''" by simp
  then have "i \<le> length ?a" using index_of_least [OF i] by (meson not_le_imp_less)
  then have "drop (i + 2) (?a @ ''__'' @ ?h) \<noteq> []" using h by (cases ?h) auto
  then show ?thesis using i
    by (simp add: sub_index_of_file_def url_file_name_def cut_str_def)
qed

lemma itoa_no_colon: "CHR '':'' \<notin> set (itoa n)"
  by (auto simp: itoa_def is_digit_def dest!: nat_str_digits split: if_splits)

lemma cut_colons: "CHR '':'' \<notin> set p \<Longrightarrow> cut_str (p @ '':::'' @ t) '':::'' = Some (p, t)"
proof -
  assume "CHR '':'' \<notin> set p"
  then have "index_of (p @ '':::'' @ t) '':::'' = Some (length p)" by (induction p) auto
  then show ?thesis by (simp add: cut_str_def)
qed

lemma entry_of_url_file:
  assumes "lib_sha3 lib url \<noteq> []"
  shows "entry_of_file ((sh, url_file_name lib title idx url), itoa line @ '':::'' @ std_encode url) =
    Some (sub_index_of_file (url_file_name lib title idx url), trim_space (itoa line @ '':::'' @ url))"
  using url_file_sub_index [OF assms] cut_colons [OF itoa_no_colon, of line "std_encode url"]
  by (simp add: entry_of_file_def b64_roundtrip)

lemma set_insort_by: "set (insort_by lt x xs) = insert x (set xs)"
  by (metis mset_insort_by set_mset_add_mset_insert set_mset_mset)

lemma index_stream_url_stores:
  assumes "map_of files (take 3 (url_hash lib url), url_file_name lib (si_title s) idx url) = None"
  shows "((take 3 (url_hash lib url), url_file_name lib (si_title s) idx url),
           itoa line @ '':::'' @ std_encode url) \<in> set (snd (index_stream_url lib idx line url s files))"
  using assms by (simp add: index_stream_url_def Let_def set_insort_by)

lemma index_stream_url_keeps: "set files \<subseteq> set (snd (index_stream_url lib idx line url s files))"
  by (auto simp: index_stream_url_def Let_def set_insort_by)

lemma url_file_prefix:
  "has_prefix (url_file_name lib title (idx @ rest) url) (raw_url_encode title @ ''_'' @ idx)"
  using has_prefix_append [of "raw_url_encode title @ ''_'' @ idx"]
  by (simp add: url_file_name_def)

text \<open>The pattern name_index* admits every source whose index starts with the given one.\<close>

lemma load_finds_stored:
  assumes "lib_sha3 lib url \<noteq> []" and "si_title t = si_title s"
    and "map_of files (take 3 (url_hash lib url), url_file_name lib (si_title s) (idx @ rest) url) = None"
  shows "\<exists>e. lookup_url (urls_of (load_stream_urls
      (snd (index_stream_url lib (idx @ rest) line url s files)) idx t)) idx
      (sub_index_of_file (url_file_name lib (si_title s) (idx @ rest) url)) = Some e"
proof -
  let ?fs = "snd (index_stream_url lib (idx @ rest) line url s files)"
    and ?f = "((take 3 (url_hash lib url), url_file_name lib (si_title s) (idx @ rest) url),
               itoa line @ '':::'' @ std_encode url)"
  have "?f \<in> set (url_file_matches ?fs (si_title t) idx)"
    unfolding set_url_file_matches
    using index_stream_url_stores [OF assms(3)] url_file_prefix [of lib "si_title s" idx rest url] assms(2)
    by (auto simp: url_file_names_def Let_def)
  from map_filter_entry [OF this entry_of_url_file [OF assms(1)]] show ?thesis
    by (auto simp: load_stream_urls_lookup)
qed

end
