(* ===== verification/Sorter.thy ===== *)
theory Sorter
  imports Streams
begin

text \<open>
  The manager that merges entries of one title and sorts the playlist,
  sourceproc/sorting.go. Entries live in 4096 shards, each with a buffer in memory and a
  JSON file; a buffer of 250 entries is flushed. \<open>sm_unreadable\<close> and \<open>sm_unwritable\<close> name
  the shard files whose operations fail; a file holds entries as they are read back
  (\<open>json_stream\<close>). The boolean of a result is the absence of an error. The last sections
  show that the shards implement one map from normalised titles to merged entries.
\<close>

record shard_data =
  sd_index :: "string list"
  sd_buffer :: "(string \<times> stream_info) list"

record sorting_manager =
  sm_shards :: "nat \<Rightarrow> shard_data option"
  sm_files :: "nat \<Rightarrow> (string \<times> stream_info) list option"
  sm_key :: string
  sm_dir :: string
  sm_unreadable :: "nat \<Rightarrow> bool"
  sm_unwritable :: "nat \<Rightarrow> bool"

definition mutex_shards :: nat where "mutex_shards = 4096"
definition flush_limit :: nat where "flush_limit = 250"

definition new_sorting_manager :: "environ \<Rightarrow> (nat \<Rightarrow> bool) \<Rightarrow> (nat \<Rightarrow> bool) \<Rightarrow> sorting_manager" where
  "new_sorting_manager env rd wr =
     \<lparr>sm_shards = (\<lambda>_. None), sm_files = (\<lambda>_. None), sm_key = os_getenv env ''SORTING_KEY'',
      sm_dir = to_lower (os_getenv env ''SORTING_DIRECTION''),
      sm_unreadable = rd, sm_unwritable = wr\<rparr>"

section \<open>Shard files\<close>

definition read_shard :: "sorting_manager \<Rightarrow> nat \<Rightarrow> (string \<times> stream_info) list option" where
  "read_shard m i =
     (case sm_files m i of
        None \<Rightarrow> Some []
      | Some es \<Rightarrow> if sm_unreadable m i then None else Some es)"

definition write_shard :: "nat \<Rightarrow> (string \<times> stream_info) list \<Rightarrow> sorting_manager \<Rightarrow> sorting_manager option" where
  "write_shard i es m =
     (if sm_unwritable m i then None
      else Some (m\<lparr>sm_files := (sm_files m)(i \<mapsto> map (map_prod id json_stream) es)\<rparr>))"

definition merge_entry :: "string \<Rightarrow> stream_info \<Rightarrow> (string \<times> stream_info) list \<Rightarrow> (string \<times> stream_info) list" where
  "merge_entry t s es =
     AList.update t (case map_of es t of None \<Rightarrow> s | Some e \<Rightarrow> merge_stream_info e s) es"

definition put_shard :: "nat \<Rightarrow> shard_data \<Rightarrow> sorting_manager \<Rightarrow> sorting_manager" where
  "put_shard i d m = m\<lparr>sm_shards := (sm_shards m)(i \<mapsto> d)\<rparr>"

definition handle_existing ::
  "nat \<Rightarrow> string \<Rightarrow> stream_info \<Rightarrow> shard_data \<Rightarrow> sorting_manager \<Rightarrow> bool \<times> sorting_manager" where
  "handle_existing i t s d m =
     (case map_of (sd_buffer d) t of
        Some e \<Rightarrow> (True, put_shard i (d\<lparr>sd_buffer := AList.update t (merge_stream_info e s) (sd_buffer d)\<rparr>) m)
      | None \<Rightarrow>
          (case read_shard m i of
             None \<Rightarrow> (False, put_shard i d m)
           | Some es \<Rightarrow>
               (case write_shard i (merge_entry t s es) m of
                  None \<Rightarrow> (False, put_shard i d m)
                | Some m' \<Rightarrow> (True, put_shard i d m'))))"

definition flush_shard :: "nat \<Rightarrow> shard_data \<Rightarrow> sorting_manager \<Rightarrow> bool \<times> sorting_manager" where
  "flush_shard i d m =
     (if sd_buffer d = [] then (True, put_shard i d m)
      else
        (case read_shard m i of
           None \<Rightarrow> (False, put_shard i d m)
         | Some es \<Rightarrow>
             (case write_shard i (fold (\<lambda>(t, s). merge_entry t s) (sd_buffer d) es) m of
                None \<Rightarrow> (False, put_shard i d m)
              | Some m' \<Rightarrow> (True, put_shard i (d\<lparr>sd_buffer := []\<rparr>) m'))))"

text \<open>\<open>AddToSorter\<close>: the index of a shard that has a file but not the title is first
  extended by the titles of the file.\<close>

definition shard_of :: "go_lib \<Rightarrow> string \<Rightarrow> nat" where
  "shard_of lib t = lib_xxhash lib t mod mutex_shards"

definition add_new_entry :: "nat \<Rightarrow> string \<Rightarrow> stream_info \<Rightarrow> shard_data \<Rightarrow> sorting_manager \<Rightarrow> bool \<times> sorting_manager" where
  "add_new_entry i t s d m =
     (let d' = d\<lparr>sd_buffer := AList.update t s (sd_buffer d), sd_index := t # sd_index d\<rparr> in
      if length (sd_buffer d') \<ge> flush_limit then flush_shard i d' m else (True, put_shard i d' m))"

definition add_to_sorter :: "go_lib \<Rightarrow> stream_info \<Rightarrow> sorting_manager \<Rightarrow> bool \<times> sorting_manager" where
  "add_to_sorter lib s m =
     (let t = sanitize_field (si_title s); i = shard_of lib t;
          d = (case sm_shards m i of None \<Rightarrow> \<lparr>sd_index = [], sd_buffer = []\<rparr> | Some d \<Rightarrow> d)
      in if t \<in> set (sd_index d) then handle_existing i t s d m
         else if sm_files m i = None then add_new_entry i t s d m
         else
           (case read_shard m i of
              None \<Rightarrow> (False, put_shard i d m)
            | Some es \<Rightarrow>
                let d1 = d\<lparr>sd_index := map fst es @ sd_index d\<rparr> in
                if t \<in> set (sd_index d1) then handle_existing i t s d1 m
                else add_new_entry i t s d1 m))"

section \<open>The sorted playlist\<close>

definition sorter_compare :: "string \<Rightarrow> stream_info \<Rightarrow> stream_info \<Rightarrow> int" where
  "sorter_compare key a b =
     (if key \<in> set [''tvg-chno'', ''channel-id'', ''channel-number'']
      then compare_numeric (si_tvg_chno a) (si_tvg_chno b)
      else if key = ''tvg-id'' then compare_numeric (si_tvg_id a) (si_tvg_id b)
      else if key = ''source'' then compare_numeric (si_source_m3u a) (si_source_m3u b)
      else if key \<in> set [''tvg-group'', ''group-title'']
      then string_compare (to_lower (si_group a)) (to_lower (si_group b))
      else if key = ''tvg-type'' then string_compare (to_lower (si_tvg_type a)) (to_lower (si_tvg_type b))
      else string_compare (to_lower (si_title a)) (to_lower (si_title b)))"

definition sorter_less :: "string \<Rightarrow> string \<Rightarrow> stream_info \<Rightarrow> stream_info \<Rightarrow> bool" where
  "sorter_less key dir a b =
     (if dir = ''desc'' then sorter_compare key a b > 0 else sorter_compare key a b < 0)"

definition flush_all :: "sorting_manager \<Rightarrow> sorting_manager" where
  "flush_all m =
     fold (\<lambda>i m. case sm_shards m i of None \<Rightarrow> m | Some d \<Rightarrow> snd (flush_shard i d m)) [0..<mutex_shards] m"

fun collect_shards :: "sorting_manager \<Rightarrow> nat list \<Rightarrow> stream_info list option" where
  "collect_shards m [] = Some []"
| "collect_shards m (i # is) =
     (case sm_files m i of
        None \<Rightarrow> collect_shards m is
      | Some es \<Rightarrow>
          if sm_unreadable m i then None
          else map_option (\<lambda>r. map snd es @ r) (collect_shards m is))"

text \<open>\<open>GetSortedEntries\<close>: the entries its callback receives, None for the error result.\<close>

definition get_sorted_entries :: "sorting_manager \<Rightarrow> stream_info list option \<times> sorting_manager" where
  "get_sorted_entries m =
     (let m' = flush_all m in
      (map_option (sort_by (sorter_less (sm_key m') (sm_dir m'))) (collect_shards m' [0..<mutex_shards]), m'))"

section \<open>Merging sees only what a file keeps\<close>

definition epg_list :: "stream_info \<Rightarrow> (string \<times> string) list" where
  "epg_list s = (case si_epg_meta s of None \<Rightarrow> [] | Some m \<Rightarrow> m)"

definition plain_logo :: "stream_info \<Rightarrow> bool" where
  "plain_logo s = (\<not> si_auto_logo s)"

lemma json_epg [simp]: "epg_list (json_stream s) = epg_list s"
  by (simp add: epg_list_def json_stream_def split: option.splits)

lemma json_stream_eq_iff:
  "json_stream a = json_stream b \<longleftrightarrow>
     si_title a = si_title b \<and> si_tvg_id a = si_tvg_id b \<and> si_tvg_chno a = si_tvg_chno b \<and>
     si_tvg_type a = si_tvg_type b \<and> si_logo_url a = si_logo_url b \<and> si_group a = si_group b \<and>
     si_source_m3u a = si_source_m3u b \<and> si_source_index a = si_source_index b \<and>
     si_source_url a = si_source_url b \<and> epg_list a = epg_list b \<and>
     si_sub_channel a = si_sub_channel b \<and> si_display_title a = si_display_title b"
  by (cases a; cases b) (auto simp: json_stream_def epg_list_def split: option.splits)

lemma json_stream_idem [simp]: "json_stream (json_stream s) = json_stream s"
  by (simp add: json_stream_def split: option.splits)

lemma json_plain [simp]: "plain_logo (json_stream s)"
  by (simp add: plain_logo_def json_stream_def)

lemma json_title [simp]: "si_title (json_stream s) = si_title s"
  by (simp add: json_stream_def)

definition record_epg :: "string \<Rightarrow> string \<Rightarrow> (string \<times> string) list \<Rightarrow> (string \<times> string) list" where
  "record_epg i t m =
     (if trim_space i = [] \<or> trim_space t = [] then m else AList.update (trim_space i) (trim_space t) m)"

lemma record_meta_epg [simp]: "epg_list (record_source_epg_meta i t s) = record_epg i t (epg_list s)"
  by (simp add: record_source_epg_meta_def record_epg_def epg_list_def Let_def split: option.splits)

text \<open>Recording guide ids touches the field of the guide ids only.\<close>

definition same_but_epg :: "stream_info \<Rightarrow> stream_info \<Rightarrow> bool" where
  "same_but_epg a b = (b = a\<lparr>si_epg_meta := si_epg_meta b\<rparr>)"

lemma same_but_epg_refl [simp]: "same_but_epg a a"
  by (simp add: same_but_epg_def)

lemma same_but_epg_trans: "same_but_epg a b \<Longrightarrow> same_but_epg b c \<Longrightarrow> same_but_epg a c"
  by (cases a; cases b; cases c) (simp add: same_but_epg_def)

lemma same_but_epg_record: "same_but_epg s (record_source_epg_meta i t s)"
  by (simp add: same_but_epg_def record_source_epg_meta_def Let_def)

lemma same_but_epg_fold: "same_but_epg s (fold (\<lambda>(i, t). record_source_epg_meta i t) m s)"
proof (induction m arbitrary: s)
  case Nil
  then show ?case by simp
next
  case (Cons p m)
  obtain i t where "p = (i, t)" by (cases p)
  then show ?case using same_but_epg_trans [OF same_but_epg_record Cons.IH] by simp
qed

lemma epg_fold: "epg_list (fold (\<lambda>(i, t). record_source_epg_meta i t) m s) = fold (\<lambda>(i, t). record_epg i t) m (epg_list s)"
  by (induction m arbitrary: s) (auto split: prod.splits)

lemma same_but_epg_merge_meta: "same_but_epg a (merge_source_epg_meta a s)"
proof -
  let ?b = "record_source_epg_meta (si_source_m3u s) (si_tvg_id s)
      (record_source_epg_meta (si_source_m3u a) (si_tvg_id a) a)"
  have "same_but_epg a ?b" using same_but_epg_trans [OF same_but_epg_record same_but_epg_record] by blast
  moreover have "same_but_epg ?b (?b\<lparr>si_epg_meta := Some []\<rparr>)" by (simp add: same_but_epg_def)
  ultimately show ?thesis
    unfolding merge_source_epg_meta_def Let_def
    by (auto split: option.splits intro: same_but_epg_trans same_but_epg_fold)
qed

lemma merge_meta_epg:
  "epg_list (merge_source_epg_meta a s) =
     fold (\<lambda>(i, t). record_epg i t) (epg_list s)
       (record_epg (si_source_m3u s) (si_tvg_id s) (record_epg (si_source_m3u a) (si_tvg_id a) (epg_list a)))"
proof -
  let ?b = "record_source_epg_meta (si_source_m3u s) (si_tvg_id s)
      (record_source_epg_meta (si_source_m3u a) (si_tvg_id a) a)"
  have "epg_list (case si_epg_meta ?b of None \<Rightarrow> ?b\<lparr>si_epg_meta := Some []\<rparr> | Some _ \<Rightarrow> ?b) = epg_list ?b"
    by (simp add: epg_list_def split: option.splits)
  then show ?thesis
    by (simp add: merge_source_epg_meta_def Let_def epg_fold epg_list_def [of s] split: option.splits)
qed

lemma same_but_epg_fields:
  "same_but_epg a b \<Longrightarrow>
     si_title b = si_title a \<and> si_tvg_id b = si_tvg_id a \<and> si_tvg_chno b = si_tvg_chno a \<and>
     si_tvg_type b = si_tvg_type a \<and> si_logo_url b = si_logo_url a \<and> si_auto_logo b = si_auto_logo a \<and>
     si_group b = si_group a \<and> si_urls b = si_urls a \<and> si_source_m3u b = si_source_m3u a \<and>
     si_source_index b = si_source_index a \<and> si_source_url b = si_source_url a \<and>
     si_sub_channel b = si_sub_channel a \<and> si_display_title b = si_display_title a"
  by (cases a; cases b) (simp add: same_but_epg_def)

text \<open>The fields of a merge of entries without automatic logos.\<close>

lemma merge_fields:
  assumes "plain_logo a" and "plain_logo s"
  shows "si_title (merge_stream_info a s) = first_filled (si_title a) (si_title s)"
    and "si_tvg_id (merge_stream_info a s) = first_filled (si_tvg_id a) (si_tvg_id s)"
    and "si_tvg_chno (merge_stream_info a s) = first_filled (si_tvg_chno a) (si_tvg_chno s)"
    and "si_tvg_type (merge_stream_info a s) = first_filled (si_tvg_type a) (si_tvg_type s)"
    and "si_logo_url (merge_stream_info a s) = first_filled (si_logo_url a) (si_logo_url s)"
    and "si_auto_logo (merge_stream_info a s) = False"
    and "si_group (merge_stream_info a s) = first_filled (si_group a) (si_group s)"
    and "si_source_m3u (merge_stream_info a s) = (if earlier_source s a then si_source_m3u s else si_source_m3u a)"
    and "si_source_index (merge_stream_info a s) = (if earlier_source s a then si_source_index s else si_source_index a)"
    and "si_source_url (merge_stream_info a s) = si_source_url a"
    and "si_sub_channel (merge_stream_info a s) = si_sub_channel a"
    and "si_display_title (merge_stream_info a s) = si_display_title a"
    and "epg_list (merge_stream_info a s) =
      fold (\<lambda>(i, t). record_epg i t) (epg_list s)
        (record_epg (si_source_m3u s) (si_tvg_id s)
          (record_epg (si_source_m3u a) (first_filled (si_tvg_id a) (si_tvg_id s)) (epg_list a)))"
proof -
  define b2 where "b2 = a\<lparr>si_title := first_filled (si_title a) (si_title s),
      si_tvg_id := first_filled (si_tvg_id a) (si_tvg_id s),
      si_tvg_chno := first_filled (si_tvg_chno a) (si_tvg_chno s),
      si_tvg_type := first_filled (si_tvg_type a) (si_tvg_type s),
      si_logo_url := first_filled (si_logo_url a) (si_logo_url s), si_auto_logo := False,
      si_group := first_filled (si_group a) (si_group s)\<rparr>"
  define b3 where "b3 = merge_source_epg_meta b2 s"
  have "b2 = fill_group (merge_logo (fill_attributes a s) s) s"
    using assms by (auto simp: b2_def fill_group_def merge_logo_def fill_attributes_def plain_logo_def first_filled_def)
  then have merge: "merge_stream_info a s =
      (let b4 = b3\<lparr>si_urls := Some (merge_urls (urls_of b3) (urls_of s))\<rparr> in
       if earlier_source s b4
       then b4\<lparr>si_source_m3u := si_source_m3u s, si_source_index := si_source_index s\<rparr> else b4)"
    unfolding merge_stream_info_def Let_def b3_def by (simp only:)
  note f = same_but_epg_fields [OF same_but_epg_merge_meta, of b2 s, folded b3_def]
  have e: "epg_list (b\<lparr>si_urls := u\<rparr>) = epg_list b"
    "epg_list (b\<lparr>si_source_m3u := x, si_source_index := y\<rparr>) = epg_list b" for b u x y
    by (simp_all add: epg_list_def)
  have src: "earlier_source s (b3\<lparr>si_urls := u\<rparr>) = earlier_source s a" for u
    using f by (simp add: earlier_source_def b2_def)
  show "si_title (merge_stream_info a s) = first_filled (si_title a) (si_title s)"
    "si_tvg_id (merge_stream_info a s) = first_filled (si_tvg_id a) (si_tvg_id s)"
    "si_tvg_chno (merge_stream_info a s) = first_filled (si_tvg_chno a) (si_tvg_chno s)"
    "si_tvg_type (merge_stream_info a s) = first_filled (si_tvg_type a) (si_tvg_type s)"
    "si_logo_url (merge_stream_info a s) = first_filled (si_logo_url a) (si_logo_url s)"
    "si_auto_logo (merge_stream_info a s) = False"
    "si_group (merge_stream_info a s) = first_filled (si_group a) (si_group s)"
    "si_source_m3u (merge_stream_info a s) = (if earlier_source s a then si_source_m3u s else si_source_m3u a)"
    "si_source_index (merge_stream_info a s) = (if earlier_source s a then si_source_index s else si_source_index a)"
    "si_source_url (merge_stream_info a s) = si_source_url a"
    "si_sub_channel (merge_stream_info a s) = si_sub_channel a"
    "si_display_title (merge_stream_info a s) = si_display_title a"
    using f by (simp_all add: merge Let_def src b2_def)
  have "epg_list b2 = epg_list a" by (simp add: b2_def epg_list_def)
  then show "epg_list (merge_stream_info a s) =
      fold (\<lambda>(i, t). record_epg i t) (epg_list s)
        (record_epg (si_source_m3u s) (si_tvg_id s)
          (record_epg (si_source_m3u a) (first_filled (si_tvg_id a) (si_tvg_id s)) (epg_list a)))"
    using merge_meta_epg [of b2 s] by (simp add: merge Let_def e b3_def [symmetric]) (simp add: b2_def)
qed

lemma merge_plain: "plain_logo a \<Longrightarrow> plain_logo s \<Longrightarrow> plain_logo (merge_stream_info a s)"
  by (simp add: plain_logo_def [of "merge_stream_info a s"] merge_fields)

lemma merge_json_cong:
  assumes "json_stream a = json_stream b" "json_stream s = json_stream t"
    and "plain_logo a" "plain_logo b" "plain_logo s" "plain_logo t"
  shows "json_stream (merge_stream_info a s) = json_stream (merge_stream_info b t)"
proof -
  have "earlier_source s a = earlier_source t b"
    using assms(1,2) by (simp add: earlier_source_def json_stream_eq_iff)
  then show ?thesis
    using assms(1,2) unfolding json_stream_eq_iff
    by (simp add: merge_fields [OF assms(3,5)] merge_fields [OF assms(4,6)])
qed

section \<open>The shards implement a map from titles to merged entries\<close>

text \<open>The abstract sorter: a map from normalised titles to merged entries.\<close>

type_synonym merged_map = "string \<Rightarrow> stream_info option"

definition merge_into :: "stream_info \<Rightarrow> merged_map \<Rightarrow> merged_map" where
  "merge_into s M =
     (let t = sanitize_field (si_title s) in
      M(t \<mapsto> (case M t of None \<Rightarrow> s | Some e \<Rightarrow> merge_stream_info e s)))"

definition shard_view :: "shard_data \<Rightarrow> (string \<times> stream_info) list \<Rightarrow> string \<Rightarrow> stream_info option" where
  "shard_view d es t = (case map_of (sd_buffer d) t of Some e \<Rightarrow> Some e | None \<Rightarrow> map_of es t)"

definition entries_plain :: "(string \<times> stream_info) list \<Rightarrow> bool" where
  "entries_plain es = (distinct (map fst es) \<and> (\<forall>(t, e) \<in> set es. plain_logo e))"

definition shard_ok :: "go_lib \<Rightarrow> merged_map \<Rightarrow> nat \<Rightarrow> shard_data \<Rightarrow> (string \<times> stream_info) list \<Rightarrow> bool" where
  "shard_ok lib M i d es =
     (entries_plain (sd_buffer d) \<and> entries_plain es \<and>
      set (map fst (sd_buffer d)) \<inter> set (map fst es) = {} \<and>
      set (sd_index d) = set (map fst (sd_buffer d)) \<union> set (map fst es) \<and>
      (\<forall>t. map_option json_stream (shard_view d es t) =
            (if shard_of lib t = i then map_option json_stream (M t) else None)))"

definition data_of :: "sorting_manager \<Rightarrow> nat \<Rightarrow> shard_data" where
  "data_of m i = (case sm_shards m i of None \<Rightarrow> \<lparr>sd_index = [], sd_buffer = []\<rparr> | Some d \<Rightarrow> d)"

definition file_of :: "sorting_manager \<Rightarrow> nat \<Rightarrow> (string \<times> stream_info) list" where
  "file_of m i = (case sm_files m i of None \<Rightarrow> [] | Some es \<Rightarrow> es)"

definition map_plain :: "merged_map \<Rightarrow> bool" where
  "map_plain M = (\<forall>t e. M t = Some e \<longrightarrow> plain_logo e)"

definition sorter_ok :: "go_lib \<Rightarrow> merged_map \<Rightarrow> sorting_manager \<Rightarrow> bool" where
  "sorter_ok lib M m =
     (map_plain M \<and> (\<forall>i. \<not> sm_unreadable m i \<and> \<not> sm_unwritable m i \<and> shard_ok lib M i (data_of m i) (file_of m i)))"

lemma plain_lookup: "entries_plain es \<Longrightarrow> map_of es t = Some e \<Longrightarrow> plain_logo e"
  by (auto simp: entries_plain_def dest: map_of_SomeD)

lemma entries_plain_update: "entries_plain es \<Longrightarrow> plain_logo e \<Longrightarrow> entries_plain (AList.update t e es)"
proof -
  assume es: "entries_plain es" and e: "plain_logo e"
  have "\<forall>(t, e) \<in> set (AList.update t e es). plain_logo e"
    using es e unfolding entries_plain_def by (induction es) auto
  then show ?thesis using es by (simp add: entries_plain_def distinct_update)
qed

lemma map_of_json: "map_of (map (map_prod id json_stream) es) t = map_option json_stream (map_of es t)"
  by (induction es) auto

lemma entries_plain_json: "distinct (map fst es) \<Longrightarrow> entries_plain (map (map_prod id json_stream) es)"
  by (auto simp: entries_plain_def comp_def)

lemma json_keys: "map fst (map (map_prod id json_stream) es) = map fst es"
  by (simp add: comp_def)

lemma merge_entry_plain: "entries_plain es \<Longrightarrow> plain_logo s \<Longrightarrow> entries_plain (merge_entry t s es)"
  by (auto simp: merge_entry_def split: option.splits intro!: entries_plain_update merge_plain dest: plain_lookup)

lemma merge_entry_keys: "set (map fst (merge_entry t s es)) = insert t (set (map fst es))"
  by (simp only: merge_entry_def set_AList_update_keys)

lemma map_of_merge_entry:
  "map_of (merge_entry t s es) = (map_of es)(t \<mapsto> (case map_of es t of None \<Rightarrow> s | Some e \<Rightarrow> merge_stream_info e s))"
  by (simp add: merge_entry_def update_conv')

lemma flush_entries:
  assumes "entries_plain buf" "entries_plain es" "set (map fst buf) \<inter> set (map fst es) = {}"
  shows "entries_plain (fold (\<lambda>(t, s). merge_entry t s) buf es) \<and>
    set (map fst (fold (\<lambda>(t, s). merge_entry t s) buf es)) = set (map fst buf) \<union> set (map fst es) \<and>
    map_of (fold (\<lambda>(t, s). merge_entry t s) buf es) t =
      (case map_of buf t of Some e \<Rightarrow> Some e | None \<Rightarrow> map_of es t)"
  using assms
proof (induction buf arbitrary: es)
  case Nil
  then show ?case by simp
next
  case (Cons p buf)
  obtain k s where p: "p = (k, s)" by (cases p)
  have k: "k \<notin> set (map fst buf)" "k \<notin> set (map fst es)" "plain_logo s" "entries_plain buf"
    using Cons.prems by (auto simp: p entries_plain_def)
  then have none: "map_of es k = None" "map_of buf k = None" by (simp_all add: map_of_eq_None_iff)
  have "entries_plain (merge_entry k s es)" using Cons.prems(2) k(3) by (rule merge_entry_plain)
  moreover have "set (map fst buf) \<inter> set (map fst (merge_entry k s es)) = {}"
    using Cons.prems(3) k unfolding merge_entry_keys by (auto simp: p)
  ultimately show ?case
    using Cons.IH [OF k(4), of "merge_entry k s es"] none
    by (auto simp: p map_of_merge_entry merge_entry_keys [simplified] split: option.splits)
qed

text \<open>A flush keeps the view.\<close>

lemma shard_ok_flush:
  assumes "shard_ok lib M i d es"
  shows "shard_ok lib M i (d\<lparr>sd_buffer := []\<rparr>)
    (map (map_prod id json_stream) (fold (\<lambda>(t, s). merge_entry t s) (sd_buffer d) es))"
proof -
  let ?fs = "fold (\<lambda>(t, s). merge_entry t s) (sd_buffer d) es"
  have f: "entries_plain ?fs" "set (map fst ?fs) = set (map fst (sd_buffer d)) \<union> set (map fst es)"
    "map_of ?fs t = shard_view d es t" for t
    using assms flush_entries [of "sd_buffer d" es t] by (auto simp: shard_ok_def shard_view_def)
  have view: "map_option json_stream (shard_view (d\<lparr>sd_buffer := []\<rparr>) (map (map_prod id json_stream) ?fs) t) =
      map_option json_stream (shard_view d es t)" for t
    by (simp add: shard_view_def [of "d\<lparr>sd_buffer := []\<rparr>"] map_of_json f(3) option.map_comp comp_def)
  show ?thesis
    using assms f(1,2) view unfolding shard_ok_def json_keys
    by (simp add: entries_plain_json [OF conjunct1 [OF f(1) [unfolded entries_plain_def]]])
       (simp add: entries_plain_def)
qed

lemma flush_shard_ok:
  assumes "\<not> sm_unreadable m i" "\<not> sm_unwritable m i" "shard_ok lib M i d (file_of m i)"
  shows "fst (flush_shard i d m)"
    and "shard_ok lib M i (data_of (snd (flush_shard i d m)) i) (file_of (snd (flush_shard i d m)) i)"
    and "j \<noteq> i \<Longrightarrow> sm_shards (snd (flush_shard i d m)) j = sm_shards m j \<and> sm_files (snd (flush_shard i d m)) j = sm_files m j"
    and "sm_unreadable (snd (flush_shard i d m)) = sm_unreadable m"
    and "sm_unwritable (snd (flush_shard i d m)) = sm_unwritable m"
    and "sd_buffer (data_of (snd (flush_shard i d m)) i) = []"
    and "sm_key (snd (flush_shard i d m)) = sm_key m \<and> sm_dir (snd (flush_shard i d m)) = sm_dir m"
proof -
  have r: "read_shard m i = Some (file_of m i)"
    using assms(1) by (simp add: read_shard_def file_of_def split: option.splits)
  have fl: "flush_shard i d m =
      (if sd_buffer d = [] then (True, put_shard i d m)
       else (True, put_shard i (d\<lparr>sd_buffer := []\<rparr>)
         (m\<lparr>sm_files := (sm_files m)(i \<mapsto> map (map_prod id json_stream)
              (fold (\<lambda>(t, s). merge_entry t s) (sd_buffer d) (file_of m i)))\<rparr>)))"
    using assms(2) by (simp add: flush_shard_def r write_shard_def)
  show "fst (flush_shard i d m)" by (simp add: fl)
  show "shard_ok lib M i (data_of (snd (flush_shard i d m)) i) (file_of (snd (flush_shard i d m)) i)"
    using assms(3) shard_ok_flush [OF assms(3)]
    by (simp add: fl put_shard_def data_of_def) (simp add: file_of_def)
  show "j \<noteq> i \<Longrightarrow> sm_shards (snd (flush_shard i d m)) j = sm_shards m j \<and> sm_files (snd (flush_shard i d m)) j = sm_files m j"
    by (simp add: fl put_shard_def)
  show "sm_unreadable (snd (flush_shard i d m)) = sm_unreadable m"
    and "sm_unwritable (snd (flush_shard i d m)) = sm_unwritable m"
    and "sd_buffer (data_of (snd (flush_shard i d m)) i) = []"
    and "sm_key (snd (flush_shard i d m)) = sm_key m \<and> sm_dir (snd (flush_shard i d m)) = sm_dir m"
    by (simp_all add: fl put_shard_def data_of_def)
qed

text \<open>Adding an entry to the shard of its title: merged into the buffer, merged into the file,
  or buffered as a new title.\<close>

lemma shard_ok_merged:
  assumes ok: "shard_ok lib M i d es" and i: "i = shard_of lib (sanitize_field (si_title s))"
    and view: "\<And>u. map_option json_stream (shard_view d' es' u) =
      (if u = sanitize_field (si_title s) then map_option json_stream (merge_into s M u)
       else map_option json_stream (shard_view d es u))"
    and plain: "entries_plain (sd_buffer d')" "entries_plain es'"
    and keys: "set (map fst (sd_buffer d')) \<inter> set (map fst es') = {}"
    and index: "set (sd_index d') = set (map fst (sd_buffer d')) \<union> set (map fst es')"
  shows "shard_ok lib (merge_into s M) i d' es'"
  unfolding shard_ok_def
proof (intro conjI allI plain keys index)
  fix u
  show "map_option json_stream (shard_view d' es' u) =
      (if shard_of lib u = i then map_option json_stream (merge_into s M u) else None)"
  proof (cases "u = sanitize_field (si_title s)")
    case True
    then show ?thesis using view [of u] i by simp
  next
    case False
    then have "merge_into s M u = M u" by (simp add: merge_into_def Let_def)
    then show ?thesis using view [of u] ok False by (simp add: shard_ok_def)
  qed
qed

lemma merge_into_known:
  assumes ok: "shard_ok lib M i d es" and i: "i = shard_of lib (sanitize_field (si_title s))"
    and e: "shard_view d es (sanitize_field (si_title s)) = Some e" and s: "plain_logo s" and M: "map_plain M"
  shows "map_option json_stream (merge_into s M (sanitize_field (si_title s))) =
    Some (json_stream (merge_stream_info e s))"
proof -
  let ?t = "sanitize_field (si_title s)"
  have "map_option json_stream (M ?t) = Some (json_stream e)"
    using ok i e unfolding shard_ok_def by (metis option.simps(9))
  then obtain b where b: "M ?t = Some b" "json_stream b = json_stream e" by auto
  have "plain_logo e"
    using ok e unfolding shard_ok_def shard_view_def by (auto split: option.splits dest: plain_lookup)
  moreover have "plain_logo b" using M b by (simp add: map_plain_def)
  ultimately have "json_stream (merge_stream_info b s) = json_stream (merge_stream_info e s)"
    using merge_json_cong [OF b(2), of s s] s by simp
  then show ?thesis using b by (simp add: merge_into_def Let_def)
qed

lemma shard_ok_buffer_merge:
  assumes ok: "shard_ok lib M i d es" and i: "i = shard_of lib (sanitize_field (si_title s))"
    and e: "map_of (sd_buffer d) (sanitize_field (si_title s)) = Some e" and s: "plain_logo s" and M: "map_plain M"
  shows "shard_ok lib (merge_into s M) i
    (d\<lparr>sd_buffer := AList.update (sanitize_field (si_title s)) (merge_stream_info e s) (sd_buffer d)\<rparr>) es"
proof (rule shard_ok_merged [OF ok i])
  let ?t = "sanitize_field (si_title s)"
  have pe: "plain_logo e" using ok e by (auto simp: shard_ok_def dest: plain_lookup)
  have mem: "?t \<in> set (map fst (sd_buffer d))" using e by (metis map_of_eq_None_iff option.distinct(1) set_map)
  then have keys: "set (map fst (AList.update ?t x (sd_buffer d))) = set (map fst (sd_buffer d))" for x
    by (simp only: set_AList_update_keys insert_absorb)
  show "entries_plain (sd_buffer (d\<lparr>sd_buffer := AList.update ?t (merge_stream_info e s) (sd_buffer d)\<rparr>))"
    using ok by (simp add: shard_ok_def entries_plain_update merge_plain pe s)
  show "entries_plain es" using ok by (simp add: shard_ok_def)
  show "set (map fst (sd_buffer (d\<lparr>sd_buffer := AList.update ?t (merge_stream_info e s) (sd_buffer d)\<rparr>))) \<inter>
      set (map fst es) = {}"
    using ok keys by (simp add: shard_ok_def del: set_map)
  show "set (sd_index (d\<lparr>sd_buffer := AList.update ?t (merge_stream_info e s) (sd_buffer d)\<rparr>)) =
      set (map fst (sd_buffer (d\<lparr>sd_buffer := AList.update ?t (merge_stream_info e s) (sd_buffer d)\<rparr>))) \<union> set (map fst es)"
    using ok keys by (simp add: shard_ok_def del: set_map)
  have view: "shard_view d es ?t = Some e" using e by (simp add: shard_view_def)
  show "map_option json_stream (shard_view (d\<lparr>sd_buffer := AList.update ?t (merge_stream_info e s) (sd_buffer d)\<rparr>) es u) =
      (if u = ?t then map_option json_stream (merge_into s M u) else map_option json_stream (shard_view d es u))" for u
    by (simp add: merge_into_known [OF ok i view s M] shard_view_def update_conv')
qed

lemma shard_ok_file_merge:
  assumes ok: "shard_ok lib M i d es" and i: "i = shard_of lib (sanitize_field (si_title s))"
    and none: "map_of (sd_buffer d) (sanitize_field (si_title s)) = None"
    and mem: "sanitize_field (si_title s) \<in> set (sd_index d)" and s: "plain_logo s" and M: "map_plain M"
  shows "shard_ok lib (merge_into s M) i d
    (map (map_prod id json_stream) (merge_entry (sanitize_field (si_title s)) s es))"
proof (rule shard_ok_merged [OF ok i])
  let ?t = "sanitize_field (si_title s)"
  have "?t \<in> set (map fst es)"
    using ok mem none by (auto simp: shard_ok_def map_of_eq_None_iff)
  then obtain e where e: "map_of es ?t = Some e" by (metis map_of_eq_None_iff not_None_eq set_map)
  have keys: "set (map fst (map (map_prod id json_stream) (merge_entry ?t s es))) = set (map fst es)"
    using \<open>?t \<in> set (map fst es)\<close> by (simp only: json_keys merge_entry_keys insert_absorb)
  show "entries_plain (sd_buffer d)" using ok by (simp add: shard_ok_def)
  have "entries_plain (merge_entry ?t s es)" using ok s by (simp add: shard_ok_def merge_entry_plain)
  then show "entries_plain (map (map_prod id json_stream) (merge_entry ?t s es))"
    by (intro entries_plain_json) (simp add: entries_plain_def)
  show "set (map fst (sd_buffer d)) \<inter> set (map fst (map (map_prod id json_stream) (merge_entry ?t s es))) = {}"
    using ok unfolding keys by (simp add: shard_ok_def)
  show "set (sd_index d) = set (map fst (sd_buffer d)) \<union>
      set (map fst (map (map_prod id json_stream) (merge_entry ?t s es)))"
    using ok unfolding keys by (simp add: shard_ok_def)
  have view: "shard_view d es ?t = Some e" using none e by (simp add: shard_view_def)
  show "map_option json_stream (shard_view d (map (map_prod id json_stream) (merge_entry ?t s es)) u) =
      (if u = ?t then map_option json_stream (merge_into s M u) else map_option json_stream (shard_view d es u))" for u
    using none e
    by (cases "u = ?t")
       (simp_all add: merge_into_known [OF ok i view s M] shard_view_def map_of_json map_of_merge_entry
          option.map_comp comp_def split: option.splits)
qed

lemma shard_ok_add:
  assumes ok: "shard_ok lib M i d es" and i: "i = shard_of lib (sanitize_field (si_title s))"
    and mem: "sanitize_field (si_title s) \<notin> set (sd_index d)" and s: "plain_logo s"
  shows "shard_ok lib (merge_into s M) i
    (d\<lparr>sd_buffer := AList.update (sanitize_field (si_title s)) s (sd_buffer d),
       sd_index := sanitize_field (si_title s) # sd_index d\<rparr>) es"
proof (rule shard_ok_merged [OF ok i])
  let ?t = "sanitize_field (si_title s)"
  let ?d = "d\<lparr>sd_buffer := AList.update ?t s (sd_buffer d), sd_index := ?t # sd_index d\<rparr>"
  have new: "?t \<notin> set (map fst (sd_buffer d))" "?t \<notin> set (map fst es)"
    using ok mem by (auto simp: shard_ok_def)
  then have "shard_view d es ?t = None"
    by (simp add: shard_view_def map_of_eq_None_iff [THEN iffD2])
  then have M: "M ?t = None" using ok i by (auto simp: shard_ok_def dest: spec [of _ ?t])
  have keys: "set (map fst (sd_buffer ?d)) = insert ?t (set (map fst (sd_buffer d)))"
    using set_AList_update_keys [of ?t s "sd_buffer d"] by (simp del: set_map)
  show "entries_plain (sd_buffer ?d)" using ok s by (simp add: shard_ok_def entries_plain_update)
  show "entries_plain es" using ok by (simp add: shard_ok_def)
  show "set (map fst (sd_buffer ?d)) \<inter> set (map fst es) = {}"
    unfolding keys using ok new by (simp add: shard_ok_def)
  show "set (sd_index ?d) = set (map fst (sd_buffer ?d)) \<union> set (map fst es)"
    unfolding keys using ok by (simp add: shard_ok_def)
  show "map_option json_stream (shard_view ?d es u) =
      (if u = ?t then map_option json_stream (merge_into s M u) else map_option json_stream (shard_view d es u))" for u
    using M by (simp add: shard_view_def update_conv' merge_into_def Let_def)
qed

text \<open>One call of \<open>AddToSorter\<close>.\<close>

lemma map_plain_merge_into [goinv]: "map_plain M \<Longrightarrow> plain_logo s \<Longrightarrow> map_plain (merge_into s M)"
  by (auto simp: map_plain_def merge_into_def Let_def merge_plain split: option.splits)

lemma shard_ok_other:
  "shard_of lib (sanitize_field (si_title s)) \<noteq> i \<Longrightarrow> shard_ok lib M i d es \<Longrightarrow> shard_ok lib (merge_into s M) i d es"
  by (auto simp: shard_ok_def merge_into_def Let_def)

lemma shard_ok_reindex:
  "shard_ok lib M i d es \<Longrightarrow> shard_ok lib M i (d\<lparr>sd_index := map fst es @ sd_index d\<rparr>) es"
  by (auto simp: shard_ok_def shard_view_def)

text \<open>The manager differs from the old one in one shard, which is well formed for the new map.\<close>

definition stepped :: "go_lib \<Rightarrow> merged_map \<Rightarrow> nat \<Rightarrow> sorting_manager \<Rightarrow> bool \<times> sorting_manager \<Rightarrow> bool" where
  "stepped lib M i m r =
     (fst r \<and> shard_ok lib M i (data_of (snd r) i) (file_of (snd r) i) \<and>
      (\<forall>j. j \<noteq> i \<longrightarrow> sm_shards (snd r) j = sm_shards m j \<and> sm_files (snd r) j = sm_files m j) \<and>
      sm_unreadable (snd r) = sm_unreadable m \<and> sm_unwritable (snd r) = sm_unwritable m \<and>
      sm_key (snd r) = sm_key m \<and> sm_dir (snd r) = sm_dir m)"

lemma stepped_put:
  "shard_ok lib M i d (file_of m i) \<Longrightarrow> stepped lib M i m (True, put_shard i d m)"
  by (simp add: stepped_def put_shard_def data_of_def file_of_def)

lemma stepped_flush:
  "\<not> sm_unreadable m i \<Longrightarrow> \<not> sm_unwritable m i \<Longrightarrow> shard_ok lib M i d (file_of m i) \<Longrightarrow>
     stepped lib M i m (flush_shard i d m)"
  using flush_shard_ok [of m i lib M d] by (simp add: stepped_def)

lemma stepped_new:
  assumes "\<not> sm_unreadable m i" "\<not> sm_unwritable m i" "shard_ok lib M i d (file_of m i)"
    "i = shard_of lib (sanitize_field (si_title s))"
    "sanitize_field (si_title s) \<notin> set (sd_index d)" "plain_logo s"
  shows "stepped lib (merge_into s M) i m (add_new_entry i (sanitize_field (si_title s)) s d m)"
  using assms shard_ok_add [OF assms(3-6)]
  by (simp add: add_new_entry_def Let_def stepped_put stepped_flush)

lemma stepped_existing:
  assumes r: "\<not> sm_unreadable m i" "\<not> sm_unwritable m i" and ok: "shard_ok lib M i d (file_of m i)"
    and i: "i = shard_of lib (sanitize_field (si_title s))"
    and mem: "sanitize_field (si_title s) \<in> set (sd_index d)" and s: "plain_logo s" and M: "map_plain M"
  shows "stepped lib (merge_into s M) i m (handle_existing i (sanitize_field (si_title s)) s d m)"
proof (cases "map_of (sd_buffer d) (sanitize_field (si_title s))")
  case None
  have rd: "read_shard m i = Some (file_of m i)"
    using r(1) by (simp add: read_shard_def file_of_def split: option.splits)
  show ?thesis
    using shard_ok_file_merge [OF ok i None mem s M] r(2)
    by (simp add: handle_existing_def None rd write_shard_def stepped_def put_shard_def data_of_def)
       (simp add: file_of_def)
next
  case (Some e)
  show ?thesis
    using shard_ok_buffer_merge [OF ok i Some s M] by (simp add: handle_existing_def Some stepped_put)
qed

lemma stepped_add:
  assumes ok: "sorter_ok lib M m" and s: "plain_logo s"
  shows "stepped lib (merge_into s M) (shard_of lib (sanitize_field (si_title s))) m (add_to_sorter lib s m)"
proof -
  define t where "t = sanitize_field (si_title s)"
  define i where "i = shard_of lib t"
  let ?d = "data_of m i"
  let ?d1 = "?d\<lparr>sd_index := map fst (file_of m i) @ sd_index ?d\<rparr>"
  have i: "i = shard_of lib (sanitize_field (si_title s))" by (simp add: i_def t_def)
  have r: "\<not> sm_unreadable m i" "\<not> sm_unwritable m i" and sh: "shard_ok lib M i ?d (file_of m i)"
    and M: "map_plain M" using ok by (auto simp: sorter_ok_def)
  have sh1: "shard_ok lib M i ?d1 (file_of m i)" using sh by (rule shard_ok_reindex)
  have rd: "read_shard m i = Some (file_of m i)"
    using r(1) by (simp add: read_shard_def file_of_def split: option.splits)
  have add: "add_to_sorter lib s m =
      (if t \<in> set (sd_index ?d) then handle_existing i t s ?d m
       else if sm_files m i = None then add_new_entry i t s ?d m
       else if t \<in> set (sd_index ?d1) then handle_existing i t s ?d1 m
       else add_new_entry i t s ?d1 m)"
    by (simp add: add_to_sorter_def Let_def t_def [symmetric] i_def [symmetric] data_of_def [symmetric] rd)
  note ex = stepped_existing [OF r sh i _ s M, folded t_def] stepped_existing [OF r sh1 i _ s M, folded t_def]
  note nw = stepped_new [OF r sh i _ s, folded t_def] stepped_new [OF r sh1 i _ s, folded t_def]
  show ?thesis
    unfolding t_def [symmetric] i_def [symmetric] add using ex nw by auto
qed

lemma add_to_sorter_ok [goinv]:
  assumes "sorter_ok lib M m" and "plain_logo s"
  shows "fst (add_to_sorter lib s m) \<and> sorter_ok lib (merge_into s M) (snd (add_to_sorter lib s m))"
proof -
  let ?i = "shard_of lib (sanitize_field (si_title s))" and ?r = "add_to_sorter lib s m"
  have st: "stepped lib (merge_into s M) ?i m ?r" using assms by (rule stepped_add)
  have "shard_ok lib (merge_into s M) j (data_of (snd ?r) j) (file_of (snd ?r) j)" for j
  proof (cases "j = ?i")
    case True
    then show ?thesis using st by (simp add: stepped_def)
  next
    case False
    then have "data_of (snd ?r) j = data_of m j" "file_of (snd ?r) j = file_of m j"
      using st by (auto simp: stepped_def data_of_def file_of_def)
    then show ?thesis using False assms(1) shard_ok_other [of lib s j M] by (simp add: sorter_ok_def)
  qed
  then show ?thesis using st assms by (simp add: sorter_ok_def stepped_def map_plain_merge_into)
qed

text \<open>A history of additions.\<close>

definition add_all :: "go_lib \<Rightarrow> stream_info list \<Rightarrow> sorting_manager \<Rightarrow> sorting_manager" where
  "add_all lib ss m = fold (\<lambda>s m. snd (add_to_sorter lib s m)) ss m"

definition merge_all :: "stream_info list \<Rightarrow> merged_map" where
  "merge_all ss = fold merge_into ss Map.empty"

lemma add_all_ok:
  "sorter_ok lib M m \<Longrightarrow> list_all plain_logo ss \<Longrightarrow> sorter_ok lib (fold merge_into ss M) (add_all lib ss m)"
  unfolding add_all_def
  by (induction ss arbitrary: M m) (simp_all add: add_to_sorter_ok)

lemma write_shard_key: "write_shard i es m = Some m' \<Longrightarrow> sm_key m' = sm_key m"
  by (auto simp: write_shard_def put_shard_def split: if_splits)
lemma add_to_sorter_key [simp]: "sm_key (snd (add_to_sorter lib s m)) = sm_key m"
  by (auto simp: add_to_sorter_def handle_existing_def add_new_entry_def flush_shard_def put_shard_def Let_def
      split: option.splits if_splits dest: write_shard_key)
lemma add_all_key [simp]: "sm_key (add_all lib ss m) = sm_key m"
  unfolding add_all_def by (induction ss arbitrary: m) simp_all

lemma new_manager_ok: "sorter_ok lib Map.empty (new_sorting_manager env (\<lambda>_. False) (\<lambda>_. False))"
  by (simp add: sorter_ok_def new_sorting_manager_def shard_ok_def data_of_def file_of_def
      entries_plain_def shard_view_def map_plain_def)

section \<open>What the sorted playlist holds\<close>

definition flush_step :: "nat \<Rightarrow> sorting_manager \<Rightarrow> sorting_manager" where
  "flush_step i m = (case sm_shards m i of None \<Rightarrow> m | Some d \<Rightarrow> snd (flush_shard i d m))"

lemma flush_all_eq: "flush_all m = fold flush_step [0..<mutex_shards] m"
  unfolding flush_all_def flush_step_def [abs_def] ..

lemma flush_step_ok:
  assumes "sorter_ok lib M m"
  shows "sorter_ok lib M (flush_step i m)"
    and "sd_buffer (data_of (flush_step i m) i) = []"
    and "sd_buffer (data_of m j) = [] \<Longrightarrow> sd_buffer (data_of (flush_step i m) j) = []"
    and "sm_key (flush_step i m) = sm_key m \<and> sm_dir (flush_step i m) = sm_dir m"
proof -
  have "sorter_ok lib M (flush_step i m) \<and> sd_buffer (data_of (flush_step i m) i) = [] \<and>
      (\<forall>j. sd_buffer (data_of m j) = [] \<longrightarrow> sd_buffer (data_of (flush_step i m) j) = []) \<and>
      sm_key (flush_step i m) = sm_key m \<and> sm_dir (flush_step i m) = sm_dir m"
  proof (cases "sm_shards m i")
    case None
    then show ?thesis using assms by (simp add: flush_step_def data_of_def)
  next
    case (Some d)
    have h: "\<not> sm_unreadable m i" "\<not> sm_unwritable m i" "shard_ok lib M i d (file_of m i)"
      using assms Some unfolding sorter_ok_def data_of_def by (metis option.simps(5))+
    note fl = flush_shard_ok [OF h]
    have other: "j \<noteq> i \<Longrightarrow> data_of (flush_step i m) j = data_of m j \<and> file_of (flush_step i m) j = file_of m j" for j
      using fl(3) [of j] by (simp add: flush_step_def Some data_of_def file_of_def)
    have "shard_ok lib M j (data_of (flush_step i m) j) (file_of (flush_step i m) j)" for j
      using fl(2) other [of j] assms by (cases "j = i") (simp_all add: flush_step_def Some sorter_ok_def)
    moreover have "sd_buffer (data_of (flush_step i m) i) = []" using fl(6) by (simp add: flush_step_def Some)
    moreover have "sd_buffer (data_of m j) = [] \<longrightarrow> sd_buffer (data_of (flush_step i m) j) = []" for j
      using calculation(2) other [of j] by (cases "j = i") simp_all
    ultimately show ?thesis
      using assms fl(4,5,7) by (simp add: sorter_ok_def flush_step_def Some)
  qed
  then show "sorter_ok lib M (flush_step i m)"
    "sd_buffer (data_of (flush_step i m) i) = []"
    "sd_buffer (data_of m j) = [] \<Longrightarrow> sd_buffer (data_of (flush_step i m) j) = []"
    "sm_key (flush_step i m) = sm_key m \<and> sm_dir (flush_step i m) = sm_dir m"
    by blast+
qed

lemma flush_fold_ok:
  "sorter_ok lib M m \<Longrightarrow>
     sorter_ok lib M (fold flush_step js m) \<and>
     (\<forall>j. j \<in> set js \<or> sd_buffer (data_of m j) = [] \<longrightarrow> sd_buffer (data_of (fold flush_step js m) j) = []) \<and>
     sm_key (fold flush_step js m) = sm_key m \<and> sm_dir (fold flush_step js m) = sm_dir m"
  by (induction js arbitrary: m) (auto simp: flush_step_ok)

lemma collect_shards_eq:
  "(\<And>i. \<not> sm_unreadable m i) \<Longrightarrow>
     collect_shards m is = Some (concat (map (\<lambda>i. map snd (file_of m i)) is))"
  by (induction "is") (auto simp: file_of_def split: option.splits)

definition all_titles :: "sorting_manager \<Rightarrow> string list" where
  "all_titles m = concat (map (\<lambda>i. map fst (file_of m i)) [0..<mutex_shards])"

lemma flushed_file:
  assumes "sorter_ok lib M m" and "sd_buffer (data_of m i) = []"
  shows "map_option json_stream (map_of (file_of m i) t) =
      (if shard_of lib t = i then map_option json_stream (M t) else None)"
    and "distinct (map fst (file_of m i))"
    and "t \<in> set (map fst (file_of m i)) \<longleftrightarrow> shard_of lib t = i \<and> M t \<noteq> None"
proof -
  have ok: "shard_ok lib M i (data_of m i) (file_of m i)" using assms(1) by (simp add: sorter_ok_def)
  then show d: "distinct (map fst (file_of m i))" by (simp add: shard_ok_def entries_plain_def)
  show v: "map_option json_stream (map_of (file_of m i) t) =
      (if shard_of lib t = i then map_option json_stream (M t) else None)"
    using ok assms(2) by (simp add: shard_ok_def shard_view_def)
  have "t \<in> set (map fst (file_of m i)) \<longleftrightarrow> map_of (file_of m i) t \<noteq> None"
    by (simp add: map_of_eq_None_iff)
  also have "\<dots> \<longleftrightarrow> shard_of lib t = i \<and> M t \<noteq> None"
    using v by (metis option.map_disc_iff)
  finally show "t \<in> set (map fst (file_of m i)) \<longleftrightarrow> shard_of lib t = i \<and> M t \<noteq> None" .
qed

lemma shard_of_less: "shard_of lib t < mutex_shards"
  by (simp add: shard_of_def mutex_shards_def)

lemma distinct_concat_shards:
  "distinct is \<Longrightarrow> (\<And>i. i \<in> set is \<Longrightarrow> distinct (f i)) \<Longrightarrow>
     (\<And>i j. i \<in> set is \<Longrightarrow> j \<in> set is \<Longrightarrow> i \<noteq> j \<Longrightarrow> set (f i) \<inter> set (f j) = {}) \<Longrightarrow>
     distinct (concat (map f is))"
proof (induction "is")
  case Nil
  then show ?case by simp
next
  case (Cons i "is")
  have "set (f i) \<inter> set (f j) = {}" if "j \<in> set is" for j
    using Cons.prems that by (metis distinct.simps(2) list.set_intros)
  then show ?case using Cons by auto
qed

lemma flushed_titles:
  assumes "sorter_ok lib M m" and "\<And>i. i < mutex_shards \<Longrightarrow> sd_buffer (data_of m i) = []"
  shows "set (all_titles m) = dom M"
proof (rule set_eqI)
  fix t
  have "t \<in> set (all_titles m) \<longleftrightarrow> (\<exists>i < mutex_shards. t \<in> set (map fst (file_of m i)))"
    by (auto simp: all_titles_def)
  also have "\<dots> \<longleftrightarrow> (\<exists>i < mutex_shards. shard_of lib t = i \<and> M t \<noteq> None)"
    using flushed_file(3) [OF assms(1) assms(2)] by blast
  also have "\<dots> \<longleftrightarrow> t \<in> dom M" using shard_of_less [of lib t] by (simp add: dom_def)
  finally show "t \<in> set (all_titles m) \<longleftrightarrow> t \<in> dom M" .
qed

lemma map_snd_keys:
  assumes "distinct (map fst es)" and "\<And>t. t \<in> set (map fst es) \<Longrightarrow> map_option f (map_of es t) = Some (g t)"
  shows "map (\<lambda>p. f (snd p)) es = map (\<lambda>p. g (fst p)) es"
proof (rule map_cong [OF refl])
  fix p assume p: "p \<in> set es"
  then have "map_of es (fst p) = Some (snd p)" using assms(1) by (simp add: map_of_eq_Some_iff)
  moreover have "fst p \<in> set (map fst es)" using p by simp
  ultimately show "f (snd p) = g (fst p)" using assms(2) by force
qed

lemma flushed_entries:
  assumes ok: "sorter_ok lib M m" and fl: "\<And>i. i < mutex_shards \<Longrightarrow> sd_buffer (data_of m i) = []"
  shows "\<exists>es. collect_shards m [0..<mutex_shards] = Some es \<and>
    image_mset json_stream (mset es) = image_mset (\<lambda>t. json_stream (the (M t))) (mset_set (dom M))"
proof -
  let ?es = "concat (map (\<lambda>i. map snd (file_of m i)) [0..<mutex_shards])"
  have "map (\<lambda>p. json_stream (snd p)) (file_of m i) = map (\<lambda>p. json_stream (the (M (fst p)))) (file_of m i)"
    if less: "i < mutex_shards" for i
  proof (rule map_snd_keys)
    show "distinct (map fst (file_of m i))" using flushed_file(2) [OF ok fl [OF less]] .
    fix t assume "t \<in> set (map fst (file_of m i))"
    then obtain e where "shard_of lib t = i" "M t = Some e" using flushed_file(3) [OF ok fl [OF less]] by blast
    then show "map_option json_stream (map_of (file_of m i) t) = Some (json_stream (the (M t)))"
      using flushed_file(1) [OF ok fl [OF less], of t] by simp
  qed
  then have "map (\<lambda>i. map (\<lambda>p. json_stream (snd p)) (file_of m i)) [0..<mutex_shards] =
      map (\<lambda>i. map (\<lambda>p. json_stream (the (M (fst p)))) (file_of m i)) [0..<mutex_shards]"
    by (intro map_cong) auto
  from arg_cong [OF this, of concat]
  have "map json_stream ?es = map (\<lambda>t. json_stream (the (M t))) (all_titles m)"
    unfolding all_titles_def map_concat map_map comp_def .
  then have "image_mset json_stream (mset ?es) = image_mset (\<lambda>t. json_stream (the (M t))) (mset (all_titles m))"
    by (metis mset_map)
  moreover have disj: "set (map fst (file_of m i)) \<inter> set (map fst (file_of m j)) = {}"
    if "i < mutex_shards" "j < mutex_shards" "i \<noteq> j" for i j
    using flushed_file(3) [OF ok fl [OF that(1)]] flushed_file(3) [OF ok fl [OF that(2)]] that(3)
    by (metis disjoint_iff)
  have "distinct (all_titles m)"
    unfolding all_titles_def
    by (rule distinct_concat_shards) (use flushed_file(2) [OF ok fl] disj in \<open>simp_all del: set_map\<close>)
  then have "mset (all_titles m) = mset_set (dom M)"
    using flushed_titles [OF ok fl] by (metis mset_set_set)
  moreover have "collect_shards m [0..<mutex_shards] = Some ?es"
    using ok by (intro collect_shards_eq) (simp add: sorter_ok_def)
  ultimately show ?thesis by auto
qed

lemma sorted_entries:
  assumes "sorter_ok lib M m"
  shows "\<exists>es. fst (get_sorted_entries m) = Some es \<and>
    image_mset json_stream (mset es) = image_mset (\<lambda>t. json_stream (the (M t))) (mset_set (dom M))"
proof -
  have f: "sorter_ok lib M (flush_all m)" "\<And>i. i < mutex_shards \<Longrightarrow> sd_buffer (data_of (flush_all m) i) = []"
    using flush_fold_ok [OF assms, of "[0..<mutex_shards]"] by (simp_all add: flush_all_eq)
  from flushed_entries [OF this] show ?thesis
    by (auto simp: get_sorted_entries_def Let_def)
qed

section \<open>The order\<close>

text \<open>A comparison of a text field in lower case is a strict weak order, in both directions.\<close>

definition text_less :: "bool \<Rightarrow> (stream_info \<Rightarrow> string) \<Rightarrow> stream_info \<Rightarrow> stream_info \<Rightarrow> bool" where
  "text_less desc f a b =
     (if desc then to_lower (f b) < to_lower (f a) else to_lower (f a) < to_lower (f b))"

interpretation text_order: strict_weak_order "text_less desc f" for desc f
  by unfold_locales (auto simp: text_less_def split: if_splits)

lemma string_compare_less [simp]:
  "string_compare a b < 0 \<longleftrightarrow> a < b" "0 < string_compare a b \<longleftrightarrow> b < a"
  by (auto simp: string_compare_def)

text \<open>The field a text key sorts by.\<close>

definition text_field :: "string \<Rightarrow> (stream_info \<Rightarrow> string) option" where
  "text_field key =
     (if key \<in> set [''tvg-chno'', ''channel-id'', ''channel-number'', ''tvg-id'', ''source''] then None
      else if key \<in> set [''tvg-group'', ''group-title''] then Some si_group
      else if key = ''tvg-type'' then Some si_tvg_type
      else Some si_title)"

lemma sorter_less_text:
  "text_field key = Some f \<Longrightarrow> sorter_less key dir = text_less (dir = ''desc'') f"
  by (auto simp: text_field_def sorter_less_def sorter_compare_def text_less_def fun_eq_iff split: if_splits)

lemma sorted_by_text:
  assumes "text_field (sm_key m) = Some f" and "fst (get_sorted_entries m) = Some es"
  shows "sorted_wrt (\<lambda>a b. \<not> text_less (sm_dir m = ''desc'') f b a) es"
proof -
  have keep: "sm_key (fold flush_step js m) = sm_key m \<and> sm_dir (fold flush_step js m) = sm_dir m" for js
  proof (induction js arbitrary: m)
    case Nil
    then show ?case by simp
  next
    case (Cons i js)
    have "sm_key (flush_step i m) = sm_key m \<and> sm_dir (flush_step i m) = sm_dir m"
      by (auto simp: flush_step_def flush_shard_def put_shard_def write_shard_def split: option.splits)
    then show ?case using Cons.IH [of "flush_step i m"] by simp
  qed
  show ?thesis
    using assms keep text_order.sorted_sort_by
    by (auto simp: get_sorted_entries_def flush_all_eq Let_def sorter_less_text)
qed

end
