(* ===== verification/EpgGroups.thy ===== *)
theory EpgGroups
  imports ChannelFilter
begin

text \<open>
  The TV-guide ids of channels that several sources carry: the index of the channel ids
  of the guides, sourceproc/epgindex.go, and the channel number groups,
  sourceproc/epg_groups.go. The tokens of the XML decoder and the JSON decoder of groups
  are inputs. Entries are pointers in the code; \<open>applyGroupTvgID\<close> writes through them
  while later entries still read them, so the list of entries is threaded through the loops
  (\<open>xs\<close> already visited and written, \<open>ys\<close> not yet visited).
\<close>

section \<open>The index of guide channels\<close>

record epg_index =
  ei_exact :: "string list"
  ei_folded :: "(string \<times> string) list"

definition empty_epg_index :: epg_index where
  "empty_epg_index = \<lparr>ei_exact = [], ei_folded = []\<rparr>"

definition epg_loaded :: "epg_index \<Rightarrow> bool" where
  "epg_loaded ix = (ei_exact ix \<noteq> [])"

definition epg_has :: "epg_index \<Rightarrow> string \<Rightarrow> bool" where
  "epg_has ix raw =
     (let i = trim_space raw in
      if i = [] then False
      else if i \<in> set (ei_exact ix) then True
      else (case map_of (ei_folded ix) (to_lower i) of None \<Rightarrow> False | Some c \<Rightarrow> c \<noteq> []))"

definition epg_add :: "string \<Rightarrow> epg_index \<Rightarrow> epg_index" where
  "epg_add raw ix =
     (let i = trim_space raw in
      if i = [] then ix
      else
        let ix1 = ix\<lparr>ei_exact := List.insert i (ei_exact ix)\<rparr> in
        (case map_of (ei_folded ix1) (to_lower i) of
           None \<Rightarrow> ix1\<lparr>ei_folded := (to_lower i, i) # ei_folded ix1\<rparr>
         | Some _ \<Rightarrow> ix1))"

text \<open>The tokens the decoder yields, an error being the last of them.\<close>

datatype xml_token = StartElement string "(string \<times> string) list" | OtherToken | TokenError

definition channel_id :: "(string \<times> string) list \<Rightarrow> string option" where
  "channel_id attrs = map_option snd (find (\<lambda>a. equal_fold (fst a) ''id'') attrs)"

fun parse_channels :: "xml_token list \<Rightarrow> epg_index \<Rightarrow> bool \<times> epg_index" where
  "parse_channels [] ix = (True, ix)"
| "parse_channels (TokenError # ts) ix = (False, ix)"
| "parse_channels (OtherToken # ts) ix = parse_channels ts ix"
| "parse_channels (StartElement name attrs # ts) ix =
     (if \<not> equal_fold name ''channel'' then parse_channels ts ix
      else parse_channels ts (case channel_id attrs of None \<Rightarrow> ix | Some i \<Rightarrow> epg_add i ix))"

text \<open>\<open>fetch\<close> is what the request for a guide yields: None for an error of the request or of
  the decompression, else the status and the tokens of the body.\<close>

definition ingest_url :: "(string \<Rightarrow> (int \<times> xml_token list) option) \<Rightarrow> string \<Rightarrow> epg_index \<Rightarrow> bool \<times> epg_index" where
  "ingest_url fetch url ix =
     (case fetch url of
        None \<Rightarrow> (False, ix)
      | Some (status, tokens) \<Rightarrow>
          if status < 200 \<or> status \<ge> 300 then (False, ix) else parse_channels tokens ix)"

definition new_epg_channel_index ::
  "url_parser \<Rightarrow> environ \<Rightarrow> (string \<Rightarrow> (int \<times> xml_token list) option) \<Rightarrow> epg_index" where
  "new_epg_channel_index parse env fetch =
     (case get_embedded_epg_url parse env of
        None \<Rightarrow> empty_epg_index
      | Some urls \<Rightarrow>
          fold (\<lambda>part ix. let url = trim_space part in
                  if url = [] then ix else snd (ingest_url fetch url ix))
            (split_char (CHR '','') urls) empty_epg_index)"

section \<open>Groups and candidates\<close>

record group_entry =
  ge_source_index :: int
  ge_source_name :: string
  ge_channel_title :: string
  ge_sub_number :: string

record channel_group =
  cg_number :: int
  cg_canonical :: string
  cg_entries :: "group_entry list"

record epg_candidate =
  ec_tvg_id :: string
  ec_source_index :: int
  ec_order :: nat

definition parse_group_env ::
  "(string \<Rightarrow> channel_group option) \<Rightarrow> string \<times> string \<Rightarrow> (int \<times> channel_group) option" where
  "parse_group_env decode kv =
     (if \<not> has_prefix (fst kv) ''CHANNEL_NUMBER_GROUP_'' then None
      else (case atoi (trim_prefix (fst kv) ''CHANNEL_NUMBER_GROUP_'') of
              None \<Rightarrow> None
            | Some n \<Rightarrow>
                if n < 1 then None
                else (case decode (snd kv) of
                        None \<Rightarrow> None
                      | Some g \<Rightarrow> if cg_entries g = [] then None else Some (n, g))))"

definition load_channel_number_groups :: "(string \<Rightarrow> channel_group option) \<Rightarrow> environ \<Rightarrow> channel_group list" where
  "load_channel_number_groups decode env =
     map snd (sort_by (\<lambda>a b. fst a < fst b) (List.map_filter (parse_group_env decode) env))"

definition less_candidate :: "epg_candidate \<Rightarrow> epg_candidate \<Rightarrow> bool" where
  "less_candidate a b =
     (if ec_source_index a \<noteq> ec_source_index b then ec_source_index a < ec_source_index b
      else ec_order a < ec_order b)"

text \<open>The index is None for a nil pointer.\<close>

definition pick_best_tvg_id :: "epg_candidate list \<Rightarrow> epg_index option \<Rightarrow> string" where
  "pick_best_tvg_id candidates index =
     (case sort_by less_candidate candidates of
        [] \<Rightarrow> []
      | c # cs \<Rightarrow>
          (case index of
             None \<Rightarrow> ec_tvg_id c
           | Some ix \<Rightarrow>
               if \<not> epg_loaded ix then ec_tvg_id c
               else (case filter (\<lambda>c. epg_has ix (ec_tvg_id c)) (c # cs) of
                       [] \<Rightarrow> ec_tvg_id c | m # ms \<Rightarrow> ec_tvg_id m)))"

text \<open>The closure \<open>add\<close> of \<open>collectTvgIDCandidates\<close>, on (seen, candidates).\<close>

definition add_candidate ::
  "string \<times> string \<Rightarrow> string list \<times> epg_candidate list \<Rightarrow> string list \<times> epg_candidate list" where
  "add_candidate p acc =
     (let tvg = trim_space (fst p) in
      if tvg = [] then acc
      else if to_lower tvg \<in> set (fst acc) then acc
      else (to_lower tvg # fst acc,
            snd acc @ [\<lparr>ec_tvg_id = tvg,
                        ec_source_index = (case atoi (trim_space (snd p)) of Some n \<Rightarrow> n | None \<Rightarrow> 0),
                        ec_order = length (snd acc)\<rparr>]))"

definition collect_tvg_id_candidates :: "stream_info \<Rightarrow> epg_candidate list" where
  "collect_tvg_id_candidates s =
     (let own = (si_tvg_id s, si_source_m3u s);
          metas = (case si_epg_meta s of
                     None \<Rightarrow> []
                   | Some m \<Rightarrow>
                       map (\<lambda>k. (the (map_of m k), k)) (sort_by less_source_index (map fst m)))
      in snd (fold add_candidate (own # metas) ([], [])))"

definition stream_has_source_index :: "stream_info \<Rightarrow> string \<Rightarrow> bool" where
  "stream_has_source_index s i =
     (case map_of (urls_of s) i of None \<Rightarrow> False | Some m \<Rightarrow> m \<noteq> [])"

definition find_stream_for_group_entry ::
  "filter_config \<Rightarrow> channel_group \<Rightarrow> group_entry \<Rightarrow> stream_info list \<Rightarrow> stream_info option" where
  "find_stream_for_group_entry fc g e streams =
     (let key = itoa (ge_source_index e);
          t = apply_channel_merge_rule fc (trim_space (ge_channel_title e));
          target = sanitize_field (if t = [] then trim_space (cg_canonical g) else t);
          canonical = to_lower (trim_space (cg_canonical g))
      in (case find (\<lambda>s. si_urls s \<noteq> None \<and> stream_has_source_index s key \<and>
                           sanitize_field (si_title s) = target) streams of
            Some s \<Rightarrow> Some s
          | None \<Rightarrow> find (\<lambda>s. si_urls s \<noteq> None \<and> stream_has_source_index s key \<and>
                           equal_fold (trim_space (si_title s)) canonical) streams))"

text \<open>The candidates that one entry of a group contributes, after \<open>acc\<close>.\<close>

definition add_entry_candidates ::
  "filter_config \<Rightarrow> channel_group \<Rightarrow> stream_info list \<Rightarrow> group_entry \<Rightarrow> epg_candidate list \<Rightarrow> epg_candidate list" where
  "add_entry_candidates fc g streams e acc =
     (case find_stream_for_group_entry fc g e streams of
        None \<Rightarrow> acc
      | Some s \<Rightarrow>
          fold (\<lambda>c acc. acc @
                  [c\<lparr>ec_source_index := (if ge_source_index e > 0 then ge_source_index e else ec_source_index c),
                     ec_order := length acc\<rparr>])
            (collect_tvg_id_candidates s) acc)"

definition resolve_group_tvg_id ::
  "filter_config \<Rightarrow> channel_group \<Rightarrow> stream_info list \<Rightarrow> epg_index option \<Rightarrow> string" where
  "resolve_group_tvg_id fc g streams ix =
     pick_best_tvg_id (fold (add_entry_candidates fc g streams) (cg_entries g) []) ix"

section \<open>Clones and the expansion\<close>

definition clone_single_source_urls :: "stream_info \<Rightarrow> string \<Rightarrow> stream_urls" where
  "clone_single_source_urls s i =
     (case map_of (urls_of s) i of None \<Rightarrow> [] | Some m \<Rightarrow> if m = [] then [] else [(i, m)])"

definition clone_stream_for_group_entry ::
  "stream_info \<Rightarrow> group_entry \<Rightarrow> channel_group \<Rightarrow> string \<Rightarrow> stream_info" where
  "clone_stream_for_group_entry s e g tvg =
     (let title = trim_space (ge_channel_title e);
          key = itoa (ge_source_index e);
          c = s\<lparr>si_tvg_id := tvg, si_tvg_chno := trim_space (ge_sub_number e),
                si_sub_channel := trim_space (cg_canonical g) @ [CHR 0x00] @ key,
                si_display_title := (if title = [] then trim_space (cg_canonical g) else title),
                si_urls := Some (clone_single_source_urls s key), si_source_m3u := key\<rparr>;
          (u, n) = primary_source_url c key;
          (u', n') = (if u = [] then primary_source_url s key else (u, n))
      in c\<lparr>si_source_url := u', si_source_index := n'\<rparr>)"

definition stream_matches_group :: "filter_config \<Rightarrow> stream_info \<Rightarrow> channel_group \<Rightarrow> bool" where
  "stream_matches_group fc s g =
     (list_ex (\<lambda>e. find_stream_for_group_entry fc g e [s] \<noteq> None) (cg_entries g) \<or>
      equal_fold (trim_space (si_title s)) (trim_space (cg_canonical g)))"

definition apply_group_tvg_id ::
  "filter_config \<Rightarrow> channel_group list \<Rightarrow> stream_info list \<Rightarrow> epg_index option \<Rightarrow> stream_info \<Rightarrow> stream_info" where
  "apply_group_tvg_id fc groups all ix s =
     (case find (\<lambda>g. length (cg_entries g) \<ge> 2 \<and> stream_matches_group fc s g) groups of
        None \<Rightarrow> s
      | Some g \<Rightarrow>
          let resolved = resolve_group_tvg_id fc g all ix in
          if resolved \<noteq> [] then s\<lparr>si_tvg_id := resolved\<rparr> else s)"

fun apply_group_tvg_id_to_entries ::
  "filter_config \<Rightarrow> channel_group list \<Rightarrow> epg_index option \<Rightarrow> stream_info list \<Rightarrow> stream_info list \<Rightarrow> stream_info list" where
  "apply_group_tvg_id_to_entries fc groups ix xs [] = xs"
| "apply_group_tvg_id_to_entries fc groups ix xs (s # ys) =
     apply_group_tvg_id_to_entries fc groups ix
       (xs @ [apply_group_tvg_id fc groups (xs @ s # ys) ix s]) ys"

definition multi_entry_groups :: "channel_group list \<Rightarrow> (string \<times> channel_group) list" where
  "multi_entry_groups groups =
     fold (\<lambda>g m. let key = to_lower (trim_space (cg_canonical g)) in
             if length (cg_entries g) < 2 \<or> key = [] then m else AList.update key g m) groups []"

definition group_clones ::
  "channel_group \<Rightarrow> string \<Rightarrow> stream_info \<Rightarrow> stream_info list" where
  "group_clones g tvg s =
     filter (\<lambda>c. urls_of c \<noteq> [])
       (map (\<lambda>e. clone_stream_for_group_entry s e g tvg)
         (filter (\<lambda>e. stream_has_source_index s (itoa (ge_source_index e))) (cg_entries g)))"

fun expand_loop ::
  "filter_config \<Rightarrow> channel_group list \<Rightarrow> (string \<times> channel_group) list \<Rightarrow> epg_index option \<Rightarrow>
     string list \<Rightarrow> stream_info list \<Rightarrow> stream_info list \<Rightarrow> stream_info list \<Rightarrow> stream_info list" where
  "expand_loop fc groups multi ix handled out xs [] = out"
| "expand_loop fc groups multi ix handled out xs (s # ys) =
     (let all = xs @ s # ys; applied = apply_group_tvg_id fc groups all ix s in
      case map_of multi (to_lower (trim_space (si_title s))) of
        None \<Rightarrow> expand_loop fc groups multi ix handled (out @ [applied]) (xs @ [applied]) ys
      | Some g \<Rightarrow>
          let key = to_lower (trim_space (cg_canonical g)) in
          if key \<in> set handled then expand_loop fc groups multi ix handled out (xs @ [s]) ys
          else
            let clones = group_clones g (resolve_group_tvg_id fc g all ix) s in
            if clones \<noteq> []
            then expand_loop fc groups multi ix (key # handled) (out @ clones) (xs @ [s]) ys
            else expand_loop fc groups multi ix (key # handled) (out @ [applied]) (xs @ [applied]) ys)"

definition expand_streams_for_compile ::
  "url_parser \<Rightarrow> environ \<Rightarrow> filter_config \<Rightarrow> stream_info list \<Rightarrow> channel_group list \<Rightarrow>
     epg_index option \<Rightarrow> stream_info list" where
  "expand_streams_for_compile parse env fc entries groups ix =
     (if \<not> channel_epg_merge_active parse env \<or> groups = [] then entries
      else
        let multi = multi_entry_groups groups in
        if multi = [] then apply_group_tvg_id_to_entries fc groups ix [] entries
        else expand_loop fc groups multi ix [] [] [] entries)"

definition apply_inferred_multi_source_epg :: "stream_info list \<Rightarrow> epg_index option \<Rightarrow> stream_info list" where
  "apply_inferred_multi_source_epg entries ix =
     map (\<lambda>e. if length (urls_of e) < 2 then e
              else let r = pick_best_tvg_id (collect_tvg_id_candidates e) ix in
                if r \<noteq> [] then e\<lparr>si_tvg_id := r\<rparr> else e) entries"

section \<open>The choice of an id\<close>

interpretation candidate_order: strict_weak_order less_candidate
  by unfold_locales (auto simp: less_candidate_def split: if_splits)

text \<open>The candidates a choice is made from: those the guide lists when it is loaded and lists
  any, else all of them.\<close>

definition eligible :: "epg_candidate list \<Rightarrow> epg_index option \<Rightarrow> epg_candidate list" where
  "eligible cs index =
     (case index of
        None \<Rightarrow> cs
      | Some ix \<Rightarrow>
          let ms = filter (\<lambda>c. epg_has ix (ec_tvg_id c)) cs in
          if epg_loaded ix \<and> ms \<noteq> [] then ms else cs)"

lemma eligible_sort: "set (eligible (sort_by less_candidate cs) ix) = set (eligible cs ix)"
proof -
  have "filter P (sort_by less_candidate cs) = [] \<longleftrightarrow> filter P cs = []" for P
    by (metis filter_empty_conv set_sort_by)
  then show ?thesis by (auto simp: eligible_def Let_def split: option.splits)
qed

lemma eligible_nonempty: "eligible cs ix = [] \<longleftrightarrow> cs = []"
  by (auto simp: eligible_def Let_def split: option.splits)

lemma pick_best_hd:
  "pick_best_tvg_id cs ix =
     (case eligible (sort_by less_candidate cs) ix of [] \<Rightarrow> [] | c # _ \<Rightarrow> ec_tvg_id c)"
  by (auto simp: pick_best_tvg_id_def eligible_def Let_def split: option.splits list.splits)

lemma sorted_eligible:
  "sorted_wrt (\<lambda>a b. \<not> less_candidate b a) cs \<Longrightarrow> sorted_wrt (\<lambda>a b. \<not> less_candidate b a) (eligible cs ix)"
  by (auto simp: eligible_def Let_def sorted_wrt_filter split: option.splits)

lemma pick_best_least:
  assumes "cs \<noteq> []"
  shows "\<exists>c \<in> set (eligible cs ix). pick_best_tvg_id cs ix = ec_tvg_id c \<and>
           (\<forall>d \<in> set (eligible cs ix). \<not> less_candidate d c)"
proof -
  let ?e = "eligible (sort_by less_candidate cs) ix"
  have "sort_by less_candidate cs \<noteq> []" using assms by (metis length_0_conv length_sort_by)
  then have "?e \<noteq> []" by (simp add: eligible_nonempty)
  then obtain c es where e: "?e = c # es" by (cases ?e) auto
  have "sorted_wrt (\<lambda>a b. \<not> less_candidate b a) ?e"
    by (rule sorted_eligible) (rule candidate_order.sorted_sort_by)
  then have "\<forall>d \<in> set ?e. \<not> less_candidate d c" by (auto simp: e candidate_order.irrefl)
  then show ?thesis using e by (intro bexI [of _ c]) (auto simp: pick_best_hd eligible_sort [symmetric])
qed

section \<open>The index answers up to case\<close>

definition epg_ok :: "epg_index \<Rightarrow> bool" where
  "epg_ok ix =
     (set (map fst (ei_folded ix)) = to_lower ` set (ei_exact ix) \<and>
      (\<forall>(k, v) \<in> set (ei_folded ix). v \<noteq> []) \<and>
      (\<forall>i \<in> set (ei_exact ix). i \<noteq> []))"

lemma epg_has_iff:
  assumes "epg_ok ix"
  shows "epg_has ix i \<longleftrightarrow> trim_space i \<noteq> [] \<and> (\<exists>j \<in> set (ei_exact ix). equal_fold (trim_space i) j)"
proof -
  have "to_lower t \<in> to_lower ` set (ei_exact ix) \<longleftrightarrow>
      (case map_of (ei_folded ix) (to_lower t) of None \<Rightarrow> False | Some c \<Rightarrow> c \<noteq> [])" for t
  proof (cases "map_of (ei_folded ix) (to_lower t)")
    case None
    then show ?thesis using assms by (metis epg_ok_def map_of_eq_None_iff option.simps(4) set_map)
  next
    case (Some c)
    then have m: "(to_lower t, c) \<in> set (ei_folded ix)" by (rule map_of_SomeD)
    then have "to_lower t \<in> set (map fst (ei_folded ix))" by force
    moreover have "c \<noteq> []" using assms m unfolding epg_ok_def by blast
    ultimately show ?thesis using assms Some by (simp add: epg_ok_def)
  qed
  from this [of "trim_space i"] show ?thesis
    by (auto simp: epg_has_def Let_def equal_fold_def image_iff)
qed

lemma epg_add_ok [goinv]: "epg_ok ix \<Longrightarrow> epg_ok (epg_add i ix)"
proof -
  assume ok: "epg_ok ix"
  have hit: "map_of (ei_folded ix) k = Some c \<Longrightarrow> k \<in> to_lower ` set (ei_exact ix)" for k c
    using ok unfolding epg_ok_def by (metis domI dom_map_of_conv_image_fst set_map)
  show ?thesis
    using ok by (auto simp: epg_add_def epg_ok_def Let_def split: option.splits dest: hit)
qed

lemma epg_add_exact:
  "set (ei_exact (epg_add i ix)) = (if trim_space i = [] then set (ei_exact ix) else insert (trim_space i) (set (ei_exact ix)))"
  by (simp add: epg_add_def Let_def split: option.splits)

lemma parse_channels_ok [goinv]: "epg_ok ix \<Longrightarrow> epg_ok (snd (parse_channels ts ix))"
  by (induction ts ix rule: parse_channels.induct) (auto simp: epg_add_ok split: option.splits)

text \<open>The ids of the channel elements before the first error.\<close>

fun channel_ids :: "xml_token list \<Rightarrow> string list" where
  "channel_ids [] = []"
| "channel_ids (TokenError # ts) = []"
| "channel_ids (OtherToken # ts) = channel_ids ts"
| "channel_ids (StartElement name attrs # ts) =
     (if \<not> equal_fold name ''channel'' then channel_ids ts
      else (case channel_id attrs of None \<Rightarrow> channel_ids ts | Some i \<Rightarrow> i # channel_ids ts))"

lemma parse_channels_exact:
  "set (ei_exact (snd (parse_channels ts ix))) =
     set (ei_exact ix) \<union> (trim_space ` set (channel_ids ts) - {[]})"
  by (induction ts ix rule: parse_channels.induct) (auto simp: epg_add_exact split: option.splits)

lemma empty_epg_ok [simp]: "epg_ok empty_epg_index"
  by (simp add: epg_ok_def empty_epg_index_def)

section \<open>The expansion keeps to the entries\<close>

text \<open>An output entry is an input entry, perhaps with another guide id, or a clone of one that
  carries the URLs of a single source and names that source.\<close>

definition same_but_tvg :: "stream_info \<Rightarrow> stream_info \<Rightarrow> bool" where
  "same_but_tvg s t = (t = s\<lparr>si_tvg_id := si_tvg_id t\<rparr>)"

definition single_source_clone :: "stream_info \<Rightarrow> stream_info \<Rightarrow> bool" where
  "single_source_clone s c =
     (si_title c = si_title s \<and>
      (\<exists>m. m \<noteq> [] \<and> map_of (urls_of s) (si_source_m3u c) = Some m \<and>
           si_urls c = Some [(si_source_m3u c, m)]))"

lemma apply_group_same: "same_but_tvg s (apply_group_tvg_id fc groups all ix s)"
  by (auto simp: same_but_tvg_def apply_group_tvg_id_def Let_def split: option.splits)

lemma clone_fields [simp]:
  "si_title (clone_stream_for_group_entry s e g tvg) = si_title s"
  "si_source_m3u (clone_stream_for_group_entry s e g tvg) = itoa (ge_source_index e)"
  "si_urls (clone_stream_for_group_entry s e g tvg) = Some (clone_single_source_urls s (itoa (ge_source_index e)))"
  by (auto simp: clone_stream_for_group_entry_def Let_def split: prod.splits if_splits)

lemma group_clones_single: "c \<in> set (group_clones g tvg s) \<Longrightarrow> single_source_clone s c"
  by (auto simp: group_clones_def single_source_clone_def clone_single_source_urls_def urls_of_def
      split: option.splits if_splits)

lemma expand_loop_sound:
  assumes "\<forall>o' \<in> set out. \<exists>s \<in> S. same_but_tvg s o' \<or> single_source_clone s o'" and "set ys \<subseteq> S"
  shows "\<forall>o' \<in> set (expand_loop fc groups multi ix handled out xs ys).
           \<exists>s \<in> S. same_but_tvg s o' \<or> single_source_clone s o'"
  using assms
proof (induction fc groups multi ix handled out xs ys rule: expand_loop.induct)
  case (1 fc groups multi ix handled out xs)
  then show ?case by simp
next
  case (2 fc groups multi ix handled out xs s ys)
  let ?all = "xs @ s # ys"
  let ?a = "apply_group_tvg_id fc groups ?all ix s"
  have app: "\<forall>o' \<in> set (out @ [?a]). \<exists>s \<in> S. same_but_tvg s o' \<or> single_source_clone s o'"
    using "2.prems" apply_group_same [of s fc groups ?all ix]
    by (auto intro!: bexI [of _ s] simp del: bex_simps)
  show ?case
  proof (cases "map_of multi (to_lower (trim_space (si_title s)))")
    case None
    then show ?thesis using "2.IH"(1) [OF refl refl] app "2.prems" by (simp add: Let_def)
  next
    case (Some g)
    let ?cs = "group_clones g (resolve_group_tvg_id fc g ?all ix) s"
    have clones: "\<forall>o' \<in> set (out @ ?cs). \<exists>s \<in> S. same_but_tvg s o' \<or> single_source_clone s o'"
    proof
      fix o' assume "o' \<in> set (out @ ?cs)"
      then have "o' \<in> set out \<or> single_source_clone s o'" using group_clones_single by auto
      moreover have "s \<in> S" using "2.prems"(2) by simp
      ultimately show "\<exists>s \<in> S. same_but_tvg s o' \<or> single_source_clone s o'"
        using "2.prems"(1) by blast
    qed
    consider (seen) "to_lower (trim_space (cg_canonical g)) \<in> set handled"
      | (cloned) "to_lower (trim_space (cg_canonical g)) \<notin> set handled" "?cs \<noteq> []"
      | (none) "to_lower (trim_space (cg_canonical g)) \<notin> set handled" "?cs = []" by blast
    then show ?thesis
    proof cases
      case seen
      then show ?thesis using "2.IH"(2) [OF refl refl Some refl] Some "2.prems" by (simp add: Let_def)
    next
      case cloned
      then show ?thesis using "2.IH"(3) [OF refl refl Some refl _ refl] clones Some "2.prems" by (simp add: Let_def)
    next
      case none
      then show ?thesis using "2.IH"(4) [OF refl refl Some refl _ refl] app Some "2.prems" by (simp add: Let_def)
    qed
  qed
qed

lemma apply_entries_same:
  "list_all2 same_but_tvg ss xs \<Longrightarrow>
     list_all2 same_but_tvg (ss @ ys) (apply_group_tvg_id_to_entries fc groups ix xs ys)"
proof (induction ys arbitrary: ss xs)
  case Nil
  then show ?case by simp
next
  case (Cons s ys)
  have "list_all2 same_but_tvg (ss @ [s]) (xs @ [apply_group_tvg_id fc groups (xs @ s # ys) ix s])"
    using Cons.prems apply_group_same by (simp add: list_all2_appendI)
  from Cons.IH [OF this] show ?case by simp
qed

lemma expand_sound:
  assumes "e \<in> set (expand_streams_for_compile parse env fc entries groups ix)"
  shows "\<exists>s \<in> set entries. same_but_tvg s e \<or> single_source_clone s e"
proof -
  have id: "same_but_tvg s s" for s by (simp add: same_but_tvg_def)
  consider (off) "\<not> channel_epg_merge_active parse env \<or> groups = []"
    | (none) "channel_epg_merge_active parse env" "groups \<noteq> []" "multi_entry_groups groups = []"
    | (multi) "channel_epg_merge_active parse env" "groups \<noteq> []" "multi_entry_groups groups \<noteq> []"
    by blast
  then show ?thesis
  proof cases
    case off
    then show ?thesis using assms id by (auto simp: expand_streams_for_compile_def)
  next
    case none
    then have "list_all2 same_but_tvg entries (expand_streams_for_compile parse env fc entries groups ix)"
      using apply_entries_same [of "[]" "[]" entries fc groups ix] by (simp add: expand_streams_for_compile_def Let_def)
    then show ?thesis using assms by (metis in_set_conv_nth list_all2_conv_all_nth)
  next
    case multi
    then show ?thesis
      using assms expand_loop_sound [of "[]" "set entries" entries fc groups "multi_entry_groups groups" ix "[]" "[]"]
      by (simp add: expand_streams_for_compile_def Let_def)
  qed
qed

end
