(* ===== verification/Scanner.thy ===== *)
theory Scanner
  imports Ordering Complex_Main
begin

text \<open>
  The line scanner of the package bufio as the program uses it (lines, a buffer of 1 MiB), and
  the verbs d and f of \<open>fmt.Sscanf\<close>: the number at the start of a text, whatever follows it.
\<close>

section \<open>Lines\<close>

definition max_token :: nat where "max_token = 1048576"

definition drop_cr :: "string \<Rightarrow> string" where
  "drop_cr l = (if l \<noteq> [] \<and> last l = CHR 0x0D then butlast l else l)"

text \<open>The lines before the first one that does not fit into the buffer, and whether there was
  no such line. A final empty line is no line.\<close>

fun scan_pieces :: "string list \<Rightarrow> string list \<times> bool" where
  "scan_pieces [] = ([], True)"
| "scan_pieces (l # ls) =
     (if ls = [] \<and> l = [] then ([], True)
      else if length l \<ge> max_token then ([], False)
      else (case scan_pieces ls of (rs, ok) \<Rightarrow> (drop_cr l # rs, ok)))"

definition scan_lines :: "string \<Rightarrow> string list \<times> bool" where
  "scan_lines body = scan_pieces (split_char (CHR 0x0A) body)"

text \<open>Lines that contain no line end and do not end in a carriage return come back from the text
  made of them.\<close>

definition plain_line :: "string \<Rightarrow> bool" where
  "plain_line l = (CHR 0x0A \<notin> set l \<and> length l < max_token \<and> drop_cr l = l)"

definition unlines :: "string list \<Rightarrow> string" where
  "unlines ls = concat (map (\<lambda>l. l @ [CHR 0x0A]) ls)"

lemma split_char_append:
  "c \<notin> set l \<Longrightarrow> split_char c (l @ c # r) = l # split_char c r"
  by (induction l) (auto split: list.splits)

lemma split_unlines:
  "list_all plain_line ls \<Longrightarrow> split_char (CHR 0x0A) (unlines ls) = ls @ [[]]"
  by (induction ls) (auto simp: unlines_def plain_line_def split_char_append)

lemma scan_pieces_plain:
  "list_all plain_line ls \<Longrightarrow> scan_pieces (ls @ [[]]) = (ls, True)"
  by (induction ls) (auto simp: plain_line_def)

lemma scan_unlines: "list_all plain_line ls \<Longrightarrow> scan_lines (unlines ls) = (ls, True)"
  by (simp add: scan_lines_def split_unlines scan_pieces_plain)

section \<open>Numbers\<close>

definition take_sign :: "string \<Rightarrow> bool \<times> string" where
  "take_sign s =
     (case s of
        [] \<Rightarrow> (False, [])
      | c # r \<Rightarrow> if c = CHR ''-'' then (True, r) else if c = CHR ''+'' then (False, r) else (False, s))"

text \<open>The verb d: spaces are skipped, a sign may come before the digits, the value must fit 64 bits.\<close>

definition scan_d :: "string \<Rightarrow> int option" where
  "scan_d s =
     (let (neg, r) = take_sign (dropWhile is_space s); ds = takeWhile is_digit r in
      if ds = [] then None
      else Option.bind (digits_val 0 ds) (\<lambda>n. in_range64 (if neg then - int n else int n)))"

text \<open>The verb f for decimal numbers, as a rational number: the rounding to a float64 is not
  modelled, nor are the tokens nan, inf, hexadecimal numbers and digits separated by
  underscores, for which this function has no result.\<close>

definition digits_nat :: "string \<Rightarrow> nat" where
  "digits_nat ds = (case digits_val 0 ds of None \<Rightarrow> 0 | Some n \<Rightarrow> n)"

definition scan_exponent :: "string \<Rightarrow> int option" where
  "scan_exponent s =
     (case s of
        [] \<Rightarrow> Some 0
      | c # r \<Rightarrow>
          if to_lower [c] \<noteq> ''e'' then Some 0
          else
            let (neg, r1) = take_sign r; ds = takeWhile is_digit r1 in
            if ds = [] then None else Some (if neg then - int (digits_nat ds) else int (digits_nat ds)))"

definition scan_f :: "string \<Rightarrow> rat option" where
  "scan_f s =
     (let (neg, r) = take_sign (dropWhile is_space s);
          whole = takeWhile is_digit r; r1 = dropWhile is_digit r;
          (frac, r2) = (case r1 of
                          [] \<Rightarrow> ([], [])
                        | c # t \<Rightarrow> if c = CHR ''.'' then (takeWhile is_digit t, dropWhile is_digit t) else ([], r1))
      in if whole @ frac = [] then None
         else
           map_option (\<lambda>e.
               let m = Fract (int (digits_nat (whole @ frac))) (10 ^ length frac);
                   v = (if 0 \<le> e then m * Fract (10 ^ nat e) 1 else m * Fract 1 (10 ^ nat (- e)))
               in if neg then - v else v)
             (scan_exponent r2))"

section \<open>What is printed is scanned\<close>

lemma takeWhile_nat_str [simp]: "takeWhile is_digit (nat_str n) = nat_str n"
  by (simp add: takeWhile_eq_all_conv nat_str_digits)

lemma scan_d_nat_str:
  assumes "int64_range (int n)"
  shows "scan_d (nat_str n) = Some (int n)"
proof -
  obtain c r where cr: "nat_str n = c # r" using nat_str_nonempty by (meson neq_Nil_conv)
  have "is_digit c" using nat_str_digits [of c n] cr by simp
  then have "take_sign (dropWhile is_space (nat_str n)) = (False, nat_str n)"
    by (auto simp: cr take_sign_def is_digit_def is_space_def Let_def)
  then show ?thesis
    using assms digits_val_nat_str [of n] by (simp add: scan_d_def in_range64_def)
qed

end
