(* ===== verification/Processor.thy ===== *)
theory Processor
  imports PlaylistParser HttpMedia Sorter EpgGroups Scanner
begin

text \<open>
  One update of the playlist: the download of the sources (sourceproc/downloader.go), the
  processor (sourceproc/processor.go), the files of the configuration (config/config.go) and
  the update itself (updater/updater.go). What the network yields is an input. The workers
  of the processor are concurrent; the model takes the order in which entries reach the
  sorter as a list.
\<close>

section \<open>Lines of a source\<close>

text \<open>\<open>scanAndStream\<close>: numbered lines. \<open>intact\<close> is False when the reader ends with an error; the
  bytes read so far are scanned first. The boolean is the absence of an error.\<close>

definition scan_and_stream :: "string \<times> bool \<Rightarrow> (string \<times> int) list \<times> bool" where
  "scan_and_stream r =
     (let (ls, ok) = scan_lines (fst r) in (zip ls (map int [0..<length ls]), ok \<and> snd r))"

datatype fetch_result = FetchFailed | Fetched int "string \<times> bool"

datatype source_error = NoUrl | OpenFailed | RequestFailed | BadStatus int | NotM3u | CreateFailed | ReadFailed

text \<open>The cache files of the sources: names without directory, contents.\<close>

type_synonym cache_files = "(string \<times> string) list"

definition m3u_file_name :: "string \<Rightarrow> string" where
  "m3u_file_name idx = idx @ ''.m3u''"

text \<open>\<open>handleRemoteURL\<close>: the lines streamed, the error sent, and the cache files; on success the
  temporary file holds what has been read. \<open>can_create\<close> tells whether \<open>os.Create\<close> succeeds.\<close>

definition use_fallback ::
  "cache_files \<Rightarrow> string \<Rightarrow> source_error \<Rightarrow> (string \<times> int) list \<times> source_error option \<times> cache_files" where
  "use_fallback cache idx err =
     (case map_of cache (m3u_file_name idx) of
        None \<Rightarrow> ([], Some err, cache)
      | Some body \<Rightarrow>
          (let (ls, ok) = scan_and_stream (body, True)
           in (ls, if ok then None else Some ReadFailed, cache)))"

definition handle_remote_url ::
  "fetch_result \<Rightarrow> bool \<Rightarrow> string \<Rightarrow> cache_files \<Rightarrow>
     (string \<times> int) list \<times> source_error option \<times> cache_files" where
  "handle_remote_url fetched can_create idx cache =
     (case fetched of
        FetchFailed \<Rightarrow> use_fallback cache idx RequestFailed
      | Fetched status body \<Rightarrow>
          if status \<noteq> 200 then use_fallback cache idx (BadStatus status)
          else if \<not> snd body \<and> length (fst body) < 1024 then use_fallback cache idx NotM3u
          else if \<not> is_m3u_content (take 1024 (fst body)) then use_fallback cache idx NotM3u
          else if \<not> can_create then use_fallback cache idx CreateFailed
          else
            let (ls, ok) = scan_and_stream body
            in (ls, if ok then None else Some ReadFailed,
                AList.update (m3u_file_name idx @ ''.new'') (fst body) cache))"

text \<open>\<open>handleLocalFile\<close>; \<open>files\<close> are the readable local files by path.\<close>

definition handle_local_file ::
  "bool \<Rightarrow> url_parser \<Rightarrow> (string \<Rightarrow> string option) \<Rightarrow> string \<Rightarrow> (string \<times> int) list \<times> source_error option" where
  "handle_local_file windows parse files url =
     (let path = (if has_prefix url ''file://''
                  then (case file_url_to_path windows parse url of None \<Rightarrow> url | Some p \<Rightarrow> p) else url)
      in (case files path of
            None \<Rightarrow> ([], Some OpenFailed)
          | Some body \<Rightarrow>
              (let (ls, ok) = scan_and_stream (body, True) in (ls, if ok then None else Some ReadFailed))))"

text \<open>One source of \<open>streamDownloadM3USources\<close>.\<close>

definition download_source ::
  "proc_ctx \<Rightarrow> (string \<Rightarrow> string option) \<Rightarrow> (string \<Rightarrow> fetch_result) \<Rightarrow> (string \<Rightarrow> bool) \<Rightarrow> source_config \<Rightarrow>
     cache_files \<Rightarrow> (string \<times> int) list \<times> source_error option \<times> cache_files" where
  "download_source ctx local fetch can_create c cache =
     (let url = trim_space (sc_url c) in
      if url = [] then ([], Some NoUrl, cache)
      else if has_prefix url ''file://'' then
        (let (ls, e) = handle_local_file (pc_windows ctx) (lib_url_parse (pc_lib ctx)) local url
         in (ls, e, cache))
      else handle_remote_url (fetch url) (can_create (sc_index c)) (sc_index c) cache)"

section \<open>Entries of a source\<close>

text \<open>The loop of \<open>handleDownloaded\<close>: the pending line, and the entries sent so far with the
  number of entries parsed.\<close>

definition is_entry_line :: "string \<Rightarrow> bool" where
  "is_entry_line l = (has_prefix l ''#EXTINF:'' \<or> has_prefix l ''#EXT-X-STREAM-INF:'')"

fun handle_lines ::
  "proc_ctx \<Rightarrow> bool \<Rightarrow> string \<Rightarrow> string \<Rightarrow> (string \<times> int) list \<Rightarrow> nat \<Rightarrow> stream_info list \<Rightarrow> proc_state \<Rightarrow>
     nat \<times> stream_info list \<times> proc_state" where
  "handle_lines ctx synth idx current [] n out st = (n, out, st)"
| "handle_lines ctx synth idx current (li # ls) n out st =
     (let line = trim_space (fst li) in
      if synth \<and> has_prefix line ''#EXT-X-'' then handle_lines ctx synth idx [] ls n out st
      else if is_entry_line line then handle_lines ctx synth idx line ls n out st
      else if current \<noteq> [] \<and> \<not> has_prefix line ''#'' then
        (case parse_line ctx current li idx st of
           (s, st') \<Rightarrow>
             handle_lines ctx synth idx [] ls (Suc n)
               (if check_filter (pc_filters ctx) s then out @ [s] else out) st')
      else handle_lines ctx synth idx current ls n out st)"

definition handle_downloaded ::
  "proc_ctx \<Rightarrow> string \<Rightarrow> (string \<times> int) list \<Rightarrow> proc_state \<Rightarrow> stream_info list \<times> proc_state" where
  "handle_downloaded ctx idx ls st =
     (let conf = get_source_config (pc_us ctx) idx;
          synth = (case conf of None \<Rightarrow> False | Some c \<Rightarrow> is_discovered_m3u8_source (pc_lib ctx) idx c);
          (n, out, st1) = handle_lines ctx synth idx [] ls 0 [] st
      in (case conf of
            None \<Rightarrow> (out, st1)
          | Some c \<Rightarrow>
              if synth \<and> n = 0 then
                (case build_synthetic_discovered_stream (pc_lib ctx) c (ps_files st1) of
                   None \<Rightarrow> (out, st1)
                 | Some (s, files) \<Rightarrow>
                     (if check_filter (pc_filters ctx) s then out @ [s] else out,
                      st1\<lparr>ps_files := files\<rparr>))
              else (out, st1)))"

section \<open>The processor\<close>

record processor =
  pr_count :: int
  pr_sorter :: sorting_manager
  pr_critical :: bool
  pr_name :: string
  pr_text :: string

definition add_stream :: "go_lib \<Rightarrow> stream_info \<Rightarrow> processor \<Rightarrow> processor" where
  "add_stream lib s p =
     (if urls_of s = [] then p
      else
        let (ok, m) = add_to_sorter lib s (pr_sorter p)
        in p\<lparr>pr_count := pr_count p + 1, pr_sorter := m, pr_critical := (pr_critical p \<or> \<not> ok)\<rparr>)"

text \<open>The part of \<open>compileM3U\<close> that adjusts the sorted entries.\<close>

definition compile_entries ::
  "proc_ctx \<Rightarrow> (string \<Rightarrow> channel_group option) \<Rightarrow> (string \<Rightarrow> (int \<times> xml_token list) option) \<Rightarrow>
     stream_files \<Rightarrow> stream_info list \<Rightarrow> stream_info list" where
  "compile_entries ctx decode fetch files es =
     (let env = us_environ (pc_us ctx); parse = lib_url_parse (pc_lib ctx);
          restored = map (restore_compile_stream_urls (pc_us ctx) files) es;
          groups = load_channel_number_groups decode env
      in if \<not> channel_epg_merge_active parse env then restored
         else
           let ix = new_epg_channel_index parse env fetch in
           if groups \<noteq> []
           then expand_streams_for_compile parse env (pc_filters ctx) restored groups (Some ix)
           else apply_inferred_multi_source_epg restored (Some ix))"

fun format_entries :: "proc_ctx \<Rightarrow> string \<Rightarrow> stream_info list \<Rightarrow> slug_dir \<Rightarrow> string \<times> slug_dir" where
  "format_entries ctx base [] new = ([], new)"
| "format_entries ctx base (s # ss) new =
     (case format_stream_entry ctx base s new of
        (t, new1) \<Rightarrow> (case format_entries ctx base ss new1 of (ts, new2) \<Rightarrow> (t @ ts, new2)))"

definition compile_m3u ::
  "proc_ctx \<Rightarrow> (string \<Rightarrow> channel_group option) \<Rightarrow> (string \<Rightarrow> (int \<times> xml_token list) option) \<Rightarrow>
     string \<Rightarrow> proc_state \<Rightarrow> processor \<Rightarrow> processor \<times> proc_state" where
  "compile_m3u ctx decode fetch base st p =
     (let head = build_playlist_header_line (lib_url_parse (pc_lib ctx)) (us_environ (pc_us ctx));
          (sorted_es, m) = get_sorted_entries (pr_sorter p);
          p1 = p\<lparr>pr_sorter := m\<rparr>
      in (case sorted_es of
            None \<Rightarrow> (p1\<lparr>pr_critical := True, pr_text := head\<rparr>, st)
          | Some es \<Rightarrow>
              let (text, new) = format_entries ctx base
                     (compile_entries ctx decode fetch (ps_files st) es) (ps_new_slugs st)
              in (p1\<lparr>pr_text := head @ text\<rparr>, st\<lparr>ps_new_slugs := new\<rparr>)))"

section \<open>Publication\<close>

text \<open>The files an update publishes: the processed playlists (name, content) in the order of
  their names, the slug directories and the cache files.\<close>

record published =
  pb_processed :: "(string \<times> string) list"
  pb_slugs :: slug_dir
  pb_new_slugs :: slug_dir
  pb_cache :: cache_files

definition get_latest_processed_m3u :: "(string \<times> string) list \<Rightarrow> string option" where
  "get_latest_processed_m3u files =
     (let valid = filter (\<lambda>f. \<not> has_suffix (fst f) ''.tmp'') files in
      if valid = [] then None else Some (fst (last valid)))"

definition clear_old_processed_m3u :: "string \<Rightarrow> (string \<times> string) list \<Rightarrow> (string \<times> string) list" where
  "clear_old_processed_m3u latest files = filter (\<lambda>f. fst f = latest) files"

text \<open>A write or rename to a name, in a directory kept in the order of names.\<close>

definition put_file :: "string \<Rightarrow> string \<Rightarrow> (string \<times> string) list \<Rightarrow> (string \<times> string) list" where
  "put_file name content files =
     insort_by (\<lambda>a b. fst a < fst b) (name, content) (filter (\<lambda>f. fst f \<noteq> name) files)"

definition rename_new_cache :: "string \<Rightarrow> cache_files \<Rightarrow> cache_files" where
  "rename_new_cache idx cache =
     (case map_of cache (m3u_file_name idx @ ''.new'') of
        None \<Rightarrow> cache
      | Some body \<Rightarrow>
          AList.update (m3u_file_name idx) body (AList.delete (m3u_file_name idx @ ''.new'') cache))"

definition apply_new_remote_files :: "utils_state \<Rightarrow> published \<Rightarrow> published" where
  "apply_new_remote_files us pb =
     (let (slugs, new_slugs) = publish_slugs (pb_slugs pb, pb_new_slugs pb)
      in pb\<lparr>pb_cache := fold rename_new_cache (get_m3u_indexes us) (pb_cache pb),
            pb_slugs := slugs, pb_new_slugs := new_slugs\<rparr>)"

definition clean_failed_remote_files :: "utils_state \<Rightarrow> published \<Rightarrow> published" where
  "clean_failed_remote_files us pb =
     pb\<lparr>pb_cache := fold (\<lambda>idx c. AList.delete (m3u_file_name idx @ ''.new'') c) (get_m3u_indexes us) (pb_cache pb),
        pb_new_slugs := None\<rparr>"

text \<open>The result file is created under the name \<open>pr_name\<close> with the suffix .tmp and holds
  \<open>pr_text\<close> once the playlist is compiled. \<open>Wait\<close>, for a run that is cancelled or not.\<close>

definition tmp_name :: "processor \<Rightarrow> string" where "tmp_name p = pr_name p @ ''.tmp''"

definition wait_processor :: "utils_state \<Rightarrow> bool \<Rightarrow> processor \<Rightarrow> published \<Rightarrow> bool \<times> published" where
  "wait_processor us cancelled p pb =
     (let removed = filter (\<lambda>f. fst f \<noteq> tmp_name p) (pb_processed pb) in
      if cancelled then (False, clean_failed_remote_files us (pb\<lparr>pb_processed := removed\<rparr>))
      else if \<not> pr_critical p then
        let prod = trim_suffix (tmp_name p) ''.tmp'';
            pb1 = apply_new_remote_files us (pb\<lparr>pb_processed := put_file prod (pr_text p) removed\<rparr>)
        in (True, pb1\<lparr>pb_processed := clear_old_processed_m3u prod (pb_processed pb1)\<rparr>)
      else (True, clean_failed_remote_files us (pb\<lparr>pb_processed := removed\<rparr>)))"

text \<open>\<open>GetResultPath\<close> after \<open>Wait\<close>: the new file, or the latest one when the run failed (the
  empty string when there is none).\<close>

definition get_result_path :: "processor \<Rightarrow> published \<Rightarrow> string" where
  "get_result_path p pb =
     (if pr_critical p
      then (case get_latest_processed_m3u (pb_processed pb) of None \<Rightarrow> [] | Some n \<Rightarrow> n)
      else trim_suffix (tmp_name p) ''.tmp'')"

section \<open>Facts on publication\<close>

lemma trim_tmp [simp]: "trim_suffix (tmp_name p) ''.tmp'' = pr_name p"
proof -
  have "has_suffix (pr_name p @ ''.tmp'') ''.tmp''" by (simp add: has_suffix_def)
  then show ?thesis by (simp add: trim_suffix_def tmp_name_def)
qed

lemma clear_put: "clear_old_processed_m3u name (put_file name content files) = [(name, content)]"
proof -
  have "filter (\<lambda>f. fst f = name) (insort_by (\<lambda>a b. fst a < fst b) (name, content) fs) = [(name, content)]"
    if "\<forall>f \<in> set fs. fst f \<noteq> name" for fs
    using that by (induction fs) auto
  then show ?thesis by (simp add: clear_old_processed_m3u_def put_file_def)
qed

lemma apply_keeps_processed [simp]: "pb_processed (apply_new_remote_files us pb) = pb_processed pb"
  by (simp add: apply_new_remote_files_def split: prod.splits)

lemma wait_success:
  assumes "\<not> pr_critical p"
  shows "pb_processed (snd (wait_processor us False p pb)) = [(pr_name p, pr_text p)]"
    and "pb_slugs (snd (wait_processor us False p pb)) = fst (publish_slugs (pb_slugs pb, pb_new_slugs pb))"
    and "pb_new_slugs (snd (wait_processor us False p pb)) = None"
  using assms
  by (simp_all add: wait_processor_def Let_def clear_put apply_new_remote_files_def split: prod.splits)
     (metis snd_conv snd_publish)

lemma wait_failure:
  assumes "pr_critical p \<or> cancelled"
  shows "pb_slugs (snd (wait_processor us cancelled p pb)) = pb_slugs pb"
    and "pb_processed (snd (wait_processor us cancelled p pb)) = filter (\<lambda>f. fst f \<noteq> tmp_name p) (pb_processed pb)"
    and "pb_new_slugs (snd (wait_processor us cancelled p pb)) = None"
  using assms by (auto simp: wait_processor_def Let_def clean_failed_remote_files_def)

lemma map_of_delete_new:
  "map_of (fold (\<lambda>idx c. AList.delete (m3u_file_name idx @ ''.new'') c) is cache) n =
     (if n \<in> (\<lambda>idx. m3u_file_name idx @ ''.new'') ` set is then None else map_of cache n)"
  by (induction "is" arbitrary: cache) (auto simp: delete_conv')

lemma latest_unchanged:
  "get_latest_processed_m3u (filter (\<lambda>f. fst f \<noteq> n @ ''.tmp'') files) = get_latest_processed_m3u files"
proof -
  have "\<not> has_suffix (fst f) ''.tmp'' \<Longrightarrow> fst f \<noteq> n @ ''.tmp''" for f :: "string \<times> string"
    by (auto simp: has_suffix_def)
  then have "filter (\<lambda>f. \<not> has_suffix (fst f) ''.tmp'') (filter (\<lambda>f. fst f \<noteq> n @ ''.tmp'') files) =
      filter (\<lambda>f. \<not> has_suffix (fst f) ''.tmp'') files"
    by (auto intro: filter_cong)
  then show ?thesis by (simp add: get_latest_processed_m3u_def)
qed

end
