(* ===== verification/Demo.thy ===== *)
theory Demo
  imports CoordinatorFacts PlaylistFacts Processor EpgGroups
begin

text \<open>
  A small concrete installation: an environment with three sources, two streams of one channel,
  simple total functions in place of the libraries outside the repository, and a network that
  always answers. The witnesses of the properties are evaluated on it.
\<close>

definition demo_url_parse :: url_parser where
  "demo_url_parse s =
     (if has_prefix s ''http://''
      then Some \<lparr>u_scheme = ''http'', u_host = ''h'', u_path = ''/live/news.m3u8'', u_raw_query = []\<rparr>
      else None)"

definition demo_lib :: go_lib where
  "demo_lib =
     \<lparr>lib_url_parse = demo_url_parse,
      lib_join_path = (\<lambda>b es. Some (b @ concat es)),
      lib_regex = (\<lambda>p. Some (\<lambda>s. contains_str s p)),
      lib_regex_erase = (\<lambda>p. Some (\<lambda>s. s)),
      lib_sha3 = (\<lambda>s. take 28 (s @ replicate 28 (CHR ''x''))),
      lib_xxhash = length\<rparr>"

definition demo_us :: utils_state where
  "demo_us =
     \<lparr>us_environ = [(''M3U_URL_2'', ''http://b/list.m3u''), (''M3U_URL_10'', ''http://c/list.m3u''),
                    (''M3U_URL_1'', ''http://a/list.m3u''), (''M3U_MAX_CONCURRENCY_1'', ''2'')],
      us_dynamic = [], us_filters = []\<rparr>"

definition demo_stream :: stream_info where
  "demo_stream =
     empty_stream\<lparr>si_title := ''News One'', si_tvg_id := ''news.one'', si_group := ''News'',
       si_tvg_chno := ''7'', si_urls := Some [(''1'', [(''k'', ''3:::http://a/live'')])],
       si_source_m3u := ''1'', si_source_index := 3, si_source_url := ''http://a/live''\<rparr>"

definition demo_stream2 :: stream_info where
  "demo_stream2 =
     empty_stream\<lparr>si_title := ''news one'', si_tvg_type := ''live'', si_logo_url := ''http://l/x.png'',
       si_urls := Some [(''2'', [(''k'', ''5:::http://b/live'')])],
       si_source_m3u := ''2'', si_source_index := 5, si_source_url := ''http://b/live''\<rparr>"

definition demo_filters :: filter_config where
  "demo_filters =
     \<lparr>fc_include_groups = [], fc_include_titles = [], fc_exclude_groups = [], fc_exclude_titles = [],
      fc_channel_rules = [], fc_channel_merges = []\<rparr>"

definition demo_ctx :: proc_ctx where
  "demo_ctx =
     \<lparr>pc_lib = demo_lib, pc_us = demo_us, pc_filters = demo_filters, pc_walk = (\<lambda>_. None),
      pc_icon_root = [], pc_windows = False, pc_resolve = (\<lambda>_ p. Some p), pc_sched = (\<lambda>xs. xs)\<rparr>"

lemma demo_environ_ok: "environ_ok (us_environ demo_us)"
  by (simp add: demo_us_def environ_ok_def)

lemma demo_indexes: "get_m3u_indexes demo_us = [''1'', ''2'', ''10'']"
  by code_simp

lemma demo_sources: "\<forall>s \<in> set (load_static_sources (us_environ demo_us)). sc_max_concurrency s \<le> 2"
  by code_simp

lemma small_limits:
  assumes "us_dynamic us = []" and "\<forall>s \<in> set (load_static_sources (us_environ us)). sc_max_concurrency s \<le> 2"
    and "\<forall>v \<in> set (map snd (us_environ us)). case atoi (trim_space v) of None \<Rightarrow> True | Some n \<Rightarrow> n \<le> 2"
  shows "1 \<le> get_source_max_concurrency us i \<and> get_source_max_concurrency us i \<le> 2"
proof -
  have src: "sc_max_concurrency s \<le> 2" if "get_source_config us i = Some s" for s
    using that assms(1,2) by (auto simp: get_source_config_def find_Some_iff)
  have env: "n \<le> 2" if "map_of (us_environ us) k = Some v" "atoi (trim_space v) = Some n" for k v n
    using that assms(3) by (force dest: map_of_SomeD)
  show ?thesis
    using src env
    by (auto simp: get_source_max_concurrency_def os_getenv_def Let_def split: option.splits)
qed

lemma demo_limits: "1 \<le> get_source_max_concurrency demo_us i \<and> get_source_max_concurrency demo_us i \<le> 2"
  by (rule small_limits [OF _ demo_sources]) code_simp+

lemma demo_manager_ok: "cm_ok demo_us new_concurrency_manager"
proof (rule new_manager_slots_ok)
  fix i
  show "0 \<le> get_source_max_concurrency demo_us i \<and> get_source_max_concurrency demo_us i < 2 ^ 31"
    using demo_limits [of i] by simp
qed

definition demo_response :: http_response where
  "demo_response =
     \<lparr>hr_status = 200, hr_header = [(''Content-Type'', ''video/mp2t'')], hr_path = Some ''/live'',
      hr_body = ''abcd''\<rparr>"

definition demo_world :: lb_world where
  "demo_world =
     \<lparr>lw_do = (\<lambda>lap ph url n. Inr (Some demo_response)), lw_local = (\<lambda>_. None),
      lw_peek = (\<lambda>_ _. 4), lw_measure = (\<lambda>_ _. Some 1), lw_arrival = (\<lambda>_ xs. rev xs),
      lw_cm = (\<lambda>_ _. new_concurrency_manager), lw_cancelled = (\<lambda>_ _. False),
      lw_windows = False, lw_parse = demo_url_parse\<rparr>"

definition demo_config :: lb_config where
  "demo_config = new_default_lb_config (us_environ demo_us)"

lemma demo_arrival: "arrival_ok demo_world"
  by (simp add: arrival_ok_def demo_world_def)

text \<open>One published slug, x, of a channel without files: its URL is the fallback of the mapping.\<close>

definition demo_slugs :: slug_dir where
  "demo_slugs = Some [(''x'', Some (json_stream demo_stream))]"

definition demo_result :: lb_result where
  "demo_result =
     \<lparr>lr_index = ''1'', lr_sub = ''fallback'', lr_url = ''http://a/live'', lr_response = demo_response\<rparr>"

lemma demo_result_index [simp]: "lr_index demo_result = ''1''"
  by (simp add: demo_result_def)

lemma demo_balance:
  "balance 5 demo_us demo_world demo_config [] (parse_stream_info_by_slug demo_us [] demo_slugs None) ''/p/x.ts'' [] =
    Some (Inr demo_result, [])"
  by code_simp

lemma demo_max_retries: "lb_max_retries demo_config = 5"
  by code_simp

lemma demo_available: "available_indexes (append_discovery_indexes (get_m3u_indexes demo_us) demo_stream) demo_stream \<noteq> []"
  by code_simp

definition demo_stream_config :: stream_config where
  "demo_stream_config =
     \<lparr>cfg_shared_buffer_size = 3, cfg_chunk_size = 1024, cfg_timeout_seconds = 3,
      cfg_initial_backoff = 200000000, cfg_max_retries = 5, cfg_expected_throughput = 0\<rparr>"

lemma demo_manager_free: "get_count new_concurrency_manager i < cm_limit demo_us new_concurrency_manager i"
  using demo_limits [of i] by (simp add: get_count_def new_concurrency_manager_def cm_limit_def)

lemma demo_media_writer:
  "start_media_writer demo_us demo_stream_config (\<lambda>_ c. c) (\<lambda>cm. cm) demo_result
     [(4, 5, ReadResult ''x'' None), (5, 6, ReadResult ''y'' (Some EOF))] 0
     (new_stream_coordinator demo_stream_config, new_concurrency_manager) \<noteq> None"
  by (simp add: start_media_writer_def begin_media_writer_def finish_writer_setup_def media_process_def
      write_chunk_def new_stream_coordinator_def demo_stream_config_def should_timeout_def
      get_timeout_duration_def wrap64_def ring_next_def ring_size_def new_chunk_def Let_def split: prod.splits)

text \<open>A manager in which source 2, with the limit 1, has a connection.\<close>

definition demo_busy :: cm_state where
  "demo_busy = run_slots demo_us [(''2'', True)] new_concurrency_manager"

lemma demo_busy_ok: "cm_ok demo_us demo_busy"
  unfolding demo_busy_def run_slots_eq by (rule cm.run_ok [OF demo_manager_ok])

lemma demo_busy_full: "cm_limit demo_us demo_busy ''2'' \<le> get_count demo_busy ''2''"
  by code_simp

lemma demo_busy_refused:
  "fst (update_concurrency demo_us ''2'' True demo_busy) = False"
  using cm.acquire_granted [OF demo_busy_ok, of "''2''"] demo_busy_full by auto

text \<open>A sorter with two channels, and a run that is about to be published.\<close>

definition demo_sorter :: sorting_manager where
  "demo_sorter =
     add_all demo_lib [demo_stream2\<lparr>si_title := ''B''\<rparr>, demo_stream] (new_sorting_manager [] (\<lambda>_. False) (\<lambda>_. False))"



definition demo_processor :: processor where
  "demo_processor =
     \<lparr>pr_count = 2, pr_sorter = demo_sorter, pr_critical = False, pr_name = ''p2'', pr_text = ''#EXTM3U''\<rparr>"

definition demo_published :: published where
  "demo_published =
     \<lparr>pb_processed = [(''p1'', ''old'')], pb_slugs = demo_slugs,
      pb_new_slugs = encode_slugs demo_lib [demo_stream] None, pb_cache = []\<rparr>"

lemma demo_slugs_differ: "slug_of demo_lib demo_stream2 \<noteq> slug_of demo_lib demo_stream"
  by code_simp

lemma demo_plain: "list_all plain_logo [demo_stream2\<lparr>si_title := ''B''\<rparr>, demo_stream]"
  by (simp add: plain_logo_def demo_stream_def demo_stream2_def empty_stream_def)

lemma demo_sorter_key: "text_field (sm_key demo_sorter) = Some si_title"
  by (simp add: demo_sorter_def new_sorting_manager_def text_field_def os_getenv_def)

lemma demo_sorter_sorted: "fst (get_sorted_entries demo_sorter) = Some (the (fst (get_sorted_entries demo_sorter)))"
  using sorted_entries [OF add_all_ok [OF new_manager_ok demo_plain]] unfolding demo_sorter_def by (metis option.sel)

text \<open>A source of the dynamic catalogue with a limit that does not fit 32 bits.\<close>

definition demo_huge :: utils_state where
  "demo_huge = demo_us\<lparr>us_dynamic := [\<lparr>sc_index = ''1'', sc_url = ''http://a'', sc_name = [], sc_group = [],
     sc_max_concurrency = 3000000000, sc_contains_vod = False\<rparr>]\<rparr>"

lemma demo_huge_limit: "get_source_max_concurrency demo_huge ''1'' = 3000000000"
  by (simp add: demo_huge_def get_source_max_concurrency_def get_source_config_def)

lemma demo_entry_ok: "entry_ok demo_ctx demo_stream"
  by code_simp

lemma demo_output_title: "output_title demo_stream = ''News One''"
  by code_simp

end
