(* ===== verification/StreamClient.thy ===== *)
theory StreamClient
  imports HttpMedia
begin

text \<open>
  The writer of a response to one client, proxy/client/client.go: the header is collected until
  the first byte, and sent once. \<open>cl_fails\<close> tells which of the writes to the network fail (the
  first one has the number 0); \<open>cl_writable\<close> is False for a client without a response writer.
\<close>

record stream_client =
  cl_headers :: "(string \<times> string) list"
  cl_sent :: bool
  cl_status :: "int option"
  cl_out_header :: "(string \<times> string) list"
  cl_body :: string
  cl_writable :: bool
  cl_writes :: nat
  cl_fails :: "nat \<Rightarrow> bool"

definition new_stream_client :: "(nat \<Rightarrow> bool) \<Rightarrow> stream_client" where
  "new_stream_client fails =
     \<lparr>cl_headers = [], cl_sent = False, cl_status = None, cl_out_header = [], cl_body = [],
      cl_writable = True, cl_writes = 0, cl_fails = fails\<rparr>"

definition header_set :: "string \<Rightarrow> string \<Rightarrow> (string \<times> string) list \<Rightarrow> (string \<times> string) list" where
  "header_set k v h = filter (\<lambda>kv. fst kv \<noteq> k) h @ [(k, v)]"

definition header_del :: "string \<Rightarrow> (string \<times> string) list \<Rightarrow> (string \<times> string) list" where
  "header_del k h = filter (\<lambda>kv. fst kv \<noteq> k) h"

definition client_set_header :: "string \<Rightarrow> string \<Rightarrow> stream_client \<Rightarrow> stream_client" where
  "client_set_header k v c = (if cl_sent c then c else c\<lparr>cl_headers := header_set k v (cl_headers c)\<rparr>)"

text \<open>\<open>Header().Add\<close>: to the collected header, or to that of the response when it is sent.\<close>

definition client_add_header :: "string \<times> string \<Rightarrow> stream_client \<Rightarrow> stream_client" where
  "client_add_header kv c =
     (if cl_sent c then c\<lparr>cl_out_header := cl_out_header c @ [kv]\<rparr>
      else c\<lparr>cl_headers := cl_headers c @ [kv]\<rparr>)"

definition client_write_header :: "int \<Rightarrow> stream_client \<Rightarrow> stream_client" where
  "client_write_header status c =
     (if cl_sent c then c
      else c\<lparr>cl_sent := True, cl_out_header := cl_out_header c @ cl_headers c, cl_status := Some status\<rparr>)"

text \<open>\<open>Write\<close>: whether it succeeds. A write that fails sends nothing.\<close>

definition client_write :: "string \<Rightarrow> stream_client \<Rightarrow> bool \<times> stream_client" where
  "client_write data c =
     (let c1 = (if cl_sent c then c else client_write_header 200 c);
          c2 = c1\<lparr>cl_writes := Suc (cl_writes c1)\<rparr>
      in if cl_fails c1 (cl_writes c1) then (False, c2) else (True, c2\<lparr>cl_body := cl_body c2 @ data\<rparr>))"

section \<open>One status line\<close>

text \<open>A call on a client.\<close>

datatype client_op = SetHeader string string | AddHeader "string \<times> string" | WriteHeader int | WriteData string

definition run_client :: "client_op \<Rightarrow> stream_client \<Rightarrow> stream_client" where
  "run_client op c =
     (case op of
        SetHeader k v \<Rightarrow> client_set_header k v c
      | AddHeader kv \<Rightarrow> client_add_header kv c
      | WriteHeader n \<Rightarrow> client_write_header n c
      | WriteData d \<Rightarrow> snd (client_write d c))"

lemma run_client_sent:
  "cl_sent c \<Longrightarrow> cl_sent (run_client op c) \<and> cl_status (run_client op c) = cl_status c"
  by (cases op)
     (simp_all add: run_client_def client_set_header_def client_add_header_def client_write_header_def
        client_write_def Let_def)

lemma run_client_body: "prefix (cl_body c) (cl_body (run_client op c))"
  by (cases op)
     (simp_all add: run_client_def client_set_header_def client_add_header_def client_write_header_def
        client_write_def Let_def)

text \<open>Once the header is sent, its status never changes and no byte is taken back.\<close>

lemma client_status_final:
  "cl_sent c \<Longrightarrow> cl_sent (fold run_client ops c) \<and> cl_status (fold run_client ops c) = cl_status c \<and>
     prefix (cl_body c) (cl_body (fold run_client ops c))"
proof (induction ops arbitrary: c)
  case (Cons op ops)
  have "cl_sent (run_client op c)" "cl_status (run_client op c) = cl_status c"
    using run_client_sent [OF Cons.prems] by blast+
  with Cons.IH [of "run_client op c"] run_client_body [of c op] show ?case
    by (auto intro: prefix_order.trans)
qed simp

text \<open>Bytes are written after a header only.\<close>

definition client_ok :: "stream_client \<Rightarrow> bool" where
  "client_ok c = (cl_sent c = (cl_status c \<noteq> None) \<and> (cl_body c \<noteq> [] \<longrightarrow> cl_sent c))"

lemma run_client_ok [goinv]: "client_ok c \<Longrightarrow> client_ok (run_client op c)"
  by (cases op)
     (auto simp: run_client_def client_set_header_def client_add_header_def client_write_header_def
        client_write_def client_ok_def Let_def)

lemma new_client_ok: "client_ok (new_stream_client fails)"
  by (simp add: client_ok_def new_stream_client_def)

end
