(* ===== verification/Hls.thy ===== *)
theory Hls
  imports CoordinatorFacts Scanner StreamClient
begin

text \<open>
  The writer of live playlists, proxy/stream/buffer/coordinator_m3u8.go: the parser of media and
  master playlists, the choice of the new segments, the copy of a segment into the shared
  buffer, and the polling loop with its time-out. One \<open>hls_tick\<close> is what one iteration of the
  loop meets: the answers of the network, the clock, the random jitter, the end of the context
  and what other threads do to the coordinator. The parser of net/url is a parameter.
\<close>

section \<open>The playlist\<close>

record playlist_metadata =
  pm_target :: rat
  pm_sequence :: int
  pm_version :: int
  pm_endlist :: bool
  pm_segments :: "string list"
  pm_variants :: "string list"
  pm_master :: bool

definition new_metadata :: playlist_metadata where
  "new_metadata =
     \<lparr>pm_target = 2, pm_sequence = 0, pm_version = 0, pm_endlist = False, pm_segments = [],
      pm_variants = [], pm_master = False\<rparr>"

text \<open>What follows a tag, read with \<open>Sscanf\<close>: the old value stays when there is no number.\<close>

definition scanned :: "(string \<Rightarrow> 'a option) \<Rightarrow> string \<Rightarrow> string \<Rightarrow> 'a \<Rightarrow> 'a" where
  "scanned scan tag line old = (case scan (trim_prefix line tag) of None \<Rightarrow> old | Some v \<Rightarrow> v)"

definition playlist_line ::
  "'u url_ops \<Rightarrow> 'u \<Rightarrow> string \<Rightarrow> playlist_metadata \<Rightarrow> playlist_metadata" where
  "playlist_line uo base raw m =
     (let line = trim_space raw in
      if has_prefix line ''#EXTM3U'' then m
      else if has_prefix line ''#EXT-X-STREAM-INF'' then m\<lparr>pm_master := True\<rparr>
      else if has_prefix line ''#EXT-X-VERSION:''
      then m\<lparr>pm_version := scanned scan_d ''#EXT-X-VERSION:'' line (pm_version m)\<rparr>
      else if has_prefix line ''#EXT-X-TARGETDURATION:''
      then m\<lparr>pm_target := scanned scan_f ''#EXT-X-TARGETDURATION:'' line (pm_target m)\<rparr>
      else if has_prefix line ''#EXT-X-MEDIA-SEQUENCE:''
      then m\<lparr>pm_sequence := scanned scan_d ''#EXT-X-MEDIA-SEQUENCE:'' line (pm_sequence m)\<rparr>
      else if line = ''#EXT-X-ENDLIST'' then m\<lparr>pm_endlist := True\<rparr>
      else if \<not> has_prefix line ''#'' \<and> line \<noteq> [] then
        (case line_url uo base line of
           None \<Rightarrow> m
         | Some u \<Rightarrow>
             if pm_master m then m\<lparr>pm_variants := pm_variants m @ [u]\<rparr>
             else m\<lparr>pm_segments := pm_segments m @ [u]\<rparr>)
      else m)"

text \<open>\<open>parsePlaylist\<close>: None when the playlist's own URL does not parse or a line is too long.\<close>

definition parse_playlist :: "'u url_ops \<Rightarrow> string \<Rightarrow> string \<Rightarrow> playlist_metadata option" where
  "parse_playlist uo media_url content =
     (case uo_parse uo media_url of
        None \<Rightarrow> None
      | Some base \<Rightarrow>
          (let (ls, ok) = scan_lines content
           in if ok then Some (fold (playlist_line uo base) ls new_metadata) else None))"

section \<open>The new segments\<close>

definition startup_live_edge_segments :: nat where "startup_live_edge_segments = 2"

definition get_new_segments :: "string list \<Rightarrow> int \<Rightarrow> int \<Rightarrow> string list" where
  "get_new_segments segs last_seq current =
     (if last_seq < 0 then
        (if length segs \<le> startup_live_edge_segments then segs
         else drop (length segs - startup_live_edge_segments) segs)
      else
        let count = int (length segs); diff = wrap64 (current - last_seq) in
        if diff \<le> 0 \<or> diff \<ge> count then segs else drop (nat (max 0 (count - diff))) segs)"

section \<open>The world and the state of the writer\<close>

text \<open>The answer to a request: an error, a nil response, or a response, whose body can be read
  to its end or not.\<close>

datatype hls_answer = NoAnswer string | NilAnswer | Answer http_response bool

record segment_event =
  se_ctx_done :: bool
  se_answer :: hls_answer
  se_start :: int
  se_between :: "nat \<Rightarrow> coordinator \<Rightarrow> coordinator"
  se_reads :: "(int \<times> int \<times> read_event) list"

text \<open>\<open>ht_rest\<close> is what is left of a body after a failed attempt to decompress it; \<open>ht_jitter\<close>
  is the factor 0.9 + 0.2 * rand; \<open>ht_ctx_after\<close> tells whether the context has ended when the
  segments have failed.\<close>

record hls_tick =
  ht_other :: "coordinator \<Rightarrow> coordinator"
  ht_ctx_done :: bool
  ht_now :: int
  ht_playlist :: hls_answer
  ht_rest :: string
  ht_jitter :: rat
  ht_variant :: hls_answer
  ht_changed :: int
  ht_segments :: "nat \<Rightarrow> segment_event"
  ht_ctx_after :: bool
  ht_end :: int

text \<open>\<open>hl_answer\<close> is \<open>currentResp\<close>; \<open>hl_asked\<close> records the segments asked for, in order.\<close>

record hls_state =
  hl_coord :: coordinator
  hl_url :: string
  hl_answer :: "(http_response \<times> bool) option"
  hl_last_err :: "stream_error option"
  hl_empty :: nat
  hl_changed :: int
  hl_poll :: int
  hl_seq :: int
  hl_header_set :: bool
  hl_asked :: "string list"

section \<open>One segment\<close>

text \<open>The header the clients get: that of the first segment, without a length.\<close>

definition segment_header :: "http_response \<Rightarrow> (string \<times> string) list" where
  "segment_header r =
     header_del ''Content-Length''
       (if header_get (hr_header r) ''Content-Type'' = []
        then header_set ''Content-Type'' ''video/MP2T'' (hr_header r) else hr_header r)"

definition stream_segment ::
  "stream_config \<Rightarrow> segment_event \<Rightarrow> string \<Rightarrow> hls_state \<Rightarrow> (stream_error option \<times> hls_state) option" where
  "stream_segment cfg ev url st0 =
     (let st = st0\<lparr>hl_asked := hl_asked st0 @ [url]\<rparr> in
      case se_answer ev of
        NoAnswer e \<Rightarrow> Some (Some (ErrorText (''Error fetching segment stream: '' @ e)), st)
      | NilAnswer \<Rightarrow> Some (Some (ErrorText ''Returned nil response from HTTP client''), st)
      | Answer r _ \<Rightarrow>
          if \<not> is_acceptable_stream_status (hr_status r)
          then Some (Some (ErrorText (''unexpected status code received: '' @ itoa (hr_status r) @ '' for '' @ url)), st)
          else
            let c = (if hl_header_set st then hl_coord st
                     else (hl_coord st)\<lparr>co_resp_header := Some (segment_header r)\<rparr>)
            in map_option (\<lambda>(err, c'). (err, st\<lparr>hl_header_set := True, hl_coord := c'\<rparr>))
                 (read_and_write_stream cfg (\<lambda>c. co_state c = Active) (se_between ev) media_process
                    (se_reads ev) 0 (se_start ev) c))"

text \<open>\<open>processSegments\<close>; the segments are numbered for the world.\<close>

fun process_segments ::
  "stream_config \<Rightarrow> (nat \<Rightarrow> segment_event) \<Rightarrow> nat \<Rightarrow> string list \<Rightarrow> hls_state \<Rightarrow>
     (stream_error option \<times> hls_state) option" where
  "process_segments cfg evs i [] st = Some (None, st)"
| "process_segments cfg evs i (s # ss) st =
     (if se_ctx_done (evs i) then Some (Some CtxError, st)
      else
        (case stream_segment cfg (evs i) s st of
           None \<Rightarrow> None
         | Some (err, st') \<Rightarrow>
             if err \<noteq> None \<and> err \<noteq> Some EOF then Some (err, st')
             else process_segments cfg evs (Suc i) ss st'))"

section \<open>The loop\<close>

datatype hls_outcome = Continue | Return | Panic

definition hls_fail :: "stream_error option \<Rightarrow> int \<Rightarrow> hls_tick \<Rightarrow> hls_state \<Rightarrow> hls_state" where
  "hls_fail err status t st = st\<lparr>hl_coord := write_error err status (ht_end t) (hl_coord st)\<rparr>"

text \<open>The start of an iteration: the response at hand, or the end of the context, the time-out,
  or the answer to a new request.\<close>

definition hls_timeout :: "stream_config \<Rightarrow> hls_state \<Rightarrow> int" where
  "hls_timeout cfg st = wrap64 (wrap64 (cfg_timeout_seconds cfg * 1000000000) + hl_poll st)"

definition hls_next :: "stream_config \<Rightarrow> hls_tick \<Rightarrow> hls_state \<Rightarrow> hls_state + (hls_answer \<times> hls_state)" where
  "hls_next cfg t st =
     (case hl_answer st of
        Some (r, readable) \<Rightarrow> Inr (Answer r readable, st\<lparr>hl_answer := None\<rparr>)
      | None \<Rightarrow>
          if ht_ctx_done t
          then Inl (if hl_last_err st = None then hls_fail (Some CtxError) status_client_closed t st else st)
          else if ht_now t - hl_changed st > hls_timeout cfg st
          then Inl (hls_fail (Some StreamTimeout) status_eof t st)
          else Inr (ht_playlist t, st))"

text \<open>The polling interval that follows from the target duration; None when the ticker panics.\<close>

definition go_trunc :: "rat \<Rightarrow> int" where
  "go_trunc x = (if x < 0 then - \<lfloor>- x\<rfloor> else \<lfloor>x\<rfloor>)"

definition next_poll :: "rat \<Rightarrow> rat \<Rightarrow> int \<Rightarrow> int option" where
  "next_poll target jitter poll =
     (if target > 0 then
        (let interval = go_trunc (target * 1000000000 / 2);
             jittered = go_trunc (of_int interval * jitter)
         in if of_int \<bar>jittered - poll\<bar> > (of_int poll :: rat) / 10
            then (if jittered > 0 then Some jittered else None) else Some poll)
      else Some poll)"

text \<open>A master playlist: its first variant is followed.\<close>

definition hls_master :: "hls_tick \<Rightarrow> playlist_metadata \<Rightarrow> hls_state \<Rightarrow> hls_outcome \<times> hls_state" where
  "hls_master t m st =
     (case pm_variants m of
        [] \<Rightarrow> (Return, hls_fail (Some (ErrorText ''master playlist has no variants'')) status_server_error t st)
      | v # _ \<Rightarrow>
          if v = hl_url st
          then (Return, hls_fail (Some (ErrorText ''master playlist resolved to itself'')) status_server_error t st)
          else
            let st1 = st\<lparr>hl_url := v, hl_seq := -1, hl_changed := ht_changed t, hl_empty := 0\<rparr> in
            (Continue,
             (case ht_variant t of
                NoAnswer e \<Rightarrow> st1\<lparr>hl_answer := None, hl_last_err := Some (ErrorText e)\<rparr>
              | NilAnswer \<Rightarrow> st1\<lparr>hl_answer := None\<rparr>
              | Answer r ok \<Rightarrow> st1\<lparr>hl_answer := Some (r, ok)\<rparr>)))"

text \<open>A media playlist without segments.\<close>

definition hls_no_segments :: "hls_tick \<Rightarrow> hls_state \<Rightarrow> hls_outcome \<times> hls_state" where
  "hls_no_segments t st =
     (let err = Some (ErrorText ''playlist has no media segments'');
          st1 = st\<lparr>hl_empty := Suc (hl_empty st), hl_last_err := err\<rparr>
      in if hl_empty st1 \<ge> 3 then (Return, hls_fail err status_server_error t st1) else (Continue, st1))"

text \<open>A media playlist with segments: a finished one is played to its end, a live one from its
  new segments on.\<close>

definition hls_media ::
  "stream_config \<Rightarrow> hls_tick \<Rightarrow> playlist_metadata \<Rightarrow> hls_state \<Rightarrow> (hls_outcome \<times> hls_state) option" where
  "hls_media cfg t m st0 =
     (let st = st0\<lparr>hl_empty := 0\<rparr> in
      if pm_endlist m
      then map_option (\<lambda>(_, st1). (Return, hls_fail (Some EOF) status_eof t st1))
             (process_segments cfg (ht_segments t) 0 (pm_segments m) st)
      else if pm_sequence m > hl_seq st
      then
        map_option (\<lambda>(err, st1).
            (case err of
               None \<Rightarrow> (Continue, st1\<lparr>hl_seq := pm_sequence m, hl_last_err := None\<rparr>)
             | Some e \<Rightarrow>
                 if e = CtxError \<or> ht_ctx_after t
                 then (Return, hls_fail err status_server_error t st1)
                 else (Continue, st1\<lparr>hl_last_err := err\<rparr>)))
          (process_segments cfg (ht_segments t) 0
             (get_new_segments (pm_segments m) (hl_seq st) (pm_sequence m)) (st\<lparr>hl_changed := ht_changed t\<rparr>))
      else Some (Continue, st))"

definition hls_playlist ::
  "stream_config \<Rightarrow> hls_tick \<Rightarrow> playlist_metadata \<Rightarrow> hls_state \<Rightarrow> (hls_outcome \<times> hls_state) option" where
  "hls_playlist cfg t m st0 =
     (case next_poll (pm_target m) (ht_jitter t) (hl_poll st0) of
        None \<Rightarrow> Some (Panic, st0)
      | Some poll \<Rightarrow>
          (let st = st0\<lparr>hl_poll := poll\<rparr> in
           if pm_master m then Some (hls_master t m st)
           else if pm_segments m = [] then Some (hls_no_segments t st)
           else hls_media cfg t m st))"

text \<open>What is made of a response: an error, or the playlist.\<close>

definition read_playlist ::
  "'u url_ops \<Rightarrow> (string \<Rightarrow> string option) \<Rightarrow> string \<Rightarrow> string \<Rightarrow> http_response \<Rightarrow> bool \<Rightarrow>
     string + playlist_metadata" where
  "read_playlist uo gunzip url rest r readable =
     (if \<not> is_acceptable_stream_status (hr_status r)
      then Inl (''playlist returned status '' @ itoa (hr_status r))
      else
        let body = (case maybe_decompress_response_body gunzip r of None \<Rightarrow> rest | Some r1 \<Rightarrow> hr_body r1)
        in if \<not> readable then Inl ''failed to read playlist body''
           else (case parse_playlist uo url body of
                   None \<Rightarrow> Inl ''failed to parse playlist''
                 | Some m \<Rightarrow> Inr m))"

definition hls_step ::
  "stream_config \<Rightarrow> 'u url_ops \<Rightarrow> (string \<Rightarrow> string option) \<Rightarrow> hls_tick \<Rightarrow> hls_state \<Rightarrow>
     (hls_outcome \<times> hls_state) option" where
  "hls_step cfg uo gunzip t st =
     (case hls_next cfg t st of
        Inl st1 \<Rightarrow> Some (Return, st1)
      | Inr (NoAnswer e, st1) \<Rightarrow> Some (Continue, st1\<lparr>hl_last_err := Some (ErrorText e)\<rparr>)
      | Inr (NilAnswer, st1) \<Rightarrow> Some (Continue, st1)
      | Inr (Answer r readable, st1) \<Rightarrow>
          (case read_playlist uo gunzip (hl_url st1) (ht_rest t) r readable of
             Inl e \<Rightarrow> Some (Continue, st1\<lparr>hl_last_err := Some (ErrorText e)\<rparr>)
           | Inr m \<Rightarrow> hls_playlist cfg t m st1))"

text \<open>The loop, for the given ticks: \<open>Continue\<close> is the outcome of a loop that is still running
  after them. None: the reads of a segment last no longer than the copy of the segment.\<close>

fun hls_loop ::
  "stream_config \<Rightarrow> 'u url_ops \<Rightarrow> (string \<Rightarrow> string option) \<Rightarrow> hls_tick list \<Rightarrow> hls_state \<Rightarrow>
     (hls_outcome \<times> hls_state) option" where
  "hls_loop cfg uo gunzip [] st = Some (Continue, st)"
| "hls_loop cfg uo gunzip (t # ts) st0 =
     (let st = st0\<lparr>hl_coord := ht_other t (hl_coord st0)\<rparr> in
      if co_state (hl_coord st) \<noteq> Active then Some (Return, st)
      else
        (case hls_step cfg uo gunzip t st of
           Some (Continue, st1) \<Rightarrow> hls_loop cfg uo gunzip ts st1
         | r \<Rightarrow> r))"

text \<open>\<open>StartHLSWriter\<close> on the coordinator and the connection slots; \<open>url\<close> is the URL of the
  response's request, \<open>readable\<close> tells whether its body can be read, \<open>cm_end\<close> is what other
  streams do to the slots while the writer runs. A panic is recovered and reported. The result
  is None as long as the writer runs.\<close>

definition hls_start :: "lb_result \<Rightarrow> string \<Rightarrow> bool \<Rightarrow> int \<Rightarrow> coordinator \<Rightarrow> hls_state" where
  "hls_start r url readable now c =
     \<lparr>hl_coord = c, hl_url = url, hl_answer = Some (lr_response r, readable), hl_last_err = None,
      hl_empty = 0, hl_changed = now, hl_poll = 1000000000, hl_seq = -1, hl_header_set = False,
      hl_asked = []\<rparr>"

definition start_hls_writer ::
  "utils_state \<Rightarrow> stream_config \<Rightarrow> 'u url_ops \<Rightarrow> (string \<Rightarrow> string option) \<Rightarrow> (cm_state \<Rightarrow> cm_state) \<Rightarrow>
     lb_result \<Rightarrow> string \<Rightarrow> bool \<Rightarrow> int \<Rightarrow> hls_tick list \<Rightarrow> coordinator \<times> cm_state \<Rightarrow>
     (coordinator \<times> cm_state) option" where
  "start_hls_writer us cfg uo gunzip cm_end r url readable now ts st =
     (let c1 = begin_media_writer r (fst st); (got, cm1) = update_concurrency us (lr_index r) True (snd st) in
      if \<not> got
      then Some ((write_error (Some (ErrorText ''concurrency limit reached'')) status_server_error now c1)
                   \<lparr>co_lb_result := None\<rparr>, cm1)
      else
        (case hls_loop cfg uo gunzip ts (hls_start r url readable now c1) of
           None \<Rightarrow> None
         | Some (out, st1) \<Rightarrow>
             if out = Continue then None
             else
               let c2 = (hl_coord st1)\<lparr>co_lb_result := None\<rparr>
               in Some
                 (if out = Panic
                  then write_error (Some (ErrorText ''internal server error'')) status_server_error now c2 else c2,
                  snd (update_concurrency us (lr_index r) False (cm_end cm1)))))"

end
