(* ===== verification/HlsFacts.thy ===== *)
theory HlsFacts
  imports Hls
begin

text \<open>
  Facts on the writer of live playlists: what it asks for while a server moves its window, that
  it ends when the server stalls, that it gives its slot back, and that the parser reads what a
  server prints.
\<close>

section \<open>Frames\<close>

text \<open>The fields of the writer that the copy of segments leaves alone.\<close>

definition loop_fields :: "hls_state \<Rightarrow> string \<times> (http_response \<times> bool) option \<times> stream_error option \<times> nat \<times> int \<times> int \<times> int" where
  "loop_fields st = (hl_url st, hl_answer st, hl_last_err st, hl_empty st, hl_changed st, hl_poll st, hl_seq st)"

lemma stream_segment_frame:
  "stream_segment cfg ev url st = Some (err, st') \<Longrightarrow>
     loop_fields st' = loop_fields st \<and> hl_asked st' = hl_asked st @ [url]"
  by (auto simp: stream_segment_def loop_fields_def Let_def split: hls_answer.splits if_splits prod.splits)

lemma process_segments_frame:
  "process_segments cfg evs i ss st = Some (err, st') \<Longrightarrow> loop_fields st' = loop_fields st"
proof (induction cfg evs i ss st rule: process_segments.induct)
  case (2 cfg evs i s ss st)
  then show ?case
    by (auto split: if_splits option.splits dest!: stream_segment_frame)
qed simp

lemma hls_fail_simps [simp]:
  "hl_asked (hls_fail err status t st) = hl_asked st"
  "loop_fields (hls_fail err status t st) = loop_fields st"
  "co_state (hl_coord (hls_fail err status t st)) = Closed"
  by (simp_all add: hls_fail_def loop_fields_def write_error_closes)

section \<open>Following a live window\<close>

text \<open>Segments whose copy does not fail.\<close>

definition segment_fine :: "stream_config \<Rightarrow> segment_event \<Rightarrow> bool" where
  "segment_fine cfg ev =
     (\<not> se_ctx_done ev \<and>
      (case se_answer ev of Answer r _ \<Rightarrow> is_acceptable_stream_status (hr_status r) | _ \<Rightarrow> False) \<and>
      (\<forall>c err c'. read_and_write_stream cfg (\<lambda>c. co_state c = Active) (se_between ev) media_process
          (se_reads ev) 0 (se_start ev) c = Some (err, c') \<longrightarrow> err = None \<or> err = Some EOF))"

lemma process_segments_fine:
  "(\<And>j. segment_fine cfg (evs j)) \<Longrightarrow> process_segments cfg evs i ss st = Some (err, st') \<Longrightarrow>
     err = None \<and> hl_asked st' = hl_asked st @ ss \<and> loop_fields st' = loop_fields st"
proof (induction ss arbitrary: i st)
  case Nil
  then show ?case by simp
next
  case (Cons s ss)
  have fine: "segment_fine cfg (evs i)" by (rule Cons.prems(1))
  obtain e st1 where seg: "stream_segment cfg (evs i) s st = Some (e, st1)"
    using Cons.prems(2) fine by (auto simp: segment_fine_def split: option.splits)
  have "e = None \<or> e = Some EOF"
    using seg fine by (auto simp: stream_segment_def segment_fine_def Let_def split: hls_answer.splits if_splits)
  then have "process_segments cfg evs (Suc i) ss st1 = Some (err, st')"
    using Cons.prems(2) seg fine by (auto simp: segment_fine_def)
  with Cons.IH [OF Cons.prems(1)] stream_segment_frame [OF seg] show ?case by auto
qed

text \<open>A server with a window of \<open>w\<close> segments: at sequence number \<open>n\<close> it offers those from \<open>n\<close> on.\<close>

definition window :: "(nat \<Rightarrow> string) \<Rightarrow> nat \<Rightarrow> nat \<Rightarrow> string list" where
  "window seg w n = map seg [n..<n + w]"

lemma map_upt_join: "a \<le> b \<Longrightarrow> b \<le> c \<Longrightarrow> map f [a..<b] @ map f [b..<c] = map f [a..<(c :: nat)]"
  by (metis le_add_diff_inverse map_append upt_add_eq_append)

lemma new_segments_window:
  assumes "0 < w" and "k < n" and "n \<le> k + w" and "int n < 2 ^ 63"
  shows "get_new_segments (window seg w n) (int k) (int n) = map seg [k + w..<n + w]"
proof -
  have diff: "wrap64 (int n - int k) = int n - int k"
    using assms by (simp add: wrap64_def)
  show ?thesis
  proof (cases "n = k + w")
    case True
    then show ?thesis using assms diff by (simp add: get_new_segments_def window_def)
  next
    case False
    then have "nat (int w - (int n - int k)) = w - (n - k)" "n + (w - (n - k)) = k + w" using assms by auto
    then show ?thesis using assms False diff
      by (simp add: get_new_segments_def window_def drop_map add.commute)
  qed
qed

lemma first_segments_window:
  "0 < w \<Longrightarrow> get_new_segments (window seg w n) (- 1) (int n) = map seg [n + (w - 2)..<n + w]"
  by (auto simp: get_new_segments_def window_def startup_live_edge_segments_def drop_map)

definition live_metadata :: "(nat \<Rightarrow> string) \<Rightarrow> nat \<Rightarrow> nat \<Rightarrow> playlist_metadata \<Rightarrow> bool" where
  "live_metadata seg w n m =
     (pm_segments m = window seg w n \<and> pm_sequence m = int n \<and> \<not> pm_master m \<and> \<not> pm_endlist m)"

definition live_response ::
  "'u url_ops \<Rightarrow> (string \<Rightarrow> string option) \<Rightarrow> string \<Rightarrow> (nat \<Rightarrow> string) \<Rightarrow> nat \<Rightarrow> nat \<Rightarrow> string \<Rightarrow>
     http_response \<times> bool \<Rightarrow> bool" where
  "live_response uo gunzip url seg w n rest a =
     (case read_playlist uo gunzip url rest (fst a) (snd a) of Inl _ \<Rightarrow> False | Inr m \<Rightarrow> live_metadata seg w n m)"

definition live_tick ::
  "stream_config \<Rightarrow> 'u url_ops \<Rightarrow> (string \<Rightarrow> string option) \<Rightarrow> string \<Rightarrow> (nat \<Rightarrow> string) \<Rightarrow> nat \<Rightarrow> nat \<Rightarrow>
     hls_tick \<Rightarrow> bool" where
  "live_tick cfg uo gunzip url seg w n t =
     ((\<forall>i. segment_fine cfg (ht_segments t i)) \<and>
      (case ht_playlist t of
         Answer r readable \<Rightarrow> live_response uo gunzip url seg w n (ht_rest t) (r, readable)
       | _ \<Rightarrow> False))"

text \<open>The writer has asked for the segments from \<open>lo\<close> on, without a gap, up to the window of the
  sequence number it has processed.\<close>

definition on_track :: "string \<Rightarrow> (nat \<Rightarrow> string) \<Rightarrow> nat \<Rightarrow> nat \<Rightarrow> nat \<Rightarrow> hls_state \<Rightarrow> bool" where
  "on_track url seg w lo k st =
     (hl_answer st = None \<and> hl_url st = url \<and> hl_seq st = int k \<and> lo \<le> k + w \<and>
      hl_asked st = map seg [lo..<k + w])"

lemma hls_media_live:
  assumes fine: "\<And>i. segment_fine cfg (ht_segments t i)" and m: "live_metadata seg w n m"
    and step: "hls_media cfg t m st = Some (out, st')"
  shows "out = Continue \<and> hl_answer st' = hl_answer st \<and> hl_url st' = hl_url st \<and>
     (if int n > hl_seq st
      then hl_seq st' = int n \<and>
           hl_asked st' = hl_asked st @ get_new_segments (window seg w n) (hl_seq st) (int n)
      else hl_seq st' = hl_seq st \<and> hl_asked st' = hl_asked st)"
  using m step
  by (auto simp: hls_media_def live_metadata_def Let_def loop_fields_def split: if_splits
      dest!: process_segments_fine [OF fine, rotated])

lemma hls_playlist_live:
  assumes fine: "\<And>i. segment_fine cfg (ht_segments t i)" and m: "live_metadata seg w n m" and w: "0 < w"
    and step: "hls_playlist cfg t m st = Some (out, st')"
  shows "(out = Continue \<and> hl_answer st' = hl_answer st \<and> hl_url st' = hl_url st \<and>
      (if int n > hl_seq st
       then hl_seq st' = int n \<and>
            hl_asked st' = hl_asked st @ get_new_segments (window seg w n) (hl_seq st) (int n)
       else hl_seq st' = hl_seq st \<and> hl_asked st' = hl_asked st)) \<or>
     (out \<noteq> Continue \<and> hl_asked st' = hl_asked st)"
proof (cases "next_poll (pm_target m) (ht_jitter t) (hl_poll st)")
  case None
  then show ?thesis using step by (simp add: hls_playlist_def)
next
  case (Some poll)
  have "pm_segments m \<noteq> []" "\<not> pm_master m" using m w by (auto simp: live_metadata_def window_def)
  then have "hls_media cfg t m (st\<lparr>hl_poll := poll\<rparr>) = Some (out, st')"
    using step Some by (simp add: hls_playlist_def)
  from hls_media_live [OF fine m this] show ?thesis by simp
qed

text \<open>One step with a window that has moved by at most its own size.\<close>

lemma hls_step_live:
  assumes tick: "live_tick cfg uo gunzip url seg w n t" and w: "0 < w" and n: "int n < 2 ^ 63"
    and st: "hl_url st = url" "\<And>a. hl_answer st = Some a \<Longrightarrow> live_response uo gunzip url seg w n (ht_rest t) a"
    and step: "hls_step cfg uo gunzip t st = Some (out, st')"
  shows "(out = Continue \<and> hl_answer st' = None \<and> hl_url st' = url \<and>
      (if int n > hl_seq st
       then hl_seq st' = int n \<and>
            hl_asked st' = hl_asked st @ get_new_segments (window seg w n) (hl_seq st) (int n)
       else hl_seq st' = hl_seq st \<and> hl_asked st' = hl_asked st)) \<or>
     (out \<noteq> Continue \<and> hl_asked st' = hl_asked st)"
proof (cases "hls_next cfg t st")
  case (Inl st1)
  then have "hl_asked st1 = hl_asked st" by (auto simp: hls_next_def split: option.splits if_splits prod.splits)
  then show ?thesis using step Inl by (simp add: hls_step_def)
next
  case (Inr p)
  obtain a st1 where p: "p = (a, st1)" by (cases p)
  have st1: "hl_answer st1 = None" "hl_url st1 = url" "hl_seq st1 = hl_seq st" "hl_asked st1 = hl_asked st"
    using Inr st(1) by (auto simp: hls_next_def p split: option.splits if_splits prod.splits)
  obtain r readable where a: "a = Answer r readable" "live_response uo gunzip url seg w n (ht_rest t) (r, readable)"
    using Inr st(2) tick
    by (auto simp: hls_next_def p live_tick_def split: option.splits if_splits prod.splits hls_answer.splits)
  then obtain m where m: "read_playlist uo gunzip url (ht_rest t) r readable = Inr m" "live_metadata seg w n m"
    by (auto simp: live_response_def split: sum.splits)
  then have "hls_playlist cfg t m st1 = Some (out, st')"
    using step Inr by (simp add: hls_step_def p a(1) st1)
  have fine: "segment_fine cfg (ht_segments t i)" for i using tick by (simp add: live_tick_def)
  from hls_playlist_live [OF fine m(2) w \<open>hls_playlist cfg t m st1 = _\<close>] show ?thesis
    by (simp add: st1 cong: if_cong)
qed

text \<open>The loop, from a state that is on track: the windows may stand still or move by at most
  their size.\<close>

definition steady :: "nat \<Rightarrow> nat list \<Rightarrow> bool" where
  "steady w ns = (successively (\<lambda>k n. k \<le> n \<and> n \<le> k + w) ns \<and> list_all (\<lambda>n. int n < 2 ^ 63) ns)"

lemma hls_loop_on_track:
  assumes "list_all2 (live_tick cfg uo gunzip url seg w) ns ts" and "steady w (k # ns)" and "0 < w"
    and "on_track url seg w lo k st" and "hls_loop cfg uo gunzip ts st = Some (out, st')"
  shows "\<exists>hi. lo \<le> hi \<and> hl_asked st' = map seg [lo..<hi] \<and> (out = Continue \<longrightarrow> hi = last (k # ns) + w)"
  using assms
proof (induction ns ts arbitrary: k st rule: list_all2_induct)
  case Nil
  then show ?case by (auto simp: on_track_def)
next
  case (Cons n ns t ts)
  let ?st = "st\<lparr>hl_coord := ht_other t (hl_coord st)\<rparr>"
  have n: "k \<le> n" "n \<le> k + w" "int n < 2 ^ 63" and steady: "steady w (n # ns)"
    using Cons.prems(1) by (auto simp: steady_def)
  have track: "hl_answer ?st = None" "hl_url ?st = url" "hl_seq ?st = int k" "lo \<le> k + w"
      "hl_asked ?st = map seg [lo..<k + w]"
    using Cons.prems(3) by (auto simp: on_track_def)
  show ?case
  proof (cases "co_state (hl_coord ?st) \<noteq> Active")
    case True
    then have "out = Return" "st' = ?st" using Cons.prems(4) by auto
    with track show ?thesis by (intro exI [of _ "k + w"]) simp
  next
    case False
    then obtain out1 st1 where step: "hls_step cfg uo gunzip t ?st = Some (out1, st1)"
      using Cons.prems(4) by (auto split: option.splits)
    note live = hls_step_live [OF Cons.hyps(1) Cons.prems(2) n(3) track(2) _ step]
    show ?thesis
    proof (cases "out1 = Continue")
      case True
      have "on_track url seg w lo n st1"
      proof (cases "k < n")
        case True
        then have "hl_asked st1 = map seg [lo..<k + w] @ map seg [k + w..<n + w]"
          using live \<open>out1 = Continue\<close> track new_segments_window [OF Cons.prems(2) True n(2,3)] by simp
        then have "hl_asked st1 = map seg [lo..<n + w]"
          using map_upt_join [of lo "k + w" "n + w" seg] track(4) n(1) by simp
        then show ?thesis using live \<open>out1 = Continue\<close> track True by (simp add: on_track_def)
      next
        case False
        then show ?thesis using live \<open>out1 = Continue\<close> track n(1) by (simp add: on_track_def)
      qed
      moreover have "hls_loop cfg uo gunzip ts st1 = Some (out, st')"
        using Cons.prems(4) False step True by simp
      ultimately show ?thesis using Cons.IH [OF steady Cons.prems(2)] by fastforce
    next
      case not_continue: False
      then have "out = out1" "st' = st1" using Cons.prems(4) False step by (cases out1; simp)+
      then show ?thesis using live not_continue track by (intro exI [of _ "k + w"]) simp
    qed
  qed
qed

text \<open>From the start of the writer: the first window is joined at its last two segments.\<close>

lemma hls_follows_window:
  assumes ticks: "list_all2 (live_tick cfg uo gunzip url seg w) ns ts" and steady: "steady w ns" and w: "0 < w"
    and first: "live_response uo gunzip url seg w (hd ns) (ht_rest (hd ts)) (lr_response r, readable)"
    and ns: "ns \<noteq> []"
    and run: "hls_loop cfg uo gunzip ts (hls_start r url readable now c) = Some (out, st')"
  shows "\<exists>hi. hl_asked st' = map seg [hd ns + (w - 2)..<hi] \<and> (out = Continue \<longrightarrow> hi = last ns + w)"
proof -
  obtain n ns' where n: "ns = n # ns'" using ns by (cases ns) auto
  obtain t ts' where t: "ts = t # ts'" "live_tick cfg uo gunzip url seg w n t"
      "list_all2 (live_tick cfg uo gunzip url seg w) ns' ts'"
    using ticks by (auto simp: n list_all2_Cons1)
  let ?st = "(hls_start r url readable now c)\<lparr>hl_coord := ht_other t c\<rparr>"
  have start: "hl_url ?st = url" "hl_seq ?st = -1" "hl_asked ?st = []"
      "hl_answer ?st = Some (lr_response r, readable)" "hl_coord (hls_start r url readable now c) = c"
    by (simp_all add: hls_start_def)
  have big: "int n < 2 ^ 63" using steady by (simp add: steady_def n)
  show ?thesis
  proof (cases "co_state (ht_other t c) \<noteq> Active")
    case True
    then have "out = Return" "st' = ?st" using run by (auto simp: t start(5))
    then show ?thesis using start(3) by (intro exI [of _ 0]) simp
  next
    case False
    then obtain out1 st1 where step: "hls_step cfg uo gunzip t ?st = Some (out1, st1)"
      using run by (auto simp: t start(5) split: option.splits)
    have live: "(out1 = Continue \<and> hl_answer st1 = None \<and> hl_url st1 = url \<and> hl_seq st1 = int n \<and>
         hl_asked st1 = map seg [n + (w - 2)..<n + w]) \<or> (out1 \<noteq> Continue \<and> hl_asked st1 = [])"
      using hls_step_live [OF t(2) w big start(1) _ step] start first first_segments_window [OF w, of seg n]
      by (simp add: n t(1))
    show ?thesis
    proof (cases "out1 = Continue")
      case True
      then have "on_track url seg w (n + (w - 2)) n st1" using live by (simp add: on_track_def)
      moreover have "hls_loop cfg uo gunzip ts' st1 = Some (out, st')"
        using run False step True by (simp add: t start(5))
      moreover have "steady w (n # ns')" using steady by (simp add: n)
      ultimately show ?thesis using hls_loop_on_track [OF t(3) _ w] by (fastforce simp: n)
    next
      case not_continue: False
      then have "out = out1" "st' = st1" using run False step by (cases out1; simp add: t start(5))+
      then show ?thesis using live not_continue by (intro exI [of _ 0]) simp
    qed
  qed
qed

section \<open>A server that stalls\<close>

text \<open>Nothing new arrives: no answer, an answer that is no playlist, or a playlist that has not
  moved past the sequence number \<open>k\<close>; the target duration is at most \<open>target\<close> seconds.\<close>

definition idle_metadata :: "int \<Rightarrow> rat \<Rightarrow> playlist_metadata \<Rightarrow> bool" where
  "idle_metadata k target m =
     (\<not> pm_master m \<and> \<not> pm_endlist m \<and> (pm_segments m = [] \<or> pm_sequence m \<le> k) \<and> pm_target m \<le> target)"

definition idle_tick ::
  "'u url_ops \<Rightarrow> (string \<Rightarrow> string option) \<Rightarrow> string \<Rightarrow> int \<Rightarrow> rat \<Rightarrow> hls_tick \<Rightarrow> bool" where
  "idle_tick uo gunzip url k target t =
     (0 \<le> ht_jitter t \<and> ht_jitter t \<le> 11 / 10 \<and>
      (case ht_playlist t of
         Answer r readable \<Rightarrow>
           (case read_playlist uo gunzip url (ht_rest t) r readable of
              Inl _ \<Rightarrow> True | Inr m \<Rightarrow> idle_metadata k target m)
       | _ \<Rightarrow> True))"

definition poll_bound :: "rat \<Rightarrow> int \<Rightarrow> int" where
  "poll_bound target poll = max poll \<lfloor>target * 550000000\<rfloor>"

lemma next_poll_bound:
  assumes "0 \<le> jitter" and "jitter \<le> 11 / 10" and "target' \<le> target" and "0 < poll"
    and "poll \<le> poll_bound target p" and "next_poll target' jitter poll = Some q"
  shows "0 < q \<and> q \<le> poll_bound target p"
proof (cases "q = poll")
  case False
  let ?i = "go_trunc (target' * 1000000000 / 2)"
  have pos: "target' > 0" and q: "q = go_trunc (of_int ?i * jitter)" and "q > 0"
    using assms(6) False by (auto simp: next_poll_def Let_def split: if_splits)
  have i: "0 \<le> ?i" "of_int ?i \<le> target' * 500000000"
    using pos of_int_floor_le [of "500000000 * target'"] by (auto simp: go_trunc_def mult.commute)
  then have "(of_int ?i :: rat) * jitter \<le> (target * 500000000) * (11 / 10)"
    using assms(1-3) pos by (intro mult_mono) auto
  moreover have "0 \<le> (of_int ?i :: rat) * jitter" using i(1) assms(1) by simp
  ultimately have "q \<le> \<lfloor>target * 550000000\<rfloor>"
    unfolding q go_trunc_def by (auto simp: not_less intro!: floor_mono)
  then show ?thesis using \<open>q > 0\<close> by (simp add: poll_bound_def)
qed (use assms in auto)

lemma hls_step_idle:
  assumes tick: "idle_tick uo gunzip (hl_url st) (hl_seq st) target t" and answer: "hl_answer st = None"
    and poll: "0 < hl_poll st" "hl_poll st \<le> poll_bound target p"
  obtains out st' where "hls_step cfg uo gunzip t st = Some (out, st')"
    and "out = Continue \<Longrightarrow>
       hl_answer st' = None \<and> hl_url st' = hl_url st \<and> hl_seq st' = hl_seq st \<and>
       hl_changed st' = hl_changed st \<and> 0 < hl_poll st' \<and> hl_poll st' \<le> poll_bound target p \<and>
       \<not> ht_now t - hl_changed st > hls_timeout cfg st"
proof (cases "ht_ctx_done t \<or> ht_now t - hl_changed st > hls_timeout cfg st")
  case True
  then obtain st1 where "hls_next cfg t st = Inl st1" using answer by (cases "ht_ctx_done t") (auto simp: hls_next_def)
  then show ?thesis by (intro that [of Return st1]) (simp_all add: hls_step_def)
next
  case False
  then have go: "hls_next cfg t st = Inr (ht_playlist t, st)" "\<not> ht_now t - hl_changed st > hls_timeout cfg st"
    using answer by (auto simp: hls_next_def)
  show ?thesis
  proof (cases "\<exists>r readable m. ht_playlist t = Answer r readable \<and>
      read_playlist uo gunzip (hl_url st) (ht_rest t) r readable = Inr m")
    case False
    have "\<exists>e. hls_step cfg uo gunzip t st = Some (Continue, st\<lparr>hl_last_err := e\<rparr>)"
    proof (cases "ht_playlist t")
      case NilAnswer
      then show ?thesis using go by (intro exI [of _ "hl_last_err st"]) (simp add: hls_step_def)
    next
      case (Answer r readable)
      then obtain e where "read_playlist uo gunzip (hl_url st) (ht_rest t) r readable = Inl e"
        using False by (metis sum.exhaust)
      then show ?thesis using go Answer by (auto simp: hls_step_def)
    qed (use go in \<open>auto simp: hls_step_def\<close>)
    then show ?thesis using answer poll go that by fastforce
  next
    case True
    then obtain r readable m where m: "ht_playlist t = Answer r readable"
        "read_playlist uo gunzip (hl_url st) (ht_rest t) r readable = Inr m" by blast
    have idle: "idle_metadata (hl_seq st) target m" "0 \<le> ht_jitter t" "ht_jitter t \<le> 11 / 10"
      using tick m by (auto simp: idle_tick_def)
    have step: "hls_step cfg uo gunzip t st = hls_playlist cfg t m st" using go m by (simp add: hls_step_def)
    show ?thesis
    proof (cases "next_poll (pm_target m) (ht_jitter t) (hl_poll st)")
      case None
      then show ?thesis using step by (intro that [of Panic st]) (simp_all add: hls_playlist_def)
    next
      case (Some q)
      have q: "0 < q" "q \<le> poll_bound target p"
        using next_poll_bound [OF idle(2,3) _ poll Some] idle(1) by (auto simp: idle_metadata_def)
      let ?st = "st\<lparr>hl_poll := q\<rparr>"
      have play: "hls_playlist cfg t m st = (if pm_segments m = [] then Some (hls_no_segments t ?st) else hls_media cfg t m ?st)"
        using Some idle(1) by (simp add: hls_playlist_def idle_metadata_def)
      show ?thesis
      proof (cases "pm_segments m = []")
        case True
        obtain o1 s1 where o: "hls_no_segments t ?st = (o1, s1)" by fastforce
        show ?thesis
          by (rule that [of o1 s1]) (use o step play True q answer go in \<open>auto simp: hls_no_segments_def Let_def split: if_splits\<close>)
      next
        case False
        then have "hls_media cfg t m ?st = Some (Continue, ?st\<lparr>hl_empty := 0\<rparr>)"
          using idle(1) by (simp add: hls_media_def idle_metadata_def)
        then show ?thesis
          by (intro that [of Continue "?st\<lparr>hl_empty := 0\<rparr>"]) (use step play False q answer go in auto)
      qed
    qed
  qed
qed

text \<open>Once a tick comes after the time-out has passed, the writer has ended.\<close>

lemma hls_loop_stalled:
  assumes "list_all (idle_tick uo gunzip (hl_url st) (hl_seq st) target) ts" and "hl_answer st = None"
    and "0 < hl_poll st" "hl_poll st \<le> poll_bound target p"
    and "0 \<le> cfg_timeout_seconds cfg"
    and "cfg_timeout_seconds cfg * 1000000000 + poll_bound target p < 2 ^ 63"
    and "t \<in> set ts" and "ht_now t - hl_changed st > cfg_timeout_seconds cfg * 1000000000 + poll_bound target p"
  shows "\<exists>out st'. hls_loop cfg uo gunzip ts st = Some (out, st') \<and> out \<noteq> Continue"
  using assms
proof (induction ts arbitrary: st)
  case Nil
  then show ?case by simp
next
  case (Cons u us)
  let ?st = "st\<lparr>hl_coord := ht_other u (hl_coord st)\<rparr>"
  show ?case
  proof (cases "co_state (hl_coord ?st) \<noteq> Active")
    case True
    then show ?thesis by simp
  next
    case False
    have "idle_tick uo gunzip (hl_url ?st) (hl_seq ?st) target u" "hl_answer ?st = None" "0 < hl_poll ?st"
        "hl_poll ?st \<le> poll_bound target p"
      using Cons.prems by auto
    then obtain out st1 where step: "hls_step cfg uo gunzip u ?st = Some (out, st1)"
      and cont: "out = Continue \<Longrightarrow>
       hl_answer st1 = None \<and> hl_url st1 = hl_url ?st \<and> hl_seq st1 = hl_seq ?st \<and>
       hl_changed st1 = hl_changed ?st \<and> 0 < hl_poll st1 \<and> hl_poll st1 \<le> poll_bound target p \<and>
       \<not> ht_now u - hl_changed ?st > hls_timeout cfg ?st"
      by (rule hls_step_idle [where cfg = cfg]) blast
    show ?thesis
    proof (cases "out = Continue")
      case True
      note st1 = cont [OF True]
      have "0 \<le> cfg_timeout_seconds cfg * 1000000000" "cfg_timeout_seconds cfg * 1000000000 < 2 ^ 63"
          "cfg_timeout_seconds cfg * 1000000000 + hl_poll st < 2 ^ 63"
        using Cons.prems(3-6) by simp_all
      then have "hls_timeout cfg ?st = cfg_timeout_seconds cfg * 1000000000 + hl_poll st"
        using Cons.prems(3) by (simp add: hls_timeout_def wrap64_def)
      then have "t \<noteq> u" using st1 Cons.prems(4,8) by auto
      then have "t \<in> set us" using Cons.prems(7) by simp
      then have "\<exists>out st'. hls_loop cfg uo gunzip us st1 = Some (out, st') \<and> out \<noteq> Continue"
        using Cons.prems st1 by (intro Cons.IH) auto
      then show ?thesis using False step True by simp
    next
      case out: False
      then show ?thesis using False step by (cases out) auto
    qed
  qed
qed

section \<open>Chains of master playlists\<close>

text \<open>Each playlist is a master playlist with the default target duration, whose first variant is
  another URL and answers with the next one.\<close>

fun master_chain ::
  "'u url_ops \<Rightarrow> (string \<Rightarrow> string option) \<Rightarrow> string \<Rightarrow> http_response \<times> bool \<Rightarrow> hls_tick list \<Rightarrow> bool" where
  "master_chain uo gunzip url a [] = True"
| "master_chain uo gunzip url a (t # ts) =
     (9 / 10 \<le> ht_jitter t \<and> (\<forall>c. ht_other t c = c) \<and>
      (case read_playlist uo gunzip url (ht_rest t) (fst a) (snd a) of
         Inl _ \<Rightarrow> False
       | Inr m \<Rightarrow>
           pm_master m \<and> pm_target m = 2 \<and>
           (case pm_variants m of
              [] \<Rightarrow> False
            | v # _ \<Rightarrow> v \<noteq> url \<and>
                (case ht_variant t of Answer r ok \<Rightarrow> master_chain uo gunzip v (r, ok) ts | _ \<Rightarrow> False))))"

lemma next_poll_default: "9 / 10 \<le> jitter \<Longrightarrow> next_poll 2 jitter poll \<noteq> None"
proof -
  assume j: "9 / 10 \<le> jitter"
  have i: "go_trunc (2 * 1000000000 / 2) = 1000000000" by (simp add: go_trunc_def)
  have "(1 :: rat) \<le> 1000000000 * jitter" using j by simp
  then have "1 \<le> \<lfloor>1000000000 * jitter\<rfloor>" "\<not> 1000000000 * jitter < 0" by linarith+
  then show ?thesis unfolding next_poll_def i by (simp add: go_trunc_def Let_def)
qed

lemma master_chain_runs:
  "master_chain uo gunzip (hl_url st) a ts \<Longrightarrow> hl_answer st = Some a \<Longrightarrow> co_state (hl_coord st) = Active \<Longrightarrow>
     \<exists>st'. hls_loop cfg uo gunzip ts st = Some (Continue, st') \<and> co_state (hl_coord st') = Active"
proof (induction ts arbitrary: st a)
  case Nil
  then show ?case by simp
next
  case (Cons t ts)
  obtain m v vs r ok where m: "read_playlist uo gunzip (hl_url st) (ht_rest t) (fst a) (snd a) = Inr m"
      "pm_master m" "pm_target m = 2" "pm_variants m = v # vs" "v \<noteq> hl_url st"
      "ht_variant t = Answer r ok" "master_chain uo gunzip v (r, ok) ts"
    using Cons.prems(1) by (auto split: sum.splits list.splits hls_answer.splits)
  obtain q where q: "next_poll (pm_target m) (ht_jitter t) (hl_poll st) = Some q"
    using next_poll_default [of "ht_jitter t" "hl_poll st"] Cons.prems(1) m(3) by auto
  let ?st = "st\<lparr>hl_answer := Some (r, ok), hl_poll := q, hl_url := v, hl_seq := -1,
      hl_changed := ht_changed t, hl_empty := 0\<rparr>"
  have "hls_step cfg uo gunzip t st = Some (Continue, ?st)"
    using m q Cons.prems(2)
    by (cases a) (simp add: hls_step_def hls_next_def hls_playlist_def hls_master_def)
  moreover have "st\<lparr>hl_coord := ht_other t (hl_coord st)\<rparr> = st" using Cons.prems(1) by simp
  moreover have "\<exists>st'. hls_loop cfg uo gunzip ts ?st = Some (Continue, st') \<and> co_state (hl_coord st') = Active"
    by (rule Cons.IH [of _ "(r, ok)"]) (use m(7) Cons.prems(3) in simp_all)
  ultimately show ?case using Cons.prems(3) by simp
qed

section \<open>A segment that fails\<close>

text \<open>The sequence number stays behind, so the next playlist brings the whole batch again.\<close>

lemma failed_batch_is_repeated:
  assumes m: "live_metadata seg w n m" "int n > hl_seq st"
    and fail: "process_segments cfg (ht_segments t) 0
        (get_new_segments (pm_segments m) (hl_seq st) (pm_sequence m)) (st\<lparr>hl_empty := 0, hl_changed := ht_changed t\<rparr>) =
        Some (Some e, st1)"
    and alive: "e \<noteq> CtxError" "\<not> ht_ctx_after t"
  shows "hls_media cfg t m st = Some (Continue, st1\<lparr>hl_last_err := Some e\<rparr>) \<and> hl_seq st1 = hl_seq st"
proof -
  have "hl_seq st1 = hl_seq st" using process_segments_frame [OF fail] by (simp add: loop_fields_def)
  then show ?thesis
    using m fail alive by (simp add: hls_media_def live_metadata_def Let_def)
qed

section \<open>A silent end\<close>

text \<open>When the context ends after a failed request, the writer leaves without a word: the
  coordinator stays active and its readers are not told.\<close>

lemma silent_end:
  "hl_answer st = None \<Longrightarrow> ht_ctx_done t \<Longrightarrow> hl_last_err st \<noteq> None \<Longrightarrow> hls_step cfg uo gunzip t st = Some (Return, st)"
  by (auto simp: hls_step_def hls_next_def)

section \<open>The slot\<close>

lemma hls_writer_slot:
  assumes "cm_ok us cm" and "get_count cm (lr_index r) < cm_limit us cm (lr_index r)"
    and "cm_ok us (cm_end (snd (update_concurrency us (lr_index r) True cm)))"
    and "start_hls_writer us cfg uo gunzip cm_end r url readable now ts (c, cm) = Some (c', cm')"
  shows "get_count cm' =
    (let n = get_count (cm_end (snd (update_concurrency us (lr_index r) True cm)))
     in n(lr_index r := max 0 (n (lr_index r) - 1)))"
proof -
  have "fst (update_concurrency us (lr_index r) True cm)"
    using cm.acquire_granted [OF assms(1)] assms(2) by blast
  with assms(4) have "cm' = snd (update_concurrency us (lr_index r) False (cm_end (snd (update_concurrency us (lr_index r) True cm))))"
    by (auto simp: start_hls_writer_def Let_def split: prod.splits option.splits if_splits)
  then show ?thesis
    using cm.release_used [OF assms(3), of "lr_index r"] cm.ok_bounds [OF assms(3), of "lr_index r"]
    by (auto simp: Let_def)
qed

section \<open>Playlists as servers print them\<close>

definition render_segment :: "string \<Rightarrow> string list" where
  "render_segment u = [''#EXTINF:4.0,'', u]"

definition render_variant :: "string \<Rightarrow> string list" where
  "render_variant u = [''#EXT-X-STREAM-INF:BANDWIDTH=1'', u]"

definition render_media :: "nat \<Rightarrow> nat \<Rightarrow> nat \<Rightarrow> string list \<Rightarrow> bool \<Rightarrow> string" where
  "render_media version target n segs endlist =
     unlines ([''#EXTM3U'', ''#EXT-X-VERSION:'' @ nat_str version, ''#EXT-X-TARGETDURATION:'' @ nat_str target,
         ''#EXT-X-MEDIA-SEQUENCE:'' @ nat_str n] @ concat (map render_segment segs) @
       (if endlist then [''#EXT-X-ENDLIST''] else []))"

definition render_master :: "string list \<Rightarrow> string" where
  "render_master us = unlines (''#EXTM3U'' # concat (map render_variant us))"

text \<open>An absolute URL that stands on a line of its own.\<close>

definition plain_uri :: "'u url_ops \<Rightarrow> string \<Rightarrow> bool" where
  "plain_uri uo u =
     (plain_line u \<and> trim_space u = u \<and> u \<noteq> [] \<and> \<not> has_prefix u ''#'' \<and>
      (case uo_parse uo u of None \<Rightarrow> False | Some p \<Rightarrow> uo_is_abs uo p \<and> uo_string uo p = u))"

lemma plain_uri_url: "plain_uri uo u \<Longrightarrow> line_url uo base u = Some u"
  by (auto simp: plain_uri_def line_url_def split: option.splits)

lemma playlist_line_uri:
  "plain_uri uo u \<Longrightarrow> playlist_line uo base u m =
     (if pm_master m then m\<lparr>pm_variants := pm_variants m @ [u]\<rparr> else m\<lparr>pm_segments := pm_segments m @ [u]\<rparr>)"
  using plain_uri_url [of uo u base]
  by (cases u) (auto simp: plain_uri_def playlist_line_def Let_def)

lemma nat_str_plain: "c \<in> set (nat_str n) \<Longrightarrow> \<not> is_space c \<and> c \<noteq> CHR 0x0A \<and> c \<noteq> CHR 0x0D"
  by (auto dest!: nat_str_digits simp: is_digit_def is_space_def Let_def)

lemma length_nat_str: "0 < k \<Longrightarrow> n < 10 ^ k \<Longrightarrow> length (nat_str n) \<le> k"
proof (induction n arbitrary: k rule: nat_str.induct)
  case (1 n)
  show ?case
  proof (cases "n < 10")
    case True
    then show ?thesis using 1 by (simp add: nat_str.simps [of n])
  next
    case False
    then obtain j where k: "k = Suc j" "0 < j" using 1 by (cases k; cases "k - 1") auto
    then have "n div 10 < 10 ^ j" using 1 by (simp add: less_mult_imp_div_less mult.commute)
    then show ?thesis using 1(1) [OF False k(2)] False k(1) by (simp add: nat_str.simps [of n])
  qed
qed

lemma tag_line:
  assumes "list_all (\<lambda>c. \<not> is_space c) tag" and "length tag < 100" and "int n < 2 ^ 63"
  shows "plain_line (tag @ nat_str n) \<and> trim_space (tag @ nat_str n) = tag @ nat_str n"
proof -
  have nl: "\<not> is_space c \<Longrightarrow> c \<noteq> CHR 0x0A \<and> c \<noteq> CHR 0x0D" for c by (auto simp: is_space_def)
  have sp: "\<not> is_space c" if "c \<in> set (tag @ nat_str n)" for c
    using that assms(1) nat_str_plain by (auto simp: list_all_iff)
  have "length (nat_str n) \<le> 19" by (rule length_nat_str) (use assms(3) in simp_all)
  then have "length (tag @ nat_str n) < max_token" using assms(2) by (simp add: max_token_def)
  moreover have "last (tag @ nat_str n) \<noteq> CHR 0x0D"
    using nat_str_plain [of "last (nat_str n)" n] by simp
  ultimately show ?thesis
    using trim_space_no_space [of "tag @ nat_str n"] sp nl by (auto simp: plain_line_def drop_cr_def)
qed

lemma scan_f_nat_str: "scan_f (nat_str n) = Some (of_nat n)"
proof -
  obtain c r where cr: "nat_str n = c # r" using nat_str_nonempty by (meson neq_Nil_conv)
  have "is_digit c" using nat_str_digits [of c n] cr by simp
  then have sign: "take_sign (dropWhile is_space (nat_str n)) = (False, nat_str n)"
    by (auto simp: cr take_sign_def is_digit_def is_space_def Let_def)
  have rest: "dropWhile is_digit (nat_str n) = []" using nat_str_digits by (auto simp: dropWhile_eq_Nil_conv)
  show ?thesis
    unfolding scan_f_def sign Let_def
    by (simp add: rest scan_exponent_def digits_nat_def digits_val_nat_str of_nat_rat)
qed

lemma version_line:
  "int n < 2 ^ 63 \<Longrightarrow> playlist_line uo base (''#EXT-X-VERSION:'' @ nat_str n) m = m\<lparr>pm_version := int n\<rparr>"
  using tag_line [of "''#EXT-X-VERSION:''" n]
  by (simp add: playlist_line_def scanned_def trim_prefix_def is_space_def scan_d_nat_str int64_range_def
      int64_min_def int64_max_def)

lemma target_line:
  "int n < 2 ^ 63 \<Longrightarrow> playlist_line uo base (''#EXT-X-TARGETDURATION:'' @ nat_str n) m = m\<lparr>pm_target := of_nat n\<rparr>"
  using tag_line [of "''#EXT-X-TARGETDURATION:''" n]
  by (simp add: playlist_line_def scanned_def trim_prefix_def is_space_def scan_f_nat_str)

lemma sequence_line:
  "int n < 2 ^ 63 \<Longrightarrow> playlist_line uo base (''#EXT-X-MEDIA-SEQUENCE:'' @ nat_str n) m = m\<lparr>pm_sequence := int n\<rparr>"
  using tag_line [of "''#EXT-X-MEDIA-SEQUENCE:''" n]
  by (simp add: playlist_line_def scanned_def trim_prefix_def is_space_def scan_d_nat_str int64_range_def
      int64_min_def int64_max_def)

lemma fixed_lines:
  "playlist_line uo base ''#EXTM3U'' m = m"
  "playlist_line uo base ''#EXTINF:4.0,'' m = m"
  "playlist_line uo base ''#EXT-X-ENDLIST'' m = m\<lparr>pm_endlist := True\<rparr>"
  "playlist_line uo base ''#EXT-X-STREAM-INF:BANDWIDTH=1'' m = m\<lparr>pm_master := True\<rparr>"
  by (simp_all add: playlist_line_def trim_space_no_space is_space_def)

lemma fixed_lines_plain:
  "list_all plain_line [''#EXTM3U'', ''#EXTINF:4.0,'', ''#EXT-X-ENDLIST'', ''#EXT-X-STREAM-INF:BANDWIDTH=1'']"
  by (simp add: plain_line_def drop_cr_def max_token_def)

lemma fold_segments:
  "list_all (plain_uri uo) us \<Longrightarrow> \<not> pm_master m \<Longrightarrow>
     fold (playlist_line uo base) (concat (map render_segment us)) m = m\<lparr>pm_segments := pm_segments m @ us\<rparr>"
  by (induction us arbitrary: m) (simp_all add: render_segment_def fixed_lines playlist_line_uri)

lemma fold_variants:
  "list_all (plain_uri uo) us \<Longrightarrow>
     fold (playlist_line uo base) (concat (map render_variant us)) m =
       (if us = [] then m else m\<lparr>pm_master := True, pm_variants := pm_variants m @ us\<rparr>)"
  by (induction us arbitrary: m) (simp_all add: render_variant_def fixed_lines playlist_line_uri)

lemma plain_uris: "list_all (plain_uri uo) us \<Longrightarrow> list_all plain_line us"
  by (simp add: list_all_iff plain_uri_def)

lemma parse_render_media:
  assumes "uo_parse uo url \<noteq> None" and "list_all (plain_uri uo) segs"
    and "int version < 2 ^ 63" and "int target < 2 ^ 63" and "int n < 2 ^ 63"
  shows "parse_playlist uo url (render_media version target n segs endlist) =
    Some \<lparr>pm_target = of_nat target, pm_sequence = int n, pm_version = int version, pm_endlist = endlist,
          pm_segments = segs, pm_variants = [], pm_master = False\<rparr>"
proof -
  obtain base where base: "uo_parse uo url = Some base" using assms(1) by blast
  have tags: "plain_line (''#EXT-X-VERSION:'' @ nat_str version)"
      "plain_line (''#EXT-X-TARGETDURATION:'' @ nat_str target)"
      "plain_line (''#EXT-X-MEDIA-SEQUENCE:'' @ nat_str n)"
    by (insert assms(3-5), (rule tag_line [THEN conjunct1]; simp add: is_space_def)+)
  have "list_all plain_line (concat (map render_segment segs))"
    using plain_uris [OF assms(2)] fixed_lines_plain by (induction segs) (auto simp: render_segment_def)
  then show ?thesis
    unfolding parse_playlist_def base render_media_def
    using tags fixed_lines_plain assms
    by (subst scan_unlines)
       (simp_all add: fixed_lines version_line target_line sequence_line fold_segments new_metadata_def
          del: append_Cons)
qed

lemma parse_render_master:
  assumes "uo_parse uo url \<noteq> None" and "list_all (plain_uri uo) us" and "us \<noteq> []"
  shows "parse_playlist uo url (render_master us) =
    Some (new_metadata\<lparr>pm_variants := us, pm_master := True\<rparr>)"
proof -
  obtain base where base: "uo_parse uo url = Some base" using assms(1) by blast
  have "list_all plain_line (concat (map render_variant us))"
    using plain_uris [OF assms(2)] fixed_lines_plain by (induction us) (auto simp: render_variant_def)
  then show ?thesis
    unfolding parse_playlist_def base render_master_def
    using fixed_lines_plain assms by (subst scan_unlines) (simp_all add: fixed_lines fold_variants new_metadata_def)
qed

text \<open>A server that prints its window, without compression.\<close>

lemma live_response_rendered:
  assumes "uo_parse uo url \<noteq> None" and "list_all (plain_uri uo) (window seg w n)" and "int n < 2 ^ 63"
    and "is_acceptable_stream_status (hr_status r)"
    and "maybe_decompress_response_body gunzip r = Some r" and "hr_body r = render_media 3 4 n (window seg w n) False"
  shows "live_response uo gunzip url seg w n rest (r, True)"
  using parse_render_media [OF assms(1,2), of 3 4 n False] assms(3-6)
  by (simp add: live_response_def read_playlist_def live_metadata_def)

text \<open>A segment that arrives in one read.\<close>

lemma segment_fine_one_read:
  assumes "\<not> se_ctx_done ev" and "se_answer ev = Answer r ok" and "is_acceptable_stream_status (hr_status r)"
    and "se_reads ev = [(se_start ev, now, ReadResult data (Some EOF))]" and "cfg_timeout_seconds cfg = 3"
  shows "segment_fine cfg ev"
  using assms
  by (auto simp: segment_fine_def Let_def media_process_def should_timeout_def get_timeout_duration_def wrap64_def
      split: if_splits)

text \<open>Where the reads of every segment come to an end, so do the given iterations of the loop.\<close>

definition segment_ends :: "stream_config \<Rightarrow> segment_event \<Rightarrow> bool" where
  "segment_ends cfg ev =
     (\<forall>c. read_and_write_stream cfg (\<lambda>c. co_state c = Active) (se_between ev) media_process (se_reads ev) 0
        (se_start ev) c \<noteq> None)"

lemma process_segments_ends:
  "(\<And>i. segment_ends cfg (evs i)) \<Longrightarrow> process_segments cfg evs i ss st \<noteq> None"
proof (induction ss arbitrary: i st)
  case (Cons s ss)
  have "stream_segment cfg (evs i) s st \<noteq> None"
    using Cons.prems [of i] by (auto simp: stream_segment_def segment_ends_def Let_def split: hls_answer.splits)
  then show ?case using Cons.IH [OF Cons.prems] by (auto split: option.splits)
qed simp

lemma hls_step_ends:
  assumes "\<And>i. segment_ends cfg (ht_segments t i)"
  shows "hls_step cfg uo gunzip t st \<noteq> None"
proof -
  have "hls_media cfg t m s \<noteq> None" for m s
    using process_segments_ends [of cfg "ht_segments t", OF assms] by (simp add: hls_media_def Let_def del: not_None_eq)
  then have "hls_playlist cfg t m s \<noteq> None" for m s
    by (simp add: hls_playlist_def Let_def del: not_None_eq split: option.split)
  then show ?thesis
    unfolding hls_step_def
    by (simp del: not_None_eq split: sum.split prod.split hls_answer.split)
qed

lemma hls_loop_ends:
  "(\<And>t i. t \<in> set ts \<Longrightarrow> segment_ends cfg (ht_segments t i)) \<Longrightarrow> hls_loop cfg uo gunzip ts st \<noteq> None"
proof (induction ts arbitrary: st)
  case (Cons t ts)
  let ?st = "st\<lparr>hl_coord := ht_other t (hl_coord st)\<rparr>"
  obtain out st1 where step: "hls_step cfg uo gunzip t ?st = Some (out, st1)"
    using hls_step_ends [of cfg t uo gunzip ?st] Cons.prems by auto
  have "hls_loop cfg uo gunzip ts st1 \<noteq> None" using Cons.IH Cons.prems by simp
  then show ?case using step by (cases out) (simp_all add: Let_def)
qed simp

lemma segment_ends_one_read:
  assumes "se_reads ev = [(start, now, ReadResult data (Some EOF))]"
  shows "segment_ends cfg ev"
  using assms by (auto simp: segment_ends_def Let_def media_process_def split: if_splits)

end
