(* ===== verification/Failovers.thy ===== *)
theory Failovers
  imports Scanner StreamClient Base64 LoadBalancer
begin

text \<open>
  The playlist proxy without shared buffer, proxy/stream/failovers: a playlist is copied to the
  client with every URL replaced by one of this server, which carries the URL and its source in
  a slug. A master playlist is followed to its first variant. JSON and zstd are parameters.
\<close>

section \<open>Slugs of segments\<close>

record m3u8_segment =
  sg_url :: string
  sg_source :: string

text \<open>\<open>json.Marshal\<close> and \<open>Unmarshal\<close> of a segment, the zstd encoder and decoder.\<close>

record segment_codec =
  sx_marshal :: "m3u8_segment \<Rightarrow> string"
  sx_unmarshal :: "string \<Rightarrow> m3u8_segment option"
  sx_compress :: "string \<Rightarrow> string"
  sx_decompress :: "string \<Rightarrow> string option"

definition encode_segment_slug :: "segment_codec \<Rightarrow> m3u8_segment \<Rightarrow> string" where
  "encode_segment_slug sx s = b64_encode UrlAlphabet False (sx_compress sx (sx_marshal sx s))"

datatype segment_error = BadBase64 | BadZstd | BadJson

definition decode_segment_slug :: "segment_codec \<Rightarrow> string \<Rightarrow> segment_error + m3u8_segment" where
  "decode_segment_slug sx slug =
     (case b64_decode UrlAlphabet False slug of
        None \<Rightarrow> Inl BadBase64
      | Some data \<Rightarrow>
          (case sx_decompress sx data of
             None \<Rightarrow> Inl BadZstd
           | Some json \<Rightarrow> (case sx_unmarshal sx json of None \<Rightarrow> Inl BadJson | Some s \<Rightarrow> Inr s)))"

definition generate_segment_url :: "segment_codec \<Rightarrow> url_parser \<Rightarrow> environ \<Rightarrow> m3u8_segment \<Rightarrow> string" where
  "generate_segment_url sx parse env s =
     (let ext = (case get_file_extension_from_url parse (sg_url s) of None \<Rightarrow> [] | Some e \<Rightarrow> e)
      in determine_base_url env None @ ''/segment/'' @ encode_segment_slug sx s @ ext)"

definition parse_segment_id :: "segment_codec \<Rightarrow> string \<Rightarrow> segment_error + m3u8_segment" where
  "parse_segment_id sx i = decode_segment_slug sx i"

section \<open>The playlist\<close>

datatype m3u8_error = TooDeep | BadUrl | ScanFailed | EmptyPlaylist | BadVariant | OwnVariant | NoVariant
  | VariantFetch string | VariantStatus int | WriteFailed

text \<open>\<open>firstMasterVariant\<close>: None for a playlist that is no master. The two flags of the code are
  set together and never reset, so one is enough.\<close>

fun first_variant ::
  "'u url_ops \<Rightarrow> 'u \<Rightarrow> bool \<Rightarrow> string list \<Rightarrow> m3u8_error + string option" where
  "first_variant uo base master [] = (if master then Inl NoVariant else Inr None)"
| "first_variant uo base master (raw # ls) =
     (let line = trim_space raw in
      if line = [] then first_variant uo base master ls
      else if has_prefix line ''#EXT-X-STREAM-INF'' then first_variant uo base True ls
      else if \<not> master \<or> has_prefix line ''#'' then first_variant uo base master ls
      else
        (case line_url uo base line of
           None \<Rightarrow> Inl BadVariant
         | Some v \<Rightarrow> if v = uo_string uo base then Inl OwnVariant else Inr (Some v)))"

definition first_master_variant :: "'u url_ops \<Rightarrow> 'u \<Rightarrow> string list \<Rightarrow> m3u8_error + string option" where
  "first_master_variant uo base ls = first_variant uo base False ls"

record failover_ctx =
  fo_codec :: segment_codec
  fo_parse :: url_parser
  fo_env :: environ
  fo_source :: string

text \<open>The line written for a line of the playlist (None for an empty one).\<close>

definition process_url :: "'u url_ops \<Rightarrow> failover_ctx \<Rightarrow> 'u \<Rightarrow> string \<Rightarrow> string" where
  "process_url uo ctx base line =
     (case line_url uo base line of
        None \<Rightarrow> line
      | Some u \<Rightarrow>
          generate_segment_url (fo_codec ctx) (fo_parse ctx) (fo_env ctx) \<lparr>sg_url = u, sg_source = fo_source ctx\<rparr>)"

definition process_line :: "'u url_ops \<Rightarrow> failover_ctx \<Rightarrow> 'u \<Rightarrow> string \<Rightarrow> string option" where
  "process_line uo ctx base line =
     (case line of
        [] \<Rightarrow> None
      | c # _ \<Rightarrow> Some (if c = CHR ''#'' then line else process_url uo ctx base line))"

definition write_line :: "string \<Rightarrow> stream_client \<Rightarrow> bool \<times> stream_client" where
  "write_line line c = client_write (line @ [CHR 0x0A]) c"

fun write_lines ::
  "'u url_ops \<Rightarrow> failover_ctx \<Rightarrow> 'u \<Rightarrow> string list \<Rightarrow> stream_client \<Rightarrow> m3u8_error option \<times> stream_client" where
  "write_lines uo ctx base [] c = (None, c)"
| "write_lines uo ctx base (l # ls) c =
     (case process_line uo ctx base l of
        None \<Rightarrow> write_lines uo ctx base ls c
      | Some t \<Rightarrow>
          (case write_line t c of
             (True, c1) \<Rightarrow> write_lines uo ctx base ls c1
           | (False, c1) \<Rightarrow> (Some WriteFailed, c1)))"

section \<open>Following master playlists\<close>

text \<open>A response with the URL of its request; \<open>pr_readable\<close> tells whether the body can be read to
  its end, \<open>pr_rest\<close> is what a failed decompression leaves of it.\<close>

record playlist_response =
  pr_url :: string
  pr_response :: http_response
  pr_readable :: bool
  pr_rest :: string

definition max_master_follow_depth :: nat where "max_master_follow_depth = 4"

text \<open>The lines of a response with the base URL, or the error that ends the processing; the
  header is the one left by the decompression.\<close>

definition playlist_lines ::
  "'u url_ops \<Rightarrow> (string \<Rightarrow> string option) \<Rightarrow> playlist_response \<Rightarrow>
     m3u8_error + ('u \<times> (string \<times> string) list \<times> string list)" where
  "playlist_lines uo gunzip p =
     (let (h, body) = (case maybe_decompress_response_body gunzip (pr_response p) of
                         None \<Rightarrow> (hr_header (pr_response p), pr_rest p)
                       | Some r \<Rightarrow> (hr_header r, hr_body r))
      in case uo_parse uo (pr_url p) of
           None \<Rightarrow> Inl BadUrl
         | Some base \<Rightarrow>
             (let (ls, ok) = scan_lines body in
              if \<not> ok \<or> \<not> pr_readable p then Inl ScanFailed
              else if ls = [] then Inl EmptyPlaylist
              else Inr (base, h, ls)))"

text \<open>\<open>fetch\<close> answers the request for the variant found at a depth.\<close>

function process_response ::
  "'u url_ops \<Rightarrow> (string \<Rightarrow> string option) \<Rightarrow> failover_ctx \<Rightarrow>
     (nat \<Rightarrow> string \<Rightarrow> string + playlist_response) \<Rightarrow> playlist_response \<Rightarrow> nat \<Rightarrow> stream_client \<Rightarrow>
     m3u8_error option \<times> stream_client" where
  "process_response uo gunzip ctx fetch p depth c =
     (if depth > max_master_follow_depth then (Some TooDeep, c)
      else
        (case playlist_lines uo gunzip p of
           Inl e \<Rightarrow> (Some e, c)
         | Inr (base, h, ls) \<Rightarrow>
             (case first_master_variant uo base ls of
                Inl e \<Rightarrow> (Some e, c)
              | Inr (Some v) \<Rightarrow>
                  (case fetch depth v of
                     Inl e \<Rightarrow> (Some (VariantFetch e), c)
                   | Inr q \<Rightarrow>
                       if \<not> is_acceptable_stream_status (hr_status (pr_response q))
                       then (Some (VariantStatus (hr_status (pr_response q))), c)
                       else process_response uo gunzip ctx fetch q (Suc depth) c)
              | Inr None \<Rightarrow>
                  (let ct = header_get h ''Content-Type'' in
                   write_lines uo ctx base ls
                     (client_set_header ''Content-Type''
                        (if ct = [] then ''application/vnd.apple.mpegurl'' else ct) c)))))"
  by pat_completeness auto
termination
  by (relation "measure (\<lambda>(_, _, _, _, _, depth, _). Suc max_master_follow_depth - depth)")
     (auto simp: max_master_follow_depth_def)

declare process_response.simps [simp del]

definition process_m3u8_stream ::
  "'u url_ops \<Rightarrow> (string \<Rightarrow> string option) \<Rightarrow> failover_ctx \<Rightarrow>
     (nat \<Rightarrow> string \<Rightarrow> string + playlist_response) \<Rightarrow> playlist_response \<Rightarrow> stream_client \<Rightarrow>
     m3u8_error option \<times> stream_client" where
  "process_m3u8_stream uo gunzip ctx fetch p c = process_response uo gunzip ctx fetch p 0 c"

section \<open>Facts\<close>

text \<open>What is written for a list of lines when no write fails.\<close>

definition rewritten :: "'u url_ops \<Rightarrow> failover_ctx \<Rightarrow> 'u \<Rightarrow> string list \<Rightarrow> string" where
  "rewritten uo ctx base ls = unlines (List.map_filter (process_line uo ctx base) ls)"

lemma write_lines_ok:
  "(\<And>n. \<not> cl_fails c n) \<Longrightarrow>
     fst (write_lines uo ctx base ls c) = None \<and>
     cl_body (snd (write_lines uo ctx base ls c)) = cl_body c @ rewritten uo ctx base ls"
proof (induction ls arbitrary: c)
  case Nil
  then show ?case by (simp add: rewritten_def unlines_def)
next
  case (Cons l ls)
  show ?case
  proof (cases "process_line uo ctx base l")
    case None
    then show ?thesis using Cons by (simp add: rewritten_def map_filter_simps)
  next
    case (Some t)
    obtain ok c1 where w: "write_line t c = (ok, c1)" by fastforce
    have c1: "ok" "cl_fails c1 = cl_fails c" "cl_body c1 = cl_body c @ t @ [CHR 0x0A]"
      using w Cons.prems by (auto simp: write_line_def client_write_def client_write_header_def Let_def split: if_splits)
    then have "fst (write_lines uo ctx base ls c1) = None \<and>
        cl_body (snd (write_lines uo ctx base ls c1)) = cl_body c1 @ rewritten uo ctx base ls"
      using Cons.prems by (intro Cons.IH) simp
    then show ?thesis using Some w c1 by (simp add: rewritten_def map_filter_simps unlines_def)
  qed
qed

text \<open>No more than five responses are asked for: the answers beyond that do not matter.\<close>

lemma process_response_depth:
  "(\<And>d v. d \<le> max_master_follow_depth \<Longrightarrow> fetch d v = fetch' d v) \<Longrightarrow>
     process_response uo gunzip ctx fetch p depth c = process_response uo gunzip ctx fetch' p depth c"
proof (induction uo gunzip ctx fetch p depth c rule: process_response.induct)
  case (1 uo gunzip ctx fetch p depth c)
  show ?case
  proof (cases "depth > max_master_follow_depth")
    case True
    then show ?thesis by (simp add: process_response.simps)
  next
    case False
    then have "fetch depth v = fetch' depth v" for v using "1.prems" by simp
    moreover have "process_response uo gunzip ctx fetch q (Suc depth) c = process_response uo gunzip ctx fetch' q (Suc depth) c"
      if "playlist_lines uo gunzip p = Inr (base, h, ls)" "first_master_variant uo base ls = Inr (Some v)"
        "fetch depth v = Inr q" "is_acceptable_stream_status (hr_status (pr_response q))" for base h ls v q
      using "1.IH" [OF False that(1) _ _ that(2) _ that(3)] that(4) "1.prems" by simp
    ultimately show ?thesis
      by (subst (1 2) process_response.simps) (auto split: sum.splits option.splits prod.splits)
  qed
qed

end
