(* ===== verification/StreamHandlers.thy ===== *)
theory StreamHandlers
  imports HlsFacts Failovers
begin

text \<open>
  What serves one client of a stream: proxy/stream/media_stream.go (the copy of a response, the
  reader of the shared buffer) and proxy/stream/stream_instance.go (which of the three ways a
  response is served). The writer runs in a goroutine of its own: its effect on the
  coordinator reaches the reader through the ticks of \<open>reader_tick\<close>. The contexts are events.
  The coordinator's ring has slots.
\<close>

record stream_result =
  sr_bytes :: nat
  sr_error :: "stream_error option"
  sr_status :: int

definition mk_result :: "nat \<Rightarrow> stream_error option \<Rightarrow> int \<Rightarrow> stream_result" where
  "mk_result n err status = \<lparr>sr_bytes = n, sr_error = err, sr_status = status\<rparr>"

section \<open>A direct stream\<close>

text \<open>The end of the context, or the result of a read: data and error.\<close>

datatype direct_event = DirectDone | DirectRead string "stream_error option"

text \<open>The copy loop; None while the events last no longer than the stream.\<close>

fun direct_loop ::
  "direct_event list \<Rightarrow> nat \<Rightarrow> stream_client \<Rightarrow> (stream_result \<times> stream_client) option" where
  "direct_loop [] n c = None"
| "direct_loop (DirectDone # evs) n c =
     Some (mk_result n (Some (ErrorText ''Context canceled for stream'')) status_client_closed, c)"
| "direct_loop (DirectRead data err # evs) n c =
     (let (ok, c1) = (if data = [] then (True, c) else client_write data c);
          n1 = n + length data
      in if \<not> ok then Some (mk_result n1 (Some (ErrorText ''Server error for stream'')) status_client_closed, c1)
         else
           (case err of
              None \<Rightarrow> direct_loop evs n1 c1
            | Some e \<Rightarrow>
                if e = EOF then
                  (if n1 = 0 then Some (mk_result 0 (Some (ErrorText ''EOF reached for stream'')) status_eof, c1)
                   else Some (mk_result n1 None status_completed, c1))
                else Some (mk_result n1 (Some (ErrorText ''Server error for stream'')) status_server_error, c1)))"

definition handle_direct_stream ::
  "lb_result \<Rightarrow> direct_event list \<Rightarrow> stream_client \<Rightarrow> (stream_result \<times> stream_client) option" where
  "handle_direct_stream r evs c =
     direct_loop evs 0
       (client_write_header (hr_status (lr_response r)) (c\<lparr>cl_headers := hr_header (lr_response r)\<rparr>))"

section \<open>A reader of the shared buffer\<close>

text \<open>The start: the first client claims the writer. The boolean tells whether it starts one.\<close>

definition claim_writer :: "coordinator \<Rightarrow> bool \<times> coordinator" where
  "claim_writer c =
     (if co_writer_active c then (False, c)
      else (True, clear_buffer (c\<lparr>co_writer_active := True, co_last_error := NilStored\<rparr>)))"

definition writer_stopped :: "coordinator \<Rightarrow> coordinator" where
  "writer_stopped c = finish_writer_setup (c\<lparr>co_writer_active := False\<rparr>)"

definition join_stream :: "coordinator \<Rightarrow> bool \<times> coordinator" where
  "join_stream c = (let (started, c1) = claim_writer c in (started, register_client c1))"

text \<open>The end: the last client stops the writer.\<close>

definition leave_stream :: "coordinator \<Rightarrow> coordinator" where
  "leave_stream c =
     (let c1 = unregister_client c in
      if co_clients c1 = 0
      then (clear_buffer (c1\<lparr>co_last_error := NilStored\<rparr>))\<lparr>co_writer_signal := False\<rparr> else c1)"

definition ring_prev :: "coordinator \<Rightarrow> nat \<Rightarrow> nat" where
  "ring_prev c p = (if p = 0 then ring_size c - 1 else p - 1)"

text \<open>What a reader meets in one iteration: what others did to the coordinator, whether its
  context has ended, whether it has ended before the chunk with a number, and the header that
  is there (or not) when the chunk is sent.\<close>

record reader_tick =
  rt_other :: "coordinator \<Rightarrow> coordinator"
  rt_done :: bool
  rt_gone :: "nat \<Rightarrow> bool"
  rt_header :: "nat \<Rightarrow> (string \<times> string) list option"

definition safe_concat_types :: "string list" where
  "safe_concat_types = [''video/mp2t'', ''video/mpeg'', ''audio/aac'', ''audio/mpeg'']"

text \<open>The chunks of one look at the buffer: the bytes sent so far, or the result that ends the
  stream. The panics that \<open>safeWrite\<close> and \<open>safeFlush\<close> recover from do not occur.\<close>

fun send_chunks ::
  "lb_result \<Rightarrow> reader_tick \<Rightarrow> nat \<Rightarrow> chunk list \<Rightarrow> nat \<Rightarrow> stream_client \<Rightarrow>
     (stream_result + nat) \<times> stream_client" where
  "send_chunks r t k [] n c = (Inr n, c)"
| "send_chunks r t k (ch # chs) n c =
     (if rt_gone t k then (Inl (mk_result n (Some CtxError) status_client_closed), c)
      else if ck_data ch = [] then send_chunks r t (Suc k) chs n c
      else if \<not> cl_writable c then (Inl (mk_result n (Some (ErrorText ''writer is nil'')) status_server_error), c)
      else
        let h = (case rt_header t k of None \<Rightarrow> [] | Some h \<Rightarrow> h); ct = header_get h ''Content-Type'' in
        if to_lower ct \<notin> set safe_concat_types \<and> is_an_m3u8_media (lr_response r)
        then (Inl (mk_result n (Some (ErrorText (ct @ '' cannot be safely concatenated and is not supported by this proxy.'')))
                     status_incompatible), c)
        else
          (case client_write (ck_data ch) (c\<lparr>cl_headers := h\<rparr>) of
             (False, c1) \<Rightarrow> (Inl (mk_result n (Some (ErrorText ''write'')) status_client_closed), c1)
           | (True, c1) \<Rightarrow> send_chunks r t (Suc k) chs (n + length (ck_data ch)) c1))"

text \<open>Where a reader stands: at a position, or waiting inside \<open>ReadChunks\<close> with its position fixed.\<close>

datatype reader_pos = At nat | Waiting nat

definition look :: "coordinator \<Rightarrow> reader_pos \<Rightarrow> read_result" where
  "look co p = (case p of At q \<Rightarrow> read_chunks co (Some q) | Waiting q \<Rightarrow> read_poll co q)"

text \<open>The loop: the result with the client and the coordinator as they are then; None while the
  ticks last no longer than the stream.\<close>

fun reader_loop ::
  "lb_result \<Rightarrow> reader_tick list \<Rightarrow> reader_pos \<Rightarrow> nat \<Rightarrow> stream_client \<Rightarrow> coordinator \<Rightarrow>
     (stream_result \<times> stream_client \<times> coordinator) option" where
  "reader_loop r [] p n c co = None"
| "reader_loop r (t # ts) p n c co0 =
     (let co = rt_other t co0 in
      if rt_done t then Some (mk_result n (Some CtxError) status_client_closed, c, co)
      else
        (case look co p of
           ReadPanic \<Rightarrow> None
         | Blocked q \<Rightarrow> reader_loop r ts (Waiting q) n c co
         | Chunks chs err q \<Rightarrow>
             (case send_chunks r t 0 chs n c of
                (Inl res, c1) \<Rightarrow> Some (res, c1, co)
              | (Inr n1, c1) \<Rightarrow>
                  (case err of
                     Some e \<Rightarrow> Some (mk_result n1 (ck_error e) (ck_status e), c1, co)
                   | None \<Rightarrow> reader_loop r ts (At q) n1 c1 co))))"

definition handle_stream ::
  "lb_result \<Rightarrow> reader_tick list \<Rightarrow> stream_client \<Rightarrow> coordinator \<Rightarrow>
     (stream_result \<times> stream_client \<times> coordinator) option" where
  "handle_stream r ts c co0 =
     (let co = snd (join_stream co0) in
      map_option (\<lambda>(res, c1, co1). (res, c1, leave_stream co1))
        (reader_loop r ts (At (ring_prev co (co_pos co))) 0 c co))"

section \<open>The ways a response is served\<close>

datatype stream_route = RoutePassthrough | RouteBuffered | RouteDirect | RouteInvalid

definition shared_buffer_enabled :: "environ \<Rightarrow> bool" where
  "shared_buffer_enabled env =
     (case lookup_env env ''SHARED_BUFFER'' of
        None \<Rightarrow> True
      | Some v \<Rightarrow> (case parse_bool (trim_space v) of None \<Rightarrow> True | Some b \<Rightarrow> b))"

definition is_direct_media :: "lb_result \<Rightarrow> bool" where
  "is_direct_media r =
     (has_suffix (to_lower (lr_url r)) ''.mp4'' \<or> has_suffix (to_lower (lr_url r)) ''.ts'' \<or>
      is_probably_media (lr_response r))"

text \<open>The route, from the result of the sniffing.\<close>

definition allows_vod :: "utils_state \<Rightarrow> string \<Rightarrow> bool" where
  "allows_vod us i = (case get_source_config us i of None \<Rightarrow> False | Some c \<Rightarrow> sc_contains_vod c)"

definition choose_route :: "utils_state \<Rightarrow> cm_state \<Rightarrow> bool \<Rightarrow> lb_result \<Rightarrow> stream_route" where
  "choose_route us cm m3u8 r =
     (let shared = shared_buffer_enabled (us_environ us);
          buffered = (if lr_url r \<in> cm_invalid cm then RouteInvalid else RouteBuffered)
      in if m3u8 \<and> \<not> shared then RoutePassthrough
         else if m3u8 then buffered
         else if is_direct_media r \<and> (\<not> shared \<or> allows_vod us (lr_index r)) then RouteDirect
         else buffered)"

text \<open>The world of one call: the bytes the sniffing sees first, the ticks of the reader, the reads
  of a direct stream, what other streams do to the slots meanwhile, and the result of the
  playlist proxy.\<close>

record proxy_world =
  pw_peek :: nat
  pw_ticks :: "reader_tick list"
  pw_reads :: "direct_event list"
  pw_cm :: "cm_state \<Rightarrow> cm_state"
  pw_passthrough :: "lb_result \<Rightarrow> stream_client \<Rightarrow> m3u8_error option \<times> stream_client"

definition serve_passthrough ::
  "proxy_world \<Rightarrow> lb_result \<Rightarrow> stream_client \<Rightarrow> int \<times> stream_client" where
  "serve_passthrough w r c =
     (case pw_passthrough w r c of
        (Some _, c1) \<Rightarrow> (status_incompatible, c1)
      | (None, c1) \<Rightarrow> (status_m3u8_parsed, c1))"

text \<open>A direct stream takes a slot for its duration.\<close>

definition serve_direct ::
  "utils_state \<Rightarrow> proxy_world \<Rightarrow> lb_result \<Rightarrow> stream_client \<Rightarrow> cm_state \<Rightarrow>
     (stream_result \<times> stream_client \<times> cm_state) option" where
  "serve_direct us w r c cm =
     (case update_concurrency us (lr_index r) True cm of
        (False, cm1) \<Rightarrow>
          Some (mk_result 0 (Some (ErrorText ''concurrency limit reached'')) status_server_error, c, cm1)
      | (True, cm1) \<Rightarrow>
          map_option (\<lambda>(res, c1). (res, c1, snd (update_concurrency us (lr_index r) False (pw_cm w cm1))))
            (handle_direct_stream r (pw_reads w) c))"

text \<open>The end of \<open>ProxyStream\<close>: a playlist whose segments cannot be joined is served by the
  playlist proxy, and its URL is remembered.\<close>

definition after_stream ::
  "proxy_world \<Rightarrow> lb_result \<Rightarrow> stream_result \<Rightarrow> stream_client \<times> coordinator \<times> cm_state \<Rightarrow>
     int \<times> stream_client \<times> coordinator \<times> cm_state" where
  "after_stream w r res = (\<lambda>(c, co, cm).
     if sr_status res = status_incompatible \<and> is_an_m3u8_media (lr_response r) then
       (case serve_passthrough w r c of
          (status, c1) \<Rightarrow>
            (status, c1, finish_writer_setup co, cm\<lparr>cm_invalid := insert (lr_url r) (cm_invalid cm)\<rparr>))
     else (sr_status res, c, co, cm))"

text \<open>\<open>ProxyStream\<close>: the status sent, and the new state.\<close>

definition proxy_stream ::
  "utils_state \<Rightarrow> proxy_world \<Rightarrow> lb_result \<Rightarrow> stream_client \<times> coordinator \<times> cm_state \<Rightarrow>
     (int \<times> stream_client \<times> coordinator \<times> cm_state) option" where
  "proxy_stream us w r0 = (\<lambda>(c, co, cm).
     let (m3u8, resp) = is_probably_m3u8 (pw_peek w) (lr_response r0); r = r0\<lparr>lr_response := resp\<rparr> in
     (case choose_route us cm m3u8 r of
        RoutePassthrough \<Rightarrow>
          (case serve_passthrough w r c of (status, c1) \<Rightarrow> Some (status, c1, finish_writer_setup co, cm))
      | RouteInvalid \<Rightarrow> Some (after_stream w r (mk_result 0 None status_incompatible) (c, co, cm))
      | RouteBuffered \<Rightarrow>
          map_option (\<lambda>(res, c1, co1). after_stream w r res (c1, co1, pw_cm w cm)) (handle_stream r (pw_ticks w) c co)
      | RouteDirect \<Rightarrow>
          map_option (\<lambda>(res, c1, cm1). after_stream w r res (c1, finish_writer_setup co, cm1))
            (serve_direct us w r c cm)))"

end
