(* ===== verification/Delivery.thy ===== *)
theory Delivery
  imports StreamHandlers
begin

text \<open>
  Delivery through the shared buffer: a reader that keeps up sends its client every byte the
  writer has written, in order and once, and ends with the writer's final status; a direct
  stream is copied; the playlist proxy and the routes keep slots and answers in order.
\<close>

section \<open>The last look at a stream\<close>

text \<open>The ring after the writer's last chunk, which carries an error or a status.\<close>

definition end_chunk :: "stream_error option \<Rightarrow> int \<Rightarrow> int \<Rightarrow> chunk" where
  "end_chunk err status now = new_chunk\<lparr>ck_error := err, ck_status := status, ck_time := now\<rparr>"

lemma write_error_simps:
  assumes "ring_log c h" and "err \<noteq> None \<or> status \<noteq> 0"
  shows "write_error err status now c =
    c\<lparr>co_write_seq := co_write_seq c + 1,
      co_slots := (co_slots c)[co_pos c := (end_chunk err status now)\<lparr>ck_seq := co_write_seq c + 1\<rparr>],
      co_pos := ring_next c (co_pos c),
      co_last_error := (if co_last_error c = NothingStored
        then ErrorStored ((end_chunk err status now)\<lparr>ck_seq := co_write_seq c + 1\<rparr>) else co_last_error c),
      co_state := Closed\<rparr>"
  using assms
  by (auto simp: ring_log_def write_error_def write_chunk_def end_chunk_def new_chunk_def ring_size_def Let_def)

lemma walk_end:
  assumes log: "ring_log c h" and err: "err \<noteq> None \<or> status \<noteq> 0"
  shows "d \<le> length h \<Longrightarrow> Suc d < ring_size c \<Longrightarrow> Suc d \<le> fuel \<Longrightarrow>
    walk fuel (write_error err status now c) ((length h - d) mod ring_size c) acc None =
      (acc @ map data_chunk (drop (length h - d) h), Some (end_chunk err status now),
       Suc (length h) mod ring_size c)"
proof (induction d arbitrary: fuel acc)
  case 0
  let ?n = "ring_size c" and ?d = "write_error err status now c"
  have pos: "co_pos c = length h mod ?n" "0 < ?n" "co_pos c < length (co_slots c)"
    using log by (auto simp: ring_log_def ring_size_def)
  have d: "co_pos ?d = Suc (length h) mod ?n" "ring_size ?d = ?n"
      "co_slots ?d ! (length h mod ?n) = (end_chunk err status now)\<lparr>ck_seq := co_write_seq c + 1\<rparr>"
    using pos ring_next_mod [OF pos(2), of "length h"]
    by (simp_all add: write_error_simps [OF log err] ring_size_def)
  obtain f where f: "fuel = Suc f" using 0 by (cases fuel) auto
  have "length h mod ?n \<noteq> Suc (length h) mod ?n" using 0 by (intro mod_window) auto
  moreover have "ring_next ?d (length h mod ?n) = Suc (length h) mod ?n"
    using ring_next_mod [OF pos(2), of "length h"] d(2) by (simp add: ring_next_def)
  moreover have "payload (co_slots ?d ! (length h mod ?n)) = []"
      "error_of (co_slots ?d ! (length h mod ?n)) None = Some (end_chunk err status now)"
    using err by (simp_all add: d(3) payload_def error_of_def end_chunk_def new_chunk_def)
  ultimately show ?case using d(1) by (cases f) (simp_all add: f)
next
  case (Suc d)
  let ?n = "ring_size c" and ?i = "length h - Suc d" and ?d = "write_error err status now c"
  obtain f where f: "fuel = Suc f" using Suc.prems(3) by (cases fuel) auto
  have i: "?i < length h" "Suc ?i = length h - d" using Suc.prems(1) by auto
  have pos: "co_pos c = length h mod ?n" "0 < ?n" using log by (auto simp: ring_log_def)
  have d: "co_pos ?d = Suc (length h) mod ?n" "ring_size ?d = ?n"
    using pos ring_next_mod [OF pos(2), of "length h"]
    by (simp_all add: write_error_simps [OF log err] ring_size_def)
  have ne: "?i mod ?n \<noteq> co_pos ?d" unfolding d(1) using i(1) Suc.prems by (intro mod_window) auto
  have "?i mod ?n \<noteq> co_pos c" unfolding pos(1) using i(1) Suc.prems by (intro mod_window) auto
  then have "co_slots ?d ! (?i mod ?n) = co_slots c ! (?i mod ?n)"
    by (simp add: write_error_simps [OF log err])
  moreover have "length h \<le> ?i + ?n" using Suc.prems(1,2) by simp
  then have "co_slots c ! (?i mod ?n) = (data_chunk (h ! ?i))\<lparr>ck_seq := int ?i + 1\<rparr>"
    using log i(1) unfolding ring_log_def by blast
  moreover have "fst (h ! ?i) \<noteq> []" using log i(1) unfolding ring_log_def by (meson nth_mem)
  moreover have "drop ?i h = h ! ?i # drop (length h - d) h"
    using i by (metis Cons_nth_drop_Suc)
  moreover have "ring_next ?d (?i mod ?n) = (length h - d) mod ?n"
    using ring_next_mod [of ?d ?i] pos(2) i(2) d(2) by metis
  ultimately show ?case
    using Suc.IH [of f "acc @ [data_chunk (h ! ?i)]"] Suc.prems f ne
    by (simp add: payload_data error_of_data)
qed

text \<open>A reader that has seen the first \<open>r\<close> entries, fewer than the ring's size behind the end.\<close>

lemma look_end:
  assumes log: "ring_log c h" and err: "err \<noteq> None \<or> status \<noteq> 0" and r: "r \<le> length h"
    and room: "Suc (length h - r) < ring_size c" and p: "p = At (r mod ring_size c) \<or> p = Waiting (r mod ring_size c)"
  shows "look (write_error err status now c) p =
    Chunks (map data_chunk (drop r h)) (Some (end_chunk err status now)) (Suc (length h) mod ring_size c)"
proof -
  let ?d = "write_error err status now c" and ?n = "ring_size c"
  have pos: "co_pos c = length h mod ?n" "0 < ?n" "co_pos c < length (co_slots c)"
      and seq: "co_write_seq c = int (length h)"
    using log by (auto simp: ring_log_def ring_size_def)
  have size: "ring_size ?d = ?n" by (simp add: write_error_simps [OF log err] ring_size_def)
  have "walk ?n ?d (r mod ?n) [] None =
      (map data_chunk (drop r h), Some (end_chunk err status now), Suc (length h) mod ?n)"
    using walk_end [OF log err, of "length h - r" ?n now "[]"] r room by simp
  moreover have "co_state ?d = Closed" by (rule write_error_closes)
  ultimately have poll: "read_poll ?d (r mod ?n) =
      Chunks (map data_chunk (drop r h)) (Some (end_chunk err status now)) (Suc (length h) mod ?n)"
    by (simp add: read_poll_def size)
  have "\<not> slot_stale ?d (r mod ?n)"
  proof (cases "r = length h")
    case True
    then show ?thesis using pos seq
      by (simp add: slot_stale_def write_error_simps [OF log err] ring_size_def)
  next
    case False
    then have r': "r < length h" "length h \<le> r + ?n" using r room by auto
    then have "r mod ?n \<noteq> length h mod ?n" using room by (intro mod_window) auto
    then have "co_slots ?d ! (r mod ?n) = co_slots c ! (r mod ?n)"
      using pos(1) by (simp add: write_error_simps [OF log err])
    also have "\<dots> = (data_chunk (h ! r))\<lparr>ck_seq := int r + 1\<rparr>"
      using log r' unfolding ring_log_def by blast
    finally show ?thesis using room seq size r'
      by (simp add: slot_stale_def) (simp add: write_error_simps [OF log err])
  qed
  then have "read_start ?d (Some (r mod ?n)) = r mod ?n" by (simp add: read_start_def)
  moreover have "co_slots ?d \<noteq> []" using size pos(2) by (auto simp: ring_size_def)
  ultimately show ?thesis using p poll by (auto simp: look_def read_chunks_def)
qed

text \<open>A look at an active stream: what is new, or nothing.\<close>

lemma look_active:
  assumes log: "ring_log c h" and r: "r \<le> length h" and room: "length h - r < ring_size c"
    and p: "p = At (r mod ring_size c) \<or> p = Waiting (r mod ring_size c)"
  shows "look c p =
    (if r = length h then Blocked (r mod ring_size c)
     else Chunks (map data_chunk (drop r h)) None (length h mod ring_size c))"
proof -
  let ?n = "ring_size c"
  have pos: "co_pos c = length h mod ?n" "0 < ?n" "co_state c = Active"
    and le: "\<And>e. co_last_error c \<noteq> ErrorStored e" using log by (auto simp: ring_log_def)
  have poll: "read_poll c (r mod ?n) = (if r = length h then Blocked (r mod ?n)
      else Chunks (map data_chunk (drop r h)) None (length h mod ?n))"
  proof (cases "r = length h")
    case True
    then show ?thesis using pos by (simp add: read_poll_def)
  next
    case False
    then have "r mod ?n \<noteq> co_pos c" unfolding pos(1) using r room by (intro mod_window) auto
    moreover have "walk ?n c (r mod ?n) [] None = (map data_chunk (drop r h), None, co_pos c)"
      using walk_suffix [OF log, of "length h - r" ?n "[]"] r room by simp
    ultimately show ?thesis using False pos(1) le by (simp add: read_poll_def split: last_error.splits)
  qed
  then show ?thesis
    using p never_stale [OF log, of r] pos(2) by (auto simp: look_def read_chunks_def ring_size_def)
qed

section \<open>Bytes to the client\<close>

text \<open>The bytes of a list of writes.\<close>

definition bytes_of :: "(string \<times> int) list \<Rightarrow> string" where
  "bytes_of es = concat (map fst es)"

lemma bytes_of_simps [simp]:
  "bytes_of [] = []" "bytes_of (e # es) = fst e @ bytes_of es" "bytes_of (es @ fs) = bytes_of es @ bytes_of fs"
  by (simp_all add: bytes_of_def)

text \<open>A client to which every write succeeds, and a header it may be sent.\<close>

definition client_up :: "stream_client \<Rightarrow> bool" where
  "client_up c = (cl_writable c \<and> (\<forall>n. \<not> cl_fails c n))"

definition header_fits :: "lb_result \<Rightarrow> (string \<times> string) list \<Rightarrow> bool" where
  "header_fits r hdr =
     (to_lower (header_get hdr ''Content-Type'') \<in> set safe_concat_types \<or> \<not> is_an_m3u8_media (lr_response r))"

lemma client_write_up:
  "client_up c \<Longrightarrow> fst (client_write d c) \<and> client_up (snd (client_write d c)) \<and>
     cl_body (snd (client_write d c)) = cl_body c @ d"
  by (simp add: client_up_def client_write_def client_write_header_def Let_def)

lemma client_up_headers [simp]: "client_up (c\<lparr>cl_headers := h\<rparr>) = client_up c"
  by (simp add: client_up_def)

definition calm_tick :: "(string \<times> string) list \<Rightarrow> (coordinator \<Rightarrow> coordinator) \<Rightarrow> reader_tick" where
  "calm_tick hdr f = \<lparr>rt_other = f, rt_done = False, rt_gone = (\<lambda>_. False), rt_header = (\<lambda>_. Some hdr)\<rparr>"

lemma calm_tick_simps [simp]:
  "rt_other (calm_tick hdr f) = f" "rt_done (calm_tick hdr f) = False" "rt_gone (calm_tick hdr f) k = False"
  "rt_header (calm_tick hdr f) k = Some hdr"
  by (simp_all add: calm_tick_def)

lemma send_chunks_up:
  assumes "header_fits r hdr" and "client_up c" and "list_all (\<lambda>e. fst e \<noteq> []) es"
  shows "\<exists>c'. send_chunks r (calm_tick hdr f) k (map data_chunk es) n c = (Inr (n + length (bytes_of es)), c') \<and>
    client_up c' \<and> cl_body c' = cl_body c @ bytes_of es"
  using assms
proof (induction es arbitrary: k n c)
  case Nil
  then show ?case by simp
next
  case (Cons e es)
  obtain c1 where w: "client_write (fst e) (c\<lparr>cl_headers := hdr\<rparr>) = (True, c1)" "client_up c1"
      "cl_body c1 = cl_body c @ fst e"
    using client_write_up [of "c\<lparr>cl_headers := hdr\<rparr>" "fst e"] Cons.prems(2)
    by (cases "client_write (fst e) (c\<lparr>cl_headers := hdr\<rparr>)") auto
  obtain c2 where c2: "send_chunks r (calm_tick hdr f) (Suc k) (map data_chunk es) (n + length (fst e)) c1 =
      (Inr (n + length (fst e) + length (bytes_of es)), c2)" "client_up c2" "cl_body c2 = cl_body c1 @ bytes_of es"
    using Cons.IH [OF Cons.prems(1) w(2), of "Suc k" "n + length (fst e)"] Cons.prems(3) by auto
  have "ck_data (data_chunk e) = fst e" by (simp add: data_chunk_def)
  then show ?case
    using w c2 Cons.prems by (auto simp: header_fits_def client_up_def)
qed

section \<open>A reader that keeps up\<close>

text \<open>The writer writes \<open>ess ! i\<close> before the look with the number \<open>i\<close>, and \<open>es\<close> and its end before
  the last one.\<close>

definition delivery_ticks ::
  "(string \<times> string) list \<Rightarrow> (string \<times> int) list list \<Rightarrow> (string \<times> int) list \<Rightarrow> stream_error option \<Rightarrow> int \<Rightarrow>
     int \<Rightarrow> reader_tick list" where
  "delivery_ticks hdr ess es err status now =
     map (\<lambda>xs. calm_tick hdr (write_all xs)) ess @
       [calm_tick hdr (\<lambda>c. write_error err status now (write_all es c))]"

lemma write_all_log: "ring_log c h \<Longrightarrow> list_all (\<lambda>e. fst e \<noteq> []) es \<Longrightarrow> ring_log (write_all es c) (h @ es)"
  unfolding write_all_eq by (rule ring.append_all_ok)

lemma reader_keeps_up:
  assumes err: "err \<noteq> None \<or> status \<noteq> 0" and fits: "header_fits r hdr"
  shows "ring_log co h \<Longrightarrow> client_up c \<Longrightarrow> seen \<le> length h \<Longrightarrow>
    p = At (seen mod ring_size co) \<or> p = Waiting (seen mod ring_size co) \<Longrightarrow>
    list_all (\<lambda>xs. list_all (\<lambda>e. fst e \<noteq> []) xs \<and> length h - seen + length xs + 1 < ring_size co) (ess @ [es]) \<Longrightarrow>
    \<exists>c' co'. reader_loop r (delivery_ticks hdr ess es err status now) p n c co =
      Some (mk_result (n + length (bytes_of (drop seen h @ concat ess @ es))) err status, c', co') \<and>
      cl_body c' = cl_body c @ bytes_of (drop seen h @ concat ess @ es)"
proof (induction ess arbitrary: co h c seen p n)
  case Nil
  let ?co = "write_all es co"
  have log: "ring_log ?co (h @ es)" by (rule write_all_log [OF Nil.prems(1)]) (use Nil.prems(5) in simp)
  have size: "ring_size ?co = ring_size co"
    by (rule write_all_size [OF Nil.prems(1)]) (use Nil.prems(5) in simp)
  have "look (write_error err status now ?co) p =
      Chunks (map data_chunk (drop seen (h @ es))) (Some (end_chunk err status now))
        (Suc (length (h @ es)) mod ring_size ?co)"
    by (rule look_end [OF log err]) (use Nil.prems size in auto)
  moreover have "list_all (\<lambda>e. fst e \<noteq> []) (drop seen (h @ es))"
    using log by (auto simp: ring_log_def list_all_iff dest: in_set_dropD)
  from send_chunks_up [OF fits Nil.prems(2) this, of _ 0 n] obtain c' where
    "send_chunks r (calm_tick hdr (\<lambda>c. write_error err status now (write_all es c))) 0
        (map data_chunk (drop seen (h @ es))) n c = (Inr (n + length (bytes_of (drop seen (h @ es)))), c')"
    "cl_body c' = cl_body c @ bytes_of (drop seen (h @ es))" by blast
  ultimately show ?case
    using Nil.prems(3) by (simp add: delivery_ticks_def end_chunk_def new_chunk_def)
next
  case (Cons xs ess)
  let ?co = "write_all xs co" and ?h = "h @ xs"
  have log: "ring_log ?co ?h" by (rule write_all_log [OF Cons.prems(1)]) (use Cons.prems(5) in simp)
  have size: "ring_size ?co = ring_size co"
    by (rule write_all_size [OF Cons.prems(1)]) (use Cons.prems(5) in simp)
  have rest: "delivery_ticks hdr (xs # ess) es err status now =
      calm_tick hdr (write_all xs) # delivery_ticks hdr ess es err status now"
    by (simp add: delivery_ticks_def)
  have look: "look ?co p = (if seen = length ?h then Blocked (seen mod ring_size ?co)
      else Chunks (map data_chunk (drop seen ?h)) None (length ?h mod ring_size ?co))"
    by (rule look_active [OF log]) (use Cons.prems size in auto)
  show ?case
  proof (cases "seen = length ?h")
    case True
    then have xs: "xs = []" "seen = length h" using Cons.prems(3) by auto
    have "\<exists>c' co'. reader_loop r (delivery_ticks hdr ess es err status now) (Waiting (seen mod ring_size ?co)) n c ?co =
      Some (mk_result (n + length (bytes_of (drop seen h @ concat ess @ es))) err status, c', co') \<and>
      cl_body c' = cl_body c @ bytes_of (drop seen h @ concat ess @ es)"
      by (rule Cons.IH) (use Cons.prems size xs log in \<open>auto simp: list_all_iff\<close>)
    then show ?thesis unfolding rest using look True by (simp add: xs)
  next
    case False
    have "list_all (\<lambda>e. fst e \<noteq> []) (drop seen ?h)"
      using log by (auto simp: ring_log_def list_all_iff dest: in_set_dropD)
    from send_chunks_up [OF fits Cons.prems(2) this, of "write_all xs" 0 n] obtain c1 where
      c1: "send_chunks r (calm_tick hdr (write_all xs)) 0 (map data_chunk (drop seen ?h)) n c =
          (Inr (n + length (bytes_of (drop seen ?h))), c1)" "client_up c1"
        "cl_body c1 = cl_body c @ bytes_of (drop seen ?h)" by blast
    have "\<exists>c' co'. reader_loop r (delivery_ticks hdr ess es err status now) (At (length ?h mod ring_size ?co))
        (n + length (bytes_of (drop seen ?h))) c1 ?co =
      Some (mk_result (n + length (bytes_of (drop seen ?h)) + length (bytes_of (drop (length ?h) ?h @ concat ess @ es))) err status, c', co') \<and>
      cl_body c' = cl_body c1 @ bytes_of (drop (length ?h) ?h @ concat ess @ es)"
      by (rule Cons.IH [OF log c1(2)]) (use Cons.prems size in \<open>auto simp: list_all_iff\<close>)
    then show ?thesis using look False c1 Cons.prems(3) by (simp add: rest add.assoc Let_def)
  qed
qed

lemma ring_log_fields:
  "ring_log (c\<lparr>co_clients := k\<rparr>) h = ring_log c h" "ring_log (c\<lparr>co_writer_active := b\<rparr>) h = ring_log c h"
  by (simp_all add: ring_log_def ring_size_def)

lemma join_new:
  "0 < cfg_shared_buffer_size cfg \<Longrightarrow>
     snd (join_stream (new_stream_coordinator cfg)) =
       (new_stream_coordinator cfg)\<lparr>co_writer_active := True, co_clients := 1\<rparr>"
  by (simp add: join_stream_def claim_writer_def register_client_def clear_buffer_def new_stream_coordinator_def
      map_replicate_const)

text \<open>The first client of a stream, with a look before the first write.\<close>

lemma first_client_served:
  assumes size: "1 < cfg_shared_buffer_size cfg" and err: "err \<noteq> None \<or> status \<noteq> 0"
    and fits: "header_fits r hdr" and up: "client_up c"
    and es: "list_all (\<lambda>xs. list_all (\<lambda>e. fst e \<noteq> []) xs \<and> int (length xs) + 1 < cfg_shared_buffer_size cfg) (ess @ [es])"
  shows "\<exists>c' co'. handle_stream r (calm_tick hdr (\<lambda>c. c) # delivery_ticks hdr ess es err status now) c
      (new_stream_coordinator cfg) =
    Some (mk_result (length (bytes_of (concat ess @ es))) err status, c', co') \<and>
    cl_body c' = cl_body c @ bytes_of (concat ess @ es)"
proof -
  define co where "co = snd (join_stream (new_stream_coordinator cfg))"
  have co: "co = (new_stream_coordinator cfg)\<lparr>co_writer_active := True, co_clients := 1\<rparr>"
    unfolding co_def by (rule join_new) (use size in simp)
  have log: "ring_log co []"
    using new_coordinator_log [of cfg] size by (simp add: co ring_log_fields)
  have n: "ring_size co = nat (cfg_shared_buffer_size cfg)"
    by (simp add: co new_stream_coordinator_def ring_size_def)
  have fields: "co_slots co = replicate (ring_size co) new_chunk" "co_pos co = 0" "co_state co = Active"
      "co_write_seq co = 0" "co_last_error co = NilStored"
    by (simp_all add: co new_stream_coordinator_def ring_size_def)
  have "1 < ring_size co" using n size by simp
  then obtain m where m: "ring_size co = Suc (Suc m)"
    by (cases "ring_size co"; cases "ring_size co - 1") auto
  have slot: "co_slots co ! Suc m = new_chunk" "co_slots co \<noteq> []"
    unfolding fields(1) using m by (simp_all add: nth_replicate del: replicate_Suc)
  have "look co (At (Suc m)) = Chunks [] None 0"
    using m fields(2-5) slot by (simp add: look_def read_chunks_def read_start_def slot_stale_def read_poll_def
        ring_next_def payload_def error_of_def new_chunk_def)
  moreover have "ring_prev co (co_pos co) = Suc m" using m fields by (simp add: ring_prev_def)
  moreover have "\<exists>c' co'. reader_loop r (delivery_ticks hdr ess es err status now) (At (0 mod ring_size co)) 0 c co =
      Some (mk_result (0 + length (bytes_of (drop 0 [] @ concat ess @ es))) err status, c', co') \<and>
      cl_body c' = cl_body c @ bytes_of (drop 0 [] @ concat ess @ es)"
    by (rule reader_keeps_up [OF err fits log up]) (use es n size in \<open>auto simp: list_all_iff\<close>)
  ultimately show ?thesis
    by (fastforce simp: handle_stream_def co_def [symmetric])
qed

text \<open>A client that joins a running stream gets the last chunk already written, and what follows.\<close>

lemma late_client_served:
  assumes log: "ring_log co h" and h: "h \<noteq> []" and active: "co_writer_active co"
    and err: "err \<noteq> None \<or> status \<noteq> 0" and fits: "header_fits r hdr" and up: "client_up c"
    and es: "list_all (\<lambda>xs. list_all (\<lambda>e. fst e \<noteq> []) xs \<and> length xs + 2 < ring_size co) (ess @ [es])"
  shows "\<exists>c' co'. handle_stream r (delivery_ticks hdr ess es err status now) c co =
    Some (mk_result (length (bytes_of (last h # concat ess @ es))) err status, c', co') \<and>
    cl_body c' = cl_body c @ bytes_of (last h # concat ess @ es)"
proof -
  let ?co = "co\<lparr>co_clients := co_clients co + 1\<rparr>"
  have state: "co_state co = Active" and n: "0 < ring_size co" and pos: "co_pos co = length h mod ring_size co"
    using log by (auto simp: ring_log_def)
  have join: "snd (join_stream co) = ?co"
    using active state by (simp add: join_stream_def claim_writer_def register_client_def)
  have size: "ring_size ?co = ring_size co" by (simp add: ring_size_def)
  have len: "length h = Suc (length h - 1)" using h by (cases h) auto
  have prev: "ring_prev ?co (co_pos ?co) = (length h - 1) mod ring_size ?co"
  proof (cases "Suc ((length h - 1) mod ring_size co) = ring_size co")
    case True
    then have "length h mod ring_size co = 0" by (subst len) (simp add: mod_Suc)
    then show ?thesis using True pos size by (simp add: ring_prev_def)
  next
    case False
    then have "length h mod ring_size co = Suc ((length h - 1) mod ring_size co)"
      by (subst len) (simp add: mod_Suc)
    then show ?thesis using pos size by (simp add: ring_prev_def)
  qed
  have last: "drop (length h - 1) h = [last h]"
    using h by (metis append_butlast_last_id append_eq_conv_conj length_butlast)
  have log': "ring_log ?co h" using log by (simp add: ring_log_fields)
  have "\<exists>c' co'. reader_loop r (delivery_ticks hdr ess es err status now) (At ((length h - 1) mod ring_size ?co)) 0 c ?co =
      Some (mk_result (0 + length (bytes_of (drop (length h - 1) h @ concat ess @ es))) err status, c', co') \<and>
      cl_body c' = cl_body c @ bytes_of (drop (length h - 1) h @ concat ess @ es)"
    by (rule reader_keeps_up [OF err fits log' up]) (use es size len in \<open>auto simp: list_all_iff\<close>)
  then obtain c' co' where
    "reader_loop r (delivery_ticks hdr ess es err status now) (At (ring_prev ?co (co_pos ?co))) 0 c ?co =
      Some (mk_result (length (bytes_of (last h # concat ess @ es))) err status, c', co')"
    "cl_body c' = cl_body c @ bytes_of (last h # concat ess @ es)"
    unfolding prev last by auto
  then show ?thesis by (simp add: handle_stream_def join Let_def)
qed

section \<open>Direct streams and slots\<close>

text \<open>The reads of a body without an error, in pieces.\<close>

lemma direct_write:
  "client_up c \<Longrightarrow> \<exists>c1. (if d = [] then (True, c) else client_write d c) = (True, c1) \<and> client_up c1 \<and>
     cl_body c1 = cl_body c @ d \<and> (cl_sent c \<longrightarrow> cl_sent c1 \<and> cl_status c1 = cl_status c)"
  using client_write_up [of c d]
  by (cases "d = []") (auto simp: client_write_def client_write_header_def Let_def split: if_splits)

lemma direct_copies:
  "client_up c \<Longrightarrow>
     \<exists>c'. direct_loop (map (\<lambda>d. DirectRead d None) ds @ [DirectRead d (Some EOF)]) n c =
       Some (if n + length (concat ds @ d) = 0
             then mk_result 0 (Some (ErrorText ''EOF reached for stream'')) status_eof
             else mk_result (n + length (concat ds @ d)) None status_completed, c') \<and>
       cl_body c' = cl_body c @ concat ds @ d \<and> (cl_sent c \<longrightarrow> cl_status c' = cl_status c)"
proof (induction ds arbitrary: n c)
  case Nil
  obtain c1 where "(if d = [] then (True, c) else client_write d c) = (True, c1)"
      "cl_body c1 = cl_body c @ d" "cl_sent c \<longrightarrow> cl_sent c1 \<and> cl_status c1 = cl_status c"
    using direct_write [OF Nil.prems, of d] by blast
  then show ?case by auto
next
  case (Cons e ds)
  obtain c1 where c1: "(if e = [] then (True, c) else client_write e c) = (True, c1)" "client_up c1"
      "cl_body c1 = cl_body c @ e" "cl_sent c \<longrightarrow> cl_sent c1 \<and> cl_status c1 = cl_status c"
    using direct_write [OF Cons.prems, of e] by blast
  from Cons.IH [OF c1(2), of "n + length e"] obtain c' where
    "direct_loop (map (\<lambda>d. DirectRead d None) ds @ [DirectRead d (Some EOF)]) (n + length e) c1 =
       Some (if n + length e + length (concat ds @ d) = 0
             then mk_result 0 (Some (ErrorText ''EOF reached for stream'')) status_eof
             else mk_result (n + length e + length (concat ds @ d)) None status_completed, c')"
    "cl_body c' = cl_body c1 @ concat ds @ d" "cl_sent c1 \<longrightarrow> cl_status c' = cl_status c1" by blast
  then show ?case using c1 by (auto simp: add.assoc)
qed

lemma client_up_write_header [simp]: "client_up (client_write_header n c) = client_up c"
  by (simp add: client_up_def client_write_header_def)

lemma direct_stream_copies:
  assumes "client_up c" and "\<not> cl_sent c" and "concat ds @ d \<noteq> []"
  shows "\<exists>c'. handle_direct_stream r (map (\<lambda>d. DirectRead d None) ds @ [DirectRead d (Some EOF)]) c =
      Some (mk_result (length (concat ds @ d)) None status_completed, c') \<and>
    cl_body c' = cl_body c @ concat ds @ d \<and> cl_status c' = Some (hr_status (lr_response r))"
proof -
  let ?c = "client_write_header (hr_status (lr_response r)) (c\<lparr>cl_headers := hr_header (lr_response r)\<rparr>)"
  have "cl_sent ?c" "cl_status ?c = Some (hr_status (lr_response r))" "cl_body ?c = cl_body c"
    using assms(2) by (simp_all add: client_write_header_def)
  with direct_copies [of ?c ds d 0] assms show ?thesis by (fastforce simp: handle_direct_stream_def)
qed

text \<open>Serving a stream leaves the slots as it found them, when no other stream uses them
  meanwhile (the writer of a shared buffer holds its own slot).\<close>

lemma serve_direct_slots:
  assumes ok: "cm_ok us cm" and alone: "pw_cm w = (\<lambda>cm. cm)"
    and run: "serve_direct us w r c cm = Some (res, c', cm')"
  shows "get_count cm' = get_count cm"
proof (cases "update_concurrency us (lr_index r) True cm")
  case (Pair got cm1)
  show ?thesis
  proof (cases got)
    case True
    then have "cm' = snd (update_concurrency us (lr_index r) False (snd (update_concurrency us (lr_index r) True cm)))"
      using run Pair alone by (auto simp: serve_direct_def)
    moreover have "fst (update_concurrency us (lr_index r) True cm)" using Pair True by simp
    ultimately show ?thesis using cm.acquire_release [OF ok] by simp
  next
    case False
    then have "cm' = snd (update_concurrency us (lr_index r) True cm)" using run Pair by (simp add: serve_direct_def)
    then show ?thesis using cm.acquire_used [OF ok, of "lr_index r"] Pair False by simp
  qed
qed

lemma after_stream_slots:
  "after_stream w r res (c, co, cm) = (status, c', co', cm') \<Longrightarrow> get_count cm' = get_count cm"
  by (auto simp: after_stream_def get_count_def fun_eq_iff split: if_splits prod.splits)

lemma proxy_keeps_slots:
  assumes ok: "cm_ok us cm" and alone: "pw_cm w = (\<lambda>cm. cm)"
    and run: "proxy_stream us w r (c, co, cm) = Some (status, c', co', cm')"
  shows "get_count cm' = get_count cm"
  using run serve_direct_slots [OF ok alone]
  by (auto simp: proxy_stream_def alone Let_def split: prod.splits stream_route.splits
      dest!: after_stream_slots)

end
