(* ===== verification/StreamHttp.thy ===== *)
theory StreamHttp
  imports StreamHandlers
begin

text \<open>
  The HTTP handler of streams and segments, handlers/stream_http.go. A request is a loop of
  attempts: a source is chosen (or the running writer of the stream is joined), the stream is
  proxied, and the status decides whether another source is tried; the indexes of the sources
  that failed are excluded from the next choice. What an attempt meets is a \<open>stream_attempt\<close>.
  \<open>sa_balance\<close> is \<open>DefaultProxyInstance.LoadBalancer\<close>, the function \<open>balance\<close> of LoadBalancer
  with the excluded indexes as its argument.
\<close>

section \<open>Settings and paths\<close>

definition parse_bool_env :: "environ \<Rightarrow> string \<Rightarrow> bool \<Rightarrow> bool" where
  "parse_bool_env env name dflt =
     (case lookup_env env name of
        None \<Rightarrow> dflt | Some v \<Rightarrow> (case parse_bool v of None \<Rightarrow> dflt | Some b \<Rightarrow> b))"

definition extract_stream_url :: "string \<Rightarrow> string" where
  "extract_stream_url p = trim_prefix (hd (split_char (CHR ''.'') (path_base p))) ''/''"

text \<open>Done, and whether the source is to be avoided.\<close>

definition handle_exit_code :: "int \<Rightarrow> bool \<times> bool" where
  "handle_exit_code code =
     (if code = status_incompatible \<or> code = status_eof \<or> code = status_server_error then (False, True)
      else if code = status_m3u8_parsed then (True, False)
      else if code = status_completed then (True, False)
      else if code = status_m3u8_parse_error then (False, True)
      else (True, False))"

definition write_stream_error :: "int \<Rightarrow> string \<Rightarrow> stream_client \<Rightarrow> stream_client" where
  "write_stream_error status msg c =
     (let c1 = client_write_header status (client_set_header ''Content-Type'' ''text/plain; charset=utf-8'' c)
      in if msg = [] then c1 else snd (client_write msg c1))"

section \<open>The loop of attempts\<close>

type_synonym stream_state = "stream_client \<times> coordinator \<times> cm_state"

record stream_attempt =
  sa_other :: "coordinator \<times> cm_state \<Rightarrow> coordinator \<times> cm_state"
  sa_setup_done :: bool
  sa_balance :: "string list \<Rightarrow> lb_error + lb_result"
  sa_proxy :: proxy_world
  sa_closed :: bool
  sa_closed_after :: bool

text \<open>How a request ends: the client has gone, an error was answered, or the stream is done.\<close>

datatype request_end = ClientGone | SelectionFailed | StreamDone

text \<open>The text of an error of the choice; its wording is not modelled.\<close>

definition selection_message :: string where
  "selection_message = ''Upstream stream selection failed: ''"

text \<open>The part of an attempt that is common to both loops: the stream is proxied (\<open>sa_closed\<close>: the
  client leaves while it is), its status is judged. The failed indexes are a set, kept sorted.\<close>

datatype 's attempt_result = Ended request_end 's | Again "string list" 's

definition note_failed :: "string \<Rightarrow> string list \<Rightarrow> string list" where
  "note_failed i failed = sort (remdups (i # failed))"

definition attempt_proxy ::
  "utils_state \<Rightarrow> stream_attempt \<Rightarrow> string list \<Rightarrow> lb_result \<Rightarrow> stream_state \<Rightarrow>
     stream_state attempt_result option" where
  "attempt_proxy us a failed r st =
     (case proxy_stream us (sa_proxy a) r st of
        None \<Rightarrow> None
      | Some (code, st1) \<Rightarrow>
          if sa_closed a then Some (Ended ClientGone st1)
          else
            let (finished, penalize) = handle_exit_code code;
                failed1 = (if penalize then note_failed (lr_index r) failed else failed)
            in if finished then Some (Ended StreamDone st1)
               else if sa_closed_after a then Some (Ended ClientGone st1)
               else Some (Again failed1 st1))"

text \<open>A failed choice: with exclusions all sources are tried again, otherwise the client is told.\<close>

definition attempt_no_source :: "string list \<Rightarrow> stream_state \<Rightarrow> stream_state attempt_result" where
  "attempt_no_source failed = (\<lambda>(c, co, cm).
     if failed \<noteq> [] then Again [] (c, co, cm)
     else Ended SelectionFailed (write_stream_error 502 selection_message c, co, cm))"

definition shared_attempt ::
  "utils_state \<Rightarrow> stream_attempt \<Rightarrow> string list \<Rightarrow> stream_state \<Rightarrow> stream_state attempt_result option" where
  "shared_attempt us a failed = (\<lambda>(c, co0, cm0).
     let (co, cm) = sa_other a (co0, cm0) in
     (case co_lb_result co of
        Some r \<Rightarrow> attempt_proxy us a failed r (c, co, cm)
      | None \<Rightarrow>
          (case try_start_writer_setup co of
             (False, co1) \<Rightarrow>
               Some (if sa_setup_done a then Again failed (c, co1, cm) else Ended ClientGone (c, co1, cm))
           | (True, co1) \<Rightarrow>
               (case sa_balance a failed of
                  Inl _ \<Rightarrow> Some (attempt_no_source failed (c, finish_writer_setup co1, cm))
                | Inr r \<Rightarrow> attempt_proxy us a failed r (c, co1, cm)))))"

text \<open>Without the shared buffer every attempt has a coordinator of its own.\<close>

definition private_attempt ::
  "utils_state \<Rightarrow> stream_attempt \<Rightarrow> string list \<Rightarrow> stream_state \<Rightarrow> stream_state attempt_result option" where
  "private_attempt us a failed = (\<lambda>(c, _, cm0).
     let co = new_stream_coordinator (new_default_stream_config (us_environ us)); cm = snd (sa_other a (co, cm0)) in
     (case sa_balance a failed of
        Inl _ \<Rightarrow> Some (attempt_no_source failed (c, co, cm))
      | Inr r \<Rightarrow> attempt_proxy us a failed r (c, co, cm)))"

text \<open>The loop; None while the attempts last no longer than the request.\<close>

fun attempt_loop ::
  "('a \<Rightarrow> string list \<Rightarrow> 's \<Rightarrow> 's attempt_result option) \<Rightarrow> 'a list \<Rightarrow> string list \<Rightarrow> 's \<Rightarrow>
     (request_end \<times> 's) option" where
  "attempt_loop f [] failed st = None"
| "attempt_loop f (a # as) failed st =
     (case f a failed st of
        None \<Rightarrow> None
      | Some (Ended e st1) \<Rightarrow> Some (e, st1)
      | Some (Again failed1 st1) \<Rightarrow> attempt_loop f as failed1 st1)"

definition handle_stream_without_shared_buffer ::
  "utils_state \<Rightarrow> stream_attempt list \<Rightarrow> stream_state \<Rightarrow> (request_end \<times> stream_state) option" where
  "handle_stream_without_shared_buffer us as st = attempt_loop (private_attempt us) as [] st"

text \<open>\<open>handleStream\<close>; the coordinator is the one the registry has for the stream.\<close>

datatype stream_answer = BadIdentifier stream_client | Served request_end stream_client registry cm_state

definition handle_stream_request ::
  "utils_state \<Rightarrow> stream_config \<Rightarrow> stream_attempt list \<Rightarrow> string \<Rightarrow> stream_client \<Rightarrow> registry \<Rightarrow> cm_state \<Rightarrow>
     stream_answer option" where
  "handle_stream_request us cfg as url_path c reg cm =
     (let url = extract_stream_url url_path in
      if url = [] then Some (BadIdentifier (write_stream_error 400 ''Invalid stream identifier.'' c))
      else if \<not> parse_bool_env (us_environ us) ''SHARED_BUFFER'' True then
        map_option (\<lambda>(e, c1, _, cm1). Served e c1 reg cm1)
          (handle_stream_without_shared_buffer us as (c, new_stream_coordinator cfg, cm))
      else
        let (co, reg1) = get_or_create_coordinator cfg url reg in
        map_option (\<lambda>(e, c1, co1, cm1). Served e c1 (AList.update url co1 reg1) cm1)
          (attempt_loop (shared_attempt us) as [] (c, co, cm)))"

section \<open>Segments\<close>

text \<open>\<open>handleSegmentStream\<close>; \<open>fetch\<close> answers the request for the segment's URL (Inl: an error).
  The bytes of the answer are copied; the wording of the errors is cut.\<close>

definition handle_segment_stream ::
  "segment_codec \<Rightarrow> (string \<Rightarrow> string + http_response) \<Rightarrow> string \<Rightarrow> stream_client \<Rightarrow> stream_client" where
  "handle_segment_stream sx fetch url_path c =
     (let i = extract_stream_url url_path in
      if i = [] then c
      else
        (case parse_segment_id sx i of
           Inl _ \<Rightarrow> snd (client_write ''Segment parsing error: '' (client_write_header 500 c))
         | Inr s \<Rightarrow>
             (case fetch (sg_url s) of
                Inl e \<Rightarrow> snd (client_write (''Failed to fetch URL: '' @ e) (client_write_header 500 c))
              | Inr r \<Rightarrow>
                  (let c1 = client_write_header (hr_status r) (fold client_add_header (hr_header r) c)
                   in if hr_body r = [] then c1 else snd (client_write (hr_body r) c1)))))"

text \<open>\<open>isBrokenPipe\<close> on the message of the error (of the inner error for a network operation).\<close>

definition is_broken_pipe :: "string option \<Rightarrow> bool" where
  "is_broken_pipe err =
     (case err of
        None \<Rightarrow> False
      | Some m \<Rightarrow> contains_str m ''broken pipe'' \<or> contains_str m ''connection reset by peer'')"

section \<open>The path of a segment\<close>

lemma hd_split_char: "c \<notin> set s \<Longrightarrow> r = [] \<or> hd r = c \<Longrightarrow> hd (split_char c (s @ r)) = s"
proof (cases r)
  case Nil
  assume "c \<notin> set s"
  then have "split_char c s = [s]" by (induction s) auto
  then show ?thesis using Nil by simp
next
  case (Cons x xs)
  assume "c \<notin> set s" "r = [] \<or> hd r = c"
  then show ?thesis using Cons by (simp add: split_char_append)
qed

lemma path_base_last:
  assumes "CHR ''/'' \<notin> set f" and "f \<noteq> []"
  shows "path_base (d @ ''/'' @ f) = f"
proof -
  have "last (d @ ''/'' @ f) \<noteq> CHR ''/''" using assms last_in_set by fastforce
  then have "trim_right_by (\<lambda>c. c = CHR ''/'') (d @ ''/'' @ f) = d @ ''/'' @ f"
    by (intro trim_right_by_id) simp
  moreover have "takeWhile (\<lambda>c. c \<noteq> CHR ''/'') (rev f @ CHR ''/'' # rev d) = rev f"
    using assms(1) by (subst takeWhile_append2) auto
  ultimately show ?thesis by (simp add: path_base_def)
qed

text \<open>The slug comes back from the path of a segment's URL, whose extension has no slash.\<close>

lemma extract_segment:
  assumes "sx_compress sx (sx_marshal sx s) \<noteq> []" and "ext = [] \<or> hd ext = CHR ''.''" and "CHR ''/'' \<notin> set ext"
  shows "extract_stream_url (d @ ''/segment/'' @ encode_segment_slug sx s @ ext) = encode_segment_slug sx s"
proof -
  let ?e = "encode_segment_slug sx s"
  have e: "CHR ''.'' \<notin> set ?e" "CHR ''/'' \<notin> set ?e" "?e \<noteq> []"
    using b64_url_chars [of "sx_compress sx (sx_marshal sx s)"] b64_encode_nonempty [OF assms(1)]
    by (auto simp: encode_segment_slug_def list_all_iff)
  have "path_base ((d @ ''/segment'') @ ''/'' @ ?e @ ext) = ?e @ ext"
    by (rule path_base_last) (use e assms(3) in auto)
  moreover have "hd (split_char (CHR ''.'') (?e @ ext)) = ?e" by (rule hd_split_char) (use e assms(2) in auto)
  moreover have "trim_prefix ?e ''/'' = ?e" using e(2) by (cases ?e) (auto simp: trim_prefix_def)
  ultimately show ?thesis by (simp add: extract_stream_url_def)
qed

lemma path_ext_shape: "(path_ext p = [] \<or> hd (path_ext p) = CHR ''.'') \<and> CHR ''/'' \<notin> set (path_ext p)"
  by (auto simp: path_ext_def Let_def dest: set_takeWhileD split: list.splits)

text \<open>A rewritten URL of a playlist leads back to the URL and its source.\<close>

definition codec_ok :: "segment_codec \<Rightarrow> bool" where
  "codec_ok sx =
     ((\<forall>s. sx_unmarshal sx (sx_marshal sx s) = Some s) \<and> (\<forall>x. sx_decompress sx (sx_compress sx x) = Some x) \<and>
      (\<forall>x. sx_compress sx x \<noteq> []))"

lemma parse_encoded_segment: "codec_ok sx \<Longrightarrow> parse_segment_id sx (encode_segment_slug sx s) = Inr s"
  by (simp add: codec_ok_def parse_segment_id_def decode_segment_slug_def encode_segment_slug_def b64_roundtrip)

lemma segment_url_decodes:
  assumes "codec_ok sx"
  shows "\<exists>p. generate_segment_url sx parse env s = determine_base_url env None @ p \<and> has_prefix p ''/segment/'' \<and>
    parse_segment_id sx (extract_stream_url p) = Inr s"
proof -
  let ?ext = "case get_file_extension_from_url parse (sg_url s) of None \<Rightarrow> [] | Some e \<Rightarrow> e"
  let ?p = "''/segment/'' @ encode_segment_slug sx s @ ?ext"
  have "?ext = [] \<or> hd ?ext = CHR ''.''" "CHR ''/'' \<notin> set ?ext"
    using path_ext_shape by (auto simp: get_file_extension_from_url_def split: option.splits)
  then have "extract_stream_url ([] @ ?p) = encode_segment_slug sx s"
    using assms by (intro extract_segment) (simp_all add: codec_ok_def)
  then have "parse_segment_id sx (extract_stream_url ?p) = Inr s"
    using parse_encoded_segment [OF assms] by simp
  moreover have "generate_segment_url sx parse env s = determine_base_url env None @ ?p"
    by (simp add: generate_segment_url_def)
  moreover have "has_prefix ?p ''/segment/''" by (simp add: has_prefix_def)
  ultimately show ?thesis by blast
qed

lemma rewritten_line_decodes:
  assumes "codec_ok (fo_codec ctx)" and "line \<noteq> []" and "hd line \<noteq> CHR ''#''" and "line_url uo base line = Some u"
  shows "\<exists>p. process_line uo ctx base line = Some (determine_base_url (fo_env ctx) None @ p) \<and> has_prefix p ''/segment/'' \<and>
    parse_segment_id (fo_codec ctx) (extract_stream_url p) = Inr \<lparr>sg_url = u, sg_source = fo_source ctx\<rparr>"
proof -
  have "process_line uo ctx base line =
      Some (generate_segment_url (fo_codec ctx) (fo_parse ctx) (fo_env ctx) \<lparr>sg_url = u, sg_source = fo_source ctx\<rparr>)"
    using assms(2-4) by (cases line) (simp_all add: process_line_def process_url_def)
  with segment_url_decodes [OF assms(1)] show ?thesis by metis
qed

section \<open>Retries\<close>

text \<open>The message says that all sources are retried once. The exclusions are cleared each time a
  choice with exclusions fails, so a stream whose only source ends at once is asked for as long
  as the client waits: no bound on the attempts.\<close>

definition failing_status :: "int \<Rightarrow> bool" where
  "failing_status code = (snd (handle_exit_code code) \<and> \<not> fst (handle_exit_code code))"

lemma retries_unbounded:
  assumes balance: "\<And>a. a \<in> set as \<Longrightarrow> sa_balance a = (\<lambda>failed. if failed = [] then Inr r else Inl AllFailed)"
    and alive: "\<And>a. a \<in> set as \<Longrightarrow> \<not> sa_closed a \<and> \<not> sa_closed_after a"
    and fails: "\<And>a st. a \<in> set as \<Longrightarrow>
      \<exists>code st1. proxy_stream us (sa_proxy a) r st = Some (code, st1) \<and> failing_status code"
  shows "attempt_loop (private_attempt us) as failed st = None"
  using assms
proof (induction as arbitrary: failed st)
  case Nil
  then show ?case by simp
next
  case (Cons a as)
  obtain c co cm where st: "st = (c, co, cm)" by (cases st)
  let ?co = "new_stream_coordinator (new_default_stream_config (us_environ us))"
  let ?st = "(c, ?co, snd (sa_other a (?co, cm)))"
  have "\<exists>failed1 st1. private_attempt us a failed st = Some (Again failed1 st1)"
  proof (cases "failed = []")
    case True
    obtain code st1 where code: "proxy_stream us (sa_proxy a) r ?st = Some (code, st1)" "failing_status code"
      using Cons.prems(3) [of a ?st] by (metis list.set_intros(1))
    then have "handle_exit_code code = (False, True)" by (simp add: failing_status_def prod_eq_iff)
    then have "private_attempt us a failed st = Some (Again (note_failed (lr_index r) failed) st1)"
      using code True Cons.prems(1,2) [of a] by (simp add: st private_attempt_def attempt_proxy_def)
    then show ?thesis by blast
  next
    case False
    then show ?thesis
      using Cons.prems(1) [of a] by (simp add: st private_attempt_def attempt_no_source_def Let_def)
  qed
  then show ?case using Cons.IH [OF Cons.prems(1-3)] by auto
qed

text \<open>A status either ends the request or penalizes the source, never both.\<close>

lemma exit_code_exclusive: "fst (handle_exit_code code) \<noteq> snd (handle_exit_code code)"
  by (simp add: handle_exit_code_def)

end
