(* ===== verification/StreamStates.thy ===== *)
theory StreamStates
  imports Delivery StreamHttp
begin

text \<open>
  One shared stream as a state machine: its coordinator, the readers with their positions, and
  the goroutines of writers. The steps are the operations of coordinator.go, media_stream.go and
  stream_http.go that change the coordinator, in any interleaving; joining and leaving are one
  step each (the code holds \<open>InitializationMu\<close> while a client joins).
\<close>

record live_stream =
  ls_coord :: coordinator
  ls_readers :: "reader_pos list"
  ls_writers :: nat

definition new_live_stream :: "stream_config \<Rightarrow> live_stream" where
  "new_live_stream cfg = \<lparr>ls_coord = new_stream_coordinator cfg, ls_readers = [], ls_writers = 0\<rparr>"

definition remove_nth :: "nat \<Rightarrow> 'a list \<Rightarrow> 'a list" where
  "remove_nth i xs = take i xs @ drop (Suc i) xs"

inductive stream_step :: "live_stream \<Rightarrow> live_stream \<Rightarrow> bool" where
  start_setup: "stream_step s (s\<lparr>ls_coord := snd (try_start_writer_setup (ls_coord s))\<rparr>)"
| end_setup: "stream_step s (s\<lparr>ls_coord := finish_writer_setup (ls_coord s)\<rparr>)"
| join: "join_stream (ls_coord s) = (started, c) \<Longrightarrow>
    stream_step s (s\<lparr>ls_coord := c, ls_readers := At (ring_prev c (co_pos c)) # ls_readers s,
      ls_writers := ls_writers s + (if started then 1 else 0)\<rparr>)"
| read: "i < length (ls_readers s) \<Longrightarrow> look (ls_coord s) (ls_readers s ! i) = Chunks chs err q \<Longrightarrow>
    stream_step s (s\<lparr>ls_readers := (ls_readers s)[i := At q]\<rparr>)"
| wait: "i < length (ls_readers s) \<Longrightarrow> look (ls_coord s) (ls_readers s ! i) = Blocked q \<Longrightarrow>
    stream_step s (s\<lparr>ls_readers := (ls_readers s)[i := Waiting q]\<rparr>)"
| leave: "i < length (ls_readers s) \<Longrightarrow>
    stream_step s (s\<lparr>ls_coord := leave_stream (ls_coord s), ls_readers := remove_nth i (ls_readers s)\<rparr>)"
| start_writing: "0 < ls_writers s \<Longrightarrow> stream_step s (s\<lparr>ls_coord := begin_media_writer r (ls_coord s)\<rparr>)"
| write_header: "0 < ls_writers s \<Longrightarrow> stream_step s (s\<lparr>ls_coord := (ls_coord s)\<lparr>co_resp_header := Some h\<rparr>\<rparr>)"
| write_some: "0 < ls_writers s \<Longrightarrow> stream_step s (s\<lparr>ls_coord := snd (write_chunk ch (ls_coord s))\<rparr>)"
| write_end: "0 < ls_writers s \<Longrightarrow> stream_step s (s\<lparr>ls_coord := write_error err status now (ls_coord s)\<rparr>)"
| end_writing: "0 < ls_writers s \<Longrightarrow> stream_step s (s\<lparr>ls_coord := (ls_coord s)\<lparr>co_lb_result := None\<rparr>\<rparr>)"
| stop_writing: "0 < ls_writers s \<Longrightarrow>
    stream_step s (s\<lparr>ls_coord := writer_stopped (ls_coord s), ls_writers := ls_writers s - 1\<rparr>)"

inductive stream_reach :: "stream_config \<Rightarrow> live_stream \<Rightarrow> bool" for cfg where
  start: "stream_reach cfg (new_live_stream cfg)"
| next_step: "stream_reach cfg s \<Longrightarrow> stream_step s t \<Longrightarrow> stream_reach cfg t"

section \<open>Well-formed streams\<close>

definition pos_of :: "reader_pos \<Rightarrow> nat" where
  "pos_of p = (case p of At q \<Rightarrow> q | Waiting q \<Rightarrow> q)"

lemma pos_of_simps [simp]: "pos_of (At q) = q" "pos_of (Waiting q) = q"
  by (simp_all add: pos_of_def)

text \<open>The ring keeps its size, all positions are slots of it, the readers are counted, and there is a
  goroutine of a writer exactly when the flag is set.\<close>

definition ring_fits :: "nat \<Rightarrow> coordinator \<Rightarrow> bool" where
  "ring_fits n c = (ring_size c = n \<and> co_pos c < n)"

definition live_ok :: "nat \<Rightarrow> live_stream \<Rightarrow> bool" where
  "live_ok n s =
     (ring_fits n (ls_coord s) \<and> (\<forall>p \<in> set (ls_readers s). pos_of p < n) \<and>
      co_clients (ls_coord s) = int (length (ls_readers s)) \<and>
      ls_writers s = (if co_writer_active (ls_coord s) then 1 else 0))"

lemma ring_next_fits: "p < ring_size c \<Longrightarrow> ring_next c p < ring_size c"
  by (simp add: ring_next_def)

lemma ring_prev_fits: "p < ring_size c \<Longrightarrow> ring_prev c p < ring_size c"
  by (auto simp: ring_prev_def)

text \<open>What each operation does to the fields that matter.\<close>

definition kept :: "coordinator \<Rightarrow> coordinator \<Rightarrow> bool" where
  "kept c d = (ring_size d = ring_size c \<and> co_clients d = co_clients c \<and> co_writer_active d = co_writer_active c \<and>
     (co_pos c < ring_size c \<longrightarrow> co_pos d < ring_size c))"

lemma kept_setup [goinv]: "kept c (snd (try_start_writer_setup c))" "kept c (finish_writer_setup c)"
    "kept c (begin_media_writer r c)" "kept c (c\<lparr>co_resp_header := h\<rparr>)" "kept c (c\<lparr>co_lb_result := x\<rparr>)"
  by (simp_all add: kept_def try_start_writer_setup_def finish_writer_setup_def begin_media_writer_def ring_size_def)

lemma kept_write [goinv]: "kept c (snd (write_chunk ch c))"
  by (auto simp: kept_def write_chunk_def ring_size_def ring_next_def Let_def)

lemma kept_error [goinv]: "kept c (write_error err status now c)"
  using kept_write [of c] by (simp add: kept_def write_error_def ring_size_def)

lemma kept_ok:
  "live_ok n s \<Longrightarrow> kept (ls_coord s) d \<Longrightarrow> live_ok n (s\<lparr>ls_coord := d\<rparr>)"
  by (auto simp: live_ok_def kept_def ring_fits_def)

lemma join_fields:
  assumes "join_stream c = (started, d)"
  shows "ring_size d = ring_size c" and "co_pos d = co_pos c" and "co_clients d = co_clients c + 1"
    and "started = (\<not> co_writer_active c)" and "co_writer_active d"
  using assms
  by (auto simp: join_stream_def claim_writer_def register_client_def clear_buffer_def ring_size_def Let_def
      split: if_splits)

lemma leave_fields:
  "ring_size (leave_stream c) = ring_size c" "co_pos (leave_stream c) = co_pos c"
  "co_clients (leave_stream c) = co_clients c - 1" "co_writer_active (leave_stream c) = co_writer_active c"
  by (simp_all add: leave_stream_def unregister_client_def clear_buffer_def ring_size_def Let_def)

lemma walk_fits:
  "p < ring_size c \<Longrightarrow> walk n c p acc err = (chs, e, q) \<Longrightarrow> q < ring_size c"
  by (induction n c p acc err rule: walk.induct) (auto simp: ring_next_fits split: if_splits)

lemma look_fits:
  assumes "co_pos c < ring_size c" and "pos_of p < ring_size c"
  shows "look c p \<noteq> ReadPanic" and "look c p = Blocked q \<Longrightarrow> q < ring_size c"
    and "look c p = Chunks chs err q \<Longrightarrow> q < ring_size c"
proof -
  have poll: "read_poll c r \<noteq> ReadPanic \<and> (read_poll c r = Blocked q \<longrightarrow> q < ring_size c) \<and>
      (read_poll c r = Chunks chs err q \<longrightarrow> q < ring_size c)" if "r < ring_size c" for r
    using walk_fits [OF that] that
    by (auto simp: read_poll_def split: prod.splits option.splits last_error.splits)
  have start: "read_start c (Some r) < ring_size c" if "r < ring_size c" for r
    using that assms(1) by (simp add: read_start_def Let_def)
  have "co_slots c \<noteq> []" using assms(1) by (auto simp: ring_size_def)
  then have "look c p = read_poll c (case p of At r \<Rightarrow> read_start c (Some r) | Waiting r \<Rightarrow> r)"
    by (simp add: look_def read_chunks_def split: reader_pos.splits)
  moreover have "(case p of At r \<Rightarrow> read_start c (Some r) | Waiting r \<Rightarrow> r) < ring_size c"
    using start assms(2) by (cases p) simp_all
  ultimately show "look c p \<noteq> ReadPanic" "look c p = Blocked q \<Longrightarrow> q < ring_size c"
      "look c p = Chunks chs err q \<Longrightarrow> q < ring_size c"
    using poll by auto
qed

lemma stream_step_ok:
  assumes "stream_step s t" and ok: "live_ok n s"
  shows "live_ok n t"
  using assms(1)
proof (cases rule: stream_step.cases)
  case (join started c)
  then show ?thesis
    using ok join_fields [OF join(2)] ring_prev_fits [of "co_pos c" c] by (auto simp: live_ok_def ring_fits_def)
next
  case (read i chs err q)
  have "q < n" using look_fits(3) [OF _ _ read(3)] ok read(2) by (auto simp: live_ok_def ring_fits_def)
  then show ?thesis using ok read(1) by (auto simp: live_ok_def dest!: set_update_subset_insert [THEN subsetD])
next
  case (wait i q)
  have "q < n" using look_fits(2) [OF _ _ wait(3)] ok wait(2) by (auto simp: live_ok_def ring_fits_def)
  then show ?thesis using ok wait(1) by (auto simp: live_ok_def dest!: set_update_subset_insert [THEN subsetD])
next
  case (leave i)
  then show ?thesis
    using ok by (auto simp: live_ok_def ring_fits_def leave_fields remove_nth_def dest: in_set_takeD in_set_dropD)
next
  case stop_writing
  then show ?thesis
    using ok by (auto simp: live_ok_def ring_fits_def writer_stopped_def finish_writer_setup_def ring_size_def split: if_splits)
qed (auto intro!: kept_ok ok goinv)

lemma stream_reach_ok:
  assumes "0 < cfg_shared_buffer_size cfg" and "stream_reach cfg s"
  shows "live_ok (nat (cfg_shared_buffer_size cfg)) s"
  using assms(2)
proof (induction rule: stream_reach.induct)
  case start
  then show ?case
    using assms(1) by (simp add: live_ok_def ring_fits_def new_live_stream_def new_stream_coordinator_def ring_size_def)
qed (rule stream_step_ok)

lemma live_no_panic:
  assumes "live_ok n s"
  shows "fst (write_chunk ch (ls_coord s)) \<noteq> WritePanic" and "p \<in> set (ls_readers s) \<Longrightarrow> look (ls_coord s) p \<noteq> ReadPanic"
proof -
  have "0 < ring_size (ls_coord s)" using assms by (auto simp: live_ok_def ring_fits_def)
  then show "fst (write_chunk ch (ls_coord s)) \<noteq> WritePanic" by (auto simp: write_chunk_def ring_size_def Let_def)
  show "p \<in> set (ls_readers s) \<Longrightarrow> look (ls_coord s) p \<noteq> ReadPanic"
    using assms by (intro look_fits(1)) (auto simp: live_ok_def ring_fits_def)
qed

section \<open>A client that joins while the writer stops\<close>

text \<open>The last client has left, its writer has been told to stop but its flag is still set: a new
  client starts no writer. It looks at the empty ring, and is then served the end of the old
  writer.\<close>

lemma ring_next_other: "1 < ring_size c \<Longrightarrow> p < ring_size c \<Longrightarrow> ring_next c p \<noteq> p"
  by (auto simp: ring_next_def)

lemma ring_next_prev: "p < ring_size c \<Longrightarrow> ring_next c (ring_prev c p) = p"
  by (auto simp: ring_next_def ring_prev_def)

lemma look_cleared:
  assumes "1 < ring_size c" and "co_pos c < ring_size c" and "co_state c = Active" and "co_last_error c = NilStored"
    and empty: "\<And>i. i < ring_size c \<Longrightarrow> ck_data (co_slots c ! i) = [] \<and> ck_error (co_slots c ! i) = None \<and> ck_status (co_slots c ! i) = 0"
  shows "look c (At (ring_prev c (co_pos c))) \<in> {Blocked (co_pos c), Chunks [] None (co_pos c)}"
proof -
  let ?p = "ring_prev c (co_pos c)"
  have p: "?p < ring_size c" "ring_next c ?p = co_pos c" using assms(2) ring_prev_fits ring_next_prev by blast+
  obtain m where m: "ring_size c = Suc (Suc m)" using assms(1) by (cases "ring_size c"; cases "ring_size c - 1") auto
  have ne: "?p \<noteq> co_pos c" using ring_next_other [OF assms(1), of ?p] p by auto
  have "read_poll c ?p = Chunks [] None (co_pos c)"
    using empty [OF p(1)] ne assms(4) p(2) by (simp add: read_poll_def m payload_def error_of_def)
  moreover have "read_poll c (co_pos c) = Blocked (co_pos c)" using assms(3) by (simp add: read_poll_def)
  moreover have "co_slots c \<noteq> []" using m by (auto simp: ring_size_def)
  ultimately show ?thesis by (auto simp: look_def read_chunks_def read_start_def Let_def)
qed

lemma look_after_error:
  assumes "1 < ring_size c" and "co_pos c < ring_size c" and "co_state c = Active"
    and p: "p = At (co_pos c) \<or> p = Waiting (co_pos c)"
  shows "\<exists>e q. look (write_error (Some err) status now c) p = Chunks [] (Some e) q \<and> ck_error e = Some err \<and> ck_status e = status"
proof -
  let ?d = "write_error (Some err) status now c" and ?p = "co_pos c"
  have d: "ring_size ?d = ring_size c" "co_pos ?d = ring_next c ?p" "co_state ?d = Closed"
      "co_write_seq ?d = co_write_seq c + 1"
      "co_slots ?d ! ?p = new_chunk\<lparr>ck_error := Some err, ck_status := status, ck_time := now, ck_seq := co_write_seq c + 1\<rparr>"
      "co_slots ?d \<noteq> []"
    using assms(1-3) by (auto simp: write_error_def write_chunk_def ring_size_def new_chunk_def Let_def)
  obtain m where m: "ring_size c = Suc (Suc m)" using assms(1) by (cases "ring_size c"; cases "ring_size c - 1") auto
  have next_pos: "ring_next ?d ?p = ring_next c ?p" using d(1) by (simp add: ring_next_def)
  have "ring_next c ?p \<noteq> ?p" by (rule ring_next_other [OF assms(1,2)])
  then have "\<exists>e q. read_poll ?d ?p = Chunks [] (Some e) q \<and> ck_error e = Some err \<and> ck_status e = status"
    by (simp add: read_poll_def d m next_pos payload_def error_of_def new_chunk_def)
  moreover have "\<not> slot_stale ?d ?p" using d by (simp add: slot_stale_def)
  ultimately show ?thesis using p d(6) by (auto simp: look_def read_chunks_def read_start_def Let_def)
qed

lemma join_while_stopping:
  assumes size: "1 < ring_size co" "co_pos co < ring_size co"
    and co: "co_writer_active co" "co_clients co = 1" "co_state co = Active" "co_last_error co = NilStored"
  shows "\<not> fst (join_stream (leave_stream co))"
    and "\<exists>co'. handle_stream r [calm_tick hdr (\<lambda>c. c), calm_tick hdr (write_error (Some CtxError) status_client_closed now)] c
      (leave_stream co) = Some (mk_result 0 (Some CtxError) status_client_closed, c, co')"
proof -
  obtain started d where j: "join_stream (leave_stream co) = (started, d)" by fastforce
  note f = join_fields [OF j]
  show "\<not> fst (join_stream (leave_stream co))" using f(4) co(1) by (simp add: j leave_fields)
  have d: "co_state d = Active" "co_last_error d = NilStored" "co_slots d = map (\<lambda>_. new_chunk) (co_slots co)"
    using j co by (auto simp: join_stream_def claim_writer_def leave_stream_def unregister_client_def register_client_def
        clear_buffer_def Let_def o_def)
  have n: "1 < ring_size d" "co_pos d < ring_size d" using size f(1,2) by (simp_all add: leave_fields)
  have empty: "ck_data (co_slots d ! i) = [] \<and> ck_error (co_slots d ! i) = None \<and> ck_status (co_slots d ! i) = 0"
    if "i < ring_size d" for i
    using that by (simp add: d(3) ring_size_def new_chunk_def)
  have first: "look d (At (ring_prev d (co_pos d))) \<in> {Blocked (co_pos d), Chunks [] None (co_pos d)}"
    by (rule look_cleared [OF n d(1,2) empty])
  have second: "\<exists>co'. reader_loop r [calm_tick hdr (write_error (Some CtxError) status_client_closed now)] p 0 c d =
      Some (mk_result 0 (Some CtxError) status_client_closed, c, co')" if "p = At (co_pos d) \<or> p = Waiting (co_pos d)" for p
    using look_after_error [OF n d(1) that, of CtxError status_client_closed now] by auto
  have "\<exists>co'. reader_loop r [calm_tick hdr (\<lambda>c. c), calm_tick hdr (write_error (Some CtxError) status_client_closed now)]
      (At (ring_prev d (co_pos d))) 0 c d = Some (mk_result 0 (Some CtxError) status_client_closed, c, co')"
    using first second [of "At (co_pos d)"] second [of "Waiting (co_pos d)"] by auto
  then show "\<exists>co'. handle_stream r [calm_tick hdr (\<lambda>c. c), calm_tick hdr (write_error (Some CtxError) status_client_closed now)] c
      (leave_stream co) = Some (mk_result 0 (Some CtxError) status_client_closed, c, co')"
    by (auto simp: handle_stream_def j)
qed

end
