(* ===== verification/Requests.thy ===== *)
theory Requests
  imports Delivery StreamHttp
begin

text \<open>
  A request for a stream from its start to its end: what every attempt keeps, the loop of attempts
  keeps. The connection slots are such a property, with the shared buffer and without.
\<close>

section \<open>The loop of attempts\<close>

definition state_after :: "'s attempt_result \<Rightarrow> 's" where
  "state_after res = (case res of Ended _ st \<Rightarrow> st | Again _ st \<Rightarrow> st)"

lemma state_after_simps [simp]: "state_after (Ended e st) = st" "state_after (Again fs st) = st"
  by (simp_all add: state_after_def)

locale request_attempts =
  fixes attempt :: "'a \<Rightarrow> string list \<Rightarrow> 's \<Rightarrow> 's attempt_result option"
    and valid :: "'a \<Rightarrow> bool"
    and inv :: "'s \<Rightarrow> bool"
  assumes attempt_keeps: "valid a \<Longrightarrow> inv st \<Longrightarrow> attempt a failed st = Some res \<Longrightarrow> inv (state_after res)"
begin

lemma loop_keeps:
  "list_all valid as \<Longrightarrow> inv st \<Longrightarrow> attempt_loop attempt as failed st = Some (e, st') \<Longrightarrow> inv st'"
proof (induction as arbitrary: failed st)
  case (Cons a as)
  obtain res where res: "attempt a failed st = Some res" using Cons.prems(3) by (auto split: option.splits)
  have "inv (state_after res)" using attempt_keeps [OF _ _ res] Cons.prems by simp
  then show ?case using Cons.IH Cons.prems res by (cases res) auto
qed simp

end

section \<open>Slots\<close>

text \<open>An attempt while no other stream takes or returns slots; its writer is another stream.\<close>

definition undisturbed :: "stream_attempt \<Rightarrow> bool" where
  "undisturbed a = (pw_cm (sa_proxy a) = (\<lambda>cm. cm) \<and> (\<forall>co cm. snd (sa_other a (co, cm)) = cm))"

definition slots_are :: "utils_state \<Rightarrow> (string \<Rightarrow> int) \<Rightarrow> stream_state \<Rightarrow> bool" where
  "slots_are us n st = (cm_ok us (snd (snd st)) \<and> get_count (snd (snd st)) = n)"

lemma cm_ok_invalid [simp]: "cm_ok us (cm\<lparr>cm_invalid := x\<rparr>) = cm_ok us cm"
  by (simp add: cm_ok_def cm_limit_def get_count_def)

lemma after_stream_ok:
  "after_stream w r res (c, co, cm) = (status, c', co', cm') \<Longrightarrow> cm_ok us cm \<Longrightarrow> cm_ok us cm'"
  by (auto simp: after_stream_def split: if_splits prod.splits)

lemma serve_direct_ok:
  assumes "cm_ok us cm" and "pw_cm w = (\<lambda>cm. cm)" and "serve_direct us w r c cm = Some (res, c', cm')"
  shows "cm_ok us cm'"
proof -
  obtain got cm1 where u: "update_concurrency us (lr_index r) True cm = (got, cm1)" by fastforce
  have "cm_ok us cm1" using update_ok [OF assms(1), of "lr_index r" True] u by simp
  then show ?thesis
    using assms(2,3) u update_ok [of us cm1 "lr_index r" False]
    by (cases got) (auto simp: serve_direct_def)
qed

lemma proxy_slots:
  assumes "slots_are us n st" and "pw_cm w = (\<lambda>cm. cm)" and "proxy_stream us w r st = Some (status, st')"
  shows "slots_are us n st'"
proof -
  obtain c co cm c' co' cm' where st: "st = (c, co, cm)" "st' = (c', co', cm')" by (cases st; cases st')
  have ok: "cm_ok us cm" and run: "proxy_stream us w r (c, co, cm) = Some (status, c', co', cm')"
    using assms st by (simp_all add: slots_are_def)
  have "cm_ok us cm'"
    using run serve_direct_ok [OF ok assms(2)] ok
    by (auto simp: proxy_stream_def assms(2) Let_def split: prod.splits stream_route.splits
        dest!: after_stream_ok [where us = us])
  then show ?thesis using proxy_keeps_slots [OF ok assms(2) run] assms(1) by (simp add: slots_are_def st)
qed

lemma attempt_proxy_slots:
  assumes "slots_are us n st" and "pw_cm (sa_proxy a) = (\<lambda>cm. cm)" and "attempt_proxy us a failed r st = Some res"
  shows "slots_are us n (state_after res)"
proof -
  obtain code st1 where p: "proxy_stream us (sa_proxy a) r st = Some (code, st1)"
    using assms(3) by (auto simp: attempt_proxy_def split: option.splits)
  then have "state_after res = st1"
    using assms(3) by (auto simp: attempt_proxy_def Let_def split: if_splits prod.splits)
  then show ?thesis using proxy_slots [OF assms(1,2) p] by simp
qed

lemma no_source_slots: "slots_are us n (c, co, cm) \<Longrightarrow> slots_are us n (state_after (attempt_no_source failed (c, co', cm)))"
  by (simp add: attempt_no_source_def slots_are_def)

interpretation private_requests: request_attempts "private_attempt us" undisturbed "slots_are us n" for us n
proof
  fix a st failed res
  assume a: "undisturbed a" and st: "slots_are us n st" and run: "private_attempt us a failed st = Some res"
  obtain c co cm where s: "st = (c, co, cm)" by (cases st)
  let ?co = "new_stream_coordinator (new_default_stream_config (us_environ us))"
  have st': "slots_are us n (c, ?co, cm)" using st s by (simp add: slots_are_def)
  have "snd (sa_other a (?co, cm)) = cm" using a by (simp add: undisturbed_def)
  then have "res = attempt_no_source failed (c, ?co, cm) \<or> (\<exists>r. attempt_proxy us a failed r (c, ?co, cm) = Some res)"
    using run by (auto simp: s private_attempt_def Let_def split: sum.splits)
  then show "slots_are us n (state_after res)"
    using no_source_slots [OF st'] attempt_proxy_slots [OF st'] a by (auto simp: undisturbed_def)
qed

interpretation shared_requests: request_attempts "shared_attempt us" undisturbed "slots_are us n" for us n
proof
  fix a st failed res
  assume a: "undisturbed a" and st: "slots_are us n st" and run: "shared_attempt us a failed st = Some res"
  obtain c co0 cm where s: "st = (c, co0, cm)" by (cases st)
  obtain co where other: "sa_other a (co0, cm) = (co, cm)"
    using a unfolding undisturbed_def by (metis prod.collapse)
  have st': "slots_are us n (c, d, cm)" for d using st s by (simp add: slots_are_def)
  consider d where "state_after res = (c, d, cm)" | d where "res = attempt_no_source failed (c, d, cm)"
    | r d where "attempt_proxy us a failed r (c, d, cm) = Some res"
    using run by (auto simp: s shared_attempt_def other Let_def split: sum.splits prod.splits option.splits bool.splits if_splits)
  then show "slots_are us n (state_after res)"
    using no_source_slots [OF st'] attempt_proxy_slots [OF st'] st' a by cases (auto simp: undisturbed_def)
qed

text \<open>What a request takes, it gives back.\<close>

lemma request_slots:
  assumes ok: "cm_ok us cm" and calm: "list_all undisturbed as"
    and run: "handle_stream_request us cfg as url_path c reg cm = Some (Served e c' reg' cm')"
  shows "get_count cm' = get_count cm"
proof -
  have start: "slots_are us (get_count cm) (c, co, cm)" for co using ok by (simp add: slots_are_def)
  have "\<exists>co st co'. (attempt_loop (private_attempt us) as [] (c, co, cm) = Some (e, c', co', cm') \<or>
      attempt_loop (shared_attempt us) as [] (c, co, cm) = Some (e, c', co', cm'))"
    using run
    by (auto simp: handle_stream_request_def handle_stream_without_shared_buffer_def Let_def split: if_splits prod.splits)
  then have "slots_are us (get_count cm) (c', undefined, cm')"
    using private_requests.loop_keeps [OF calm start] shared_requests.loop_keeps [OF calm start]
    by (fastforce simp: slots_are_def)
  then show ?thesis by (simp add: slots_are_def)
qed

end
