(* ===== verification/Paths.thy ===== *)
theory Paths
  imports Env Scanner
begin

text \<open>
  File paths as the package path/filepath has them on Unix (the separator is the slash), the
  directories of config/config.go, utils/m3u_path.go and the directory of the channel logos,
  utils/tvlogos.go.
\<close>

section \<open>path/filepath\<close>

text \<open>\<open>Clean\<close> on components: empty ones and dots vanish, two dots take back the component before
  them, and vanish at the root.\<close>

definition slash :: char where "slash = CHR ''/''"

fun clean_parts :: "bool \<Rightarrow> string list \<Rightarrow> string list \<Rightarrow> string list" where
  "clean_parts rooted acc [] = rev acc"
| "clean_parts rooted acc (p # ps) =
     (if p = [] \<or> p = ''.'' then clean_parts rooted acc ps
      else if p = ''..'' then
        (case acc of
           [] \<Rightarrow> clean_parts rooted (if rooted then [] else [p]) ps
         | a # as \<Rightarrow> clean_parts rooted (if a = ''..'' then p # acc else as) ps)
      else clean_parts rooted (p # acc) ps)"

definition rooted_path :: "string \<Rightarrow> bool" where
  "rooted_path p = has_prefix p ''/''"

definition path_parts :: "string \<Rightarrow> string list" where
  "path_parts p = clean_parts (rooted_path p) [] (split_char slash p)"

definition path_of :: "bool \<Rightarrow> string list \<Rightarrow> string" where
  "path_of rooted ps =
     (if rooted then slash # join_str ''/'' ps else if ps = [] then ''.'' else join_str ''/'' ps)"

definition path_clean :: "string \<Rightarrow> string" where
  "path_clean p = path_of (rooted_path p) (path_parts p)"

definition path_join :: "string list \<Rightarrow> string" where
  "path_join es =
     (let ne = dropWhile (\<lambda>e. e = []) es in if ne = [] then [] else path_clean (join_str ''/'' ne))"

definition path_dir :: "string \<Rightarrow> string" where
  "path_dir p = path_clean (rev (dropWhile (\<lambda>c. c \<noteq> slash) (rev p)))"

text \<open>\<open>Abs\<close>, with the working directory (None when it is not known).\<close>

definition path_abs :: "string option \<Rightarrow> string \<Rightarrow> string option" where
  "path_abs cwd p =
     (if rooted_path p then Some (path_clean p) else map_option (\<lambda>d. path_join [d, p]) cwd)"

section \<open>config/config.go\<close>

record app_config =
  ac_data :: string
  ac_temp :: string

definition default_app_config :: app_config where
  "default_app_config =
     \<lparr>ac_data = ''/windows-m3u-stream-merger-proxy/data/'', ac_temp = ''/tmp/windows-m3u-stream-merger-proxy/''\<rparr>"

definition init_from_env :: "environ \<Rightarrow> app_config \<Rightarrow> app_config" where
  "init_from_env env c =
     (let d = trim_space (os_getenv env ''DATA_PATH''); t = trim_space (os_getenv env ''TEMP_PATH'')
      in \<lparr>ac_data = (if d = [] then ac_data c else d), ac_temp = (if t = [] then ac_temp c else t)\<rparr>)"

definition get_processed_dir_path :: "app_config \<Rightarrow> string" where
  "get_processed_dir_path c = path_join [ac_data c, ''processed/'']"

definition get_current_slug_dir_path :: "app_config \<Rightarrow> string" where
  "get_current_slug_dir_path c = path_join [ac_data c, ''slugs/'']"

definition get_new_slug_dir_path :: "app_config \<Rightarrow> string" where
  "get_new_slug_dir_path c = path_join [ac_data c, ''new-slugs/'']"

definition get_lock_file :: "app_config \<Rightarrow> string" where
  "get_lock_file c = path_join [ac_data c, ''.lock'']"

definition get_streams_dir_path :: "app_config \<Rightarrow> string" where
  "get_streams_dir_path c = path_join [ac_data c, ''streams/'']"

definition get_sources_dir_path :: "app_config \<Rightarrow> string" where
  "get_sources_dir_path c = path_join [ac_temp c, ''sources/'']"

definition get_sort_dir_path :: "app_config \<Rightarrow> string" where
  "get_sort_dir_path c = path_join [ac_temp c, ''sorter/'']"

definition get_m3u_file_path_by_index :: "app_config \<Rightarrow> string \<Rightarrow> string" where
  "get_m3u_file_path_by_index c i = path_join [get_sources_dir_path c, i @ ''.m3u'']"

definition get_all_m3u_file_paths :: "app_config \<Rightarrow> utils_state \<Rightarrow> string list" where
  "get_all_m3u_file_paths c us = map (get_m3u_file_path_by_index c) (get_m3u_indexes us)"

section \<open>utils/tvlogos.go\<close>

text \<open>The first candidate that is a directory; \<open>is_dir\<close> looks at the file system, \<open>exe\<close> and \<open>cwd\<close>
  are the path of the program and the working directory when they are known.\<close>

fun first_dir :: "(string \<Rightarrow> bool) \<Rightarrow> string option \<Rightarrow> string list \<Rightarrow> string list \<Rightarrow> string" where
  "first_dir is_dir cwd seen [] = []"
| "first_dir is_dir cwd seen (raw # cs) =
     (let cand = trim_space raw in
      if cand = [] then first_dir is_dir cwd seen cs
      else
        let p = (case path_abs cwd cand of None \<Rightarrow> cand | Some p \<Rightarrow> p) in
        if p \<in> set seen then first_dir is_dir cwd seen cs
        else if is_dir p then p else first_dir is_dir cwd (p # seen) cs)"

definition resolve_tv_logos_root_dir ::
  "string \<Rightarrow> environ \<Rightarrow> (string \<Rightarrow> bool) \<Rightarrow> string option \<Rightarrow> string option \<Rightarrow> string" where
  "resolve_tv_logos_root_dir override env is_dir exe cwd =
     (if trim_space override \<noteq> [] then override
      else
        let dir = trim_space (os_getenv env ''TV_LOGOS_DIR'') in
        if dir \<noteq> [] \<and> is_dir dir then dir
        else
          first_dir is_dir cwd []
            ((case exe of
                None \<Rightarrow> []
              | Some e \<Rightarrow> [path_join [path_dir e, ''tvlogos''], path_join [path_dir e, ''..'', ''tvlogos'']]) @
             (case cwd of None \<Rightarrow> [] | Some d \<Rightarrow> [path_join [d, ''tvlogos'']]) @
             [''tvlogos'', path_join [''..'', ''tvlogos'']]))"

section \<open>Clean paths\<close>

text \<open>A component that stands for a name.\<close>

definition plain_part :: "string \<Rightarrow> bool" where
  "plain_part p = (p \<noteq> [] \<and> p \<noteq> ''.'' \<and> p \<noteq> ''..'' \<and> slash \<notin> set p)"

lemma clean_parts_rooted:
  "list_all plain_part acc \<Longrightarrow> list_all (\<lambda>p. slash \<notin> set p) ps \<Longrightarrow> list_all plain_part (clean_parts True acc ps)"
proof (induction ps arbitrary: acc)
  case (Cons p ps)
  show ?case
  proof (cases acc)
    case Nil
    then show ?thesis using Cons by (auto simp: plain_part_def)
  next
    case (Cons a as)
    then show ?thesis using Cons.IH Cons.prems by (auto simp: plain_part_def)
  qed
qed simp

lemma clean_parts_plain: "list_all plain_part ps \<Longrightarrow> clean_parts rooted acc ps = rev acc @ ps"
  by (induction ps arbitrary: acc) (auto simp: plain_part_def)

lemma split_char_slash_free: "list_all (\<lambda>p. c \<notin> set p) (split_char c s)"
  by (auto simp: list_all_iff dest: split_char_free)

lemma path_parts_rooted: "rooted_path p \<Longrightarrow> list_all plain_part (path_parts p)"
  unfolding path_parts_def by (simp add: clean_parts_rooted split_char_slash_free)

lemma split_join: "list_all (\<lambda>p. c \<notin> set p) ps \<Longrightarrow> ps \<noteq> [] \<Longrightarrow> split_char c (join_str [c] ps) = ps"
proof (induction ps rule: induct_list012)
  case (2 p)
  then have "c \<notin> set p" by simp
  then show ?case by (induction p) auto
next
  case (3 p q ps)
  then show ?case by (simp add: split_char_append)
qed simp

lemma split_char_add: "split_char c (s @ c # r) = split_char c s @ split_char c r"
  by (induction s) (auto split: list.splits)

text \<open>The clean form of a rooted path: its components are names, and cleaning it changes
  nothing.\<close>

lemma path_clean_rooted: "rooted_path p \<Longrightarrow> path_clean p = slash # join_str ''/'' (path_parts p)"
  by (simp add: path_clean_def path_of_def)

lemma rooted_clean: "rooted_path p \<Longrightarrow> rooted_path (path_clean p)"
  by (simp add: path_clean_rooted rooted_path_def slash_def)

lemma plain_slash_free: "list_all plain_part ps \<Longrightarrow> list_all (\<lambda>p. slash \<notin> set p) ps"
  by (auto simp: list_all_iff plain_part_def)

lemma parts_of_clean:
  assumes "list_all plain_part ps"
  shows "path_parts (slash # join_str ''/'' ps) = ps"
proof (cases "ps = []")
  case True
  then show ?thesis by (simp add: path_parts_def slash_def)
next
  case False
  have "split_char slash (join_str [slash] ps) = ps" by (rule split_join [OF plain_slash_free [OF assms] False])
  then have "split_char slash (slash # join_str ''/'' ps) = [] # ps" by (simp add: slash_def)
  then show ?thesis using assms by (simp add: path_parts_def clean_parts_plain)
qed

lemma path_parts_clean: "rooted_path p \<Longrightarrow> path_parts (path_clean p) = path_parts p"
  by (simp add: path_clean_rooted parts_of_clean path_parts_rooted)

lemma path_clean_idem: "rooted_path p \<Longrightarrow> path_clean (path_clean p) = path_clean p"
  by (simp add: path_clean_rooted [OF rooted_clean] path_parts_clean) (simp add: path_clean_rooted)

text \<open>A clean path that starts with another one and a slash lies below it.\<close>

lemma below_clean:
  assumes p: "rooted_path p" and q: "rooted_path q"
    and below: "has_prefix (path_clean q) (path_clean p @ ''/'')"
  shows "\<exists>rel. path_parts q = path_parts p @ rel \<and> rel \<noteq> [] \<and> list_all plain_part rel"
proof -
  let ?ps = "path_parts p" and ?qs = "path_parts q"
  have plain: "list_all plain_part ?ps" "list_all plain_part ?qs" using p q path_parts_rooted by auto
  obtain rest where rest: "join_str ''/'' ?qs = join_str ''/'' ?ps @ slash # rest"
    using below p q by (auto simp: path_clean_rooted has_prefix_iff_prefix prefix_def slash_def)
  have qs: "?qs \<noteq> []" using rest by auto
  have ps: "?ps \<noteq> []"
  proof
    assume "?ps = []"
    then have "join_str ''/'' ?qs = slash # rest" using rest by simp
    moreover obtain x y where "?qs = x # y" using qs by (cases ?qs) auto
    ultimately show False using plain(2) by (cases y; cases x) (auto simp: plain_part_def)
  qed
  have "?qs = split_char slash (join_str [slash] ?qs)" using split_join [OF plain_slash_free [OF plain(2)] qs] by simp
  also have "\<dots> = split_char slash (join_str [slash] ?ps) @ split_char slash rest"
    using rest by (simp add: slash_def [symmetric] split_char_add)
  also have "split_char slash (join_str [slash] ?ps) = ?ps" by (rule split_join [OF plain_slash_free [OF plain(1)] ps])
  finally have "?qs = ?ps @ split_char slash rest" .
  then show ?thesis using plain(2) by (intro exI [of _ "split_char slash rest"]) (metis list_all_append split_char_nonempty)
qed

end
