(* ===== verification/Handlers.thy ===== *)
theory Handlers
  imports Paths GoUrl HttpMedia Base64
begin

text \<open>
  The handlers of the playlist (handlers/m3u_http.go), of passed-through URLs
  (passthrough_http.go) and of channel logos (tvlogos_http.go), and the routes of main.go. A
  handler returns its whole answer; a write to the client does not fail. Local files are a
  function from paths.
\<close>

record http_answer =
  an_status :: int
  an_header :: "(string \<times> string) list"
  an_body :: string

definition http_error :: "string \<Rightarrow> int \<Rightarrow> (string \<times> string) list \<Rightarrow> http_answer" where
  "http_error msg status h =
     \<lparr>an_status = status,
      an_header = h @ [(''Content-Type'', ''text/plain; charset=utf-8''), (''X-Content-Type-Options'', ''nosniff'')],
      an_body = msg @ newline\<rparr>"

text \<open>Opening a path: no such file, another error, a directory (with the size it reports), or a file
  that can be read.\<close>

datatype opened = NoFile | OpenError | IsDirectory nat | FileContent string

section \<open>handlers/m3u_http.go\<close>

text \<open>\<open>expired\<close> is the test of a date: None when it does not parse, otherwise whether it has
  passed.\<close>

definition parse_credentials :: "(string \<Rightarrow> bool option) \<Rightarrow> string \<Rightarrow> string list list" where
  "parse_credentials expired raw =
     List.map_filter (\<lambda>item.
         let cred = split_char (CHR '':'') item in
         if length cred = 3 then
           (case expired (cred ! 2) of None \<Rightarrow> None | Some True \<Rightarrow> None | Some False \<Rightarrow> Some (take 2 cred))
         else Some cred)
       (split_char (CHR ''|'') raw)"

text \<open>The search for a credential; None is the panic on one without a password.\<close>

fun check_credentials :: "string \<Rightarrow> string \<Rightarrow> string list list \<Rightarrow> bool option" where
  "check_credentials user pass [] = Some False"
| "check_credentials user pass (cred # creds) =
     (if equal_fold user (hd cred) then
        (if length cred < 2 then None
         else if equal_fold pass (cred ! 1) then Some True else check_credentials user pass creds)
      else check_credentials user pass creds)"

definition handle_auth :: "(string \<Rightarrow> bool option) \<Rightarrow> environ \<Rightarrow> string \<Rightarrow> bool option" where
  "handle_auth expired env query =
     (let c = os_getenv env ''CREDENTIALS''; user = query_get query ''username''; pass = query_get query ''password''
      in if c = [] \<or> to_lower c = ''none'' then Some True
         else if user = [] \<or> pass = [] then Some False
         else check_credentials user pass (parse_credentials expired c))"

definition is_extm3u_header_line :: "string \<Rightarrow> bool" where
  "is_extm3u_header_line line = has_prefix (trim_space (trim_prefix line bom)) ''#EXTM3U''"

text \<open>The playlist that is sent for a processed one: the first line is kept unless it is a header.\<close>

definition first_line :: "string \<Rightarrow> string" where
  "first_line body =
     takeWhile (\<lambda>c. c \<noteq> CHR 0x0A) body @ (if CHR 0x0A \<in> set body then newline else [])"

definition playlist_text :: "url_parser \<Rightarrow> environ \<Rightarrow> string \<Rightarrow> string" where
  "playlist_text parse env body =
     build_playlist_header_line parse env @
     (if first_line body \<noteq> [] \<and> \<not> is_extm3u_header_line (first_line body) then first_line body else []) @
     drop (length (first_line body)) body"

definition serve_playlist ::
  "url_parser \<Rightarrow> environ \<Rightarrow> string \<Rightarrow> opened \<Rightarrow> (string \<times> string) list \<Rightarrow> http_answer option" where
  "serve_playlist parse env meth file h =
     (let h1 = h @ [(''Content-Type'', ''text/plain; charset=utf-8'')] in
      case file of
        FileContent body \<Rightarrow>
          Some \<lparr>an_status = 200, an_header = h1,
                an_body = (if meth = ''HEAD'' then [] else playlist_text parse env body)\<rparr>
      | IsDirectory _ \<Rightarrow>
          (if meth = ''HEAD'' then Some \<lparr>an_status = 200, an_header = h1, an_body = []\<rparr> else None)
      | _ \<Rightarrow> None)"

text \<open>\<open>ServeHTTP\<close>; the outer option is the panic of \<open>handle_auth\<close>. \<open>path\<close> is \<open>processedPath\<close>.\<close>

definition serve_m3u ::
  "(string \<Rightarrow> bool option) \<Rightarrow> url_parser \<Rightarrow> environ \<Rightarrow> (string \<Rightarrow> opened) \<Rightarrow> string \<Rightarrow> string \<Rightarrow> string \<Rightarrow>
     http_answer option" where
  "serve_m3u expired parse env files path meth query =
     (let h = [(''Access-Control-Allow-Origin'', ''*'')] in
      map_option (\<lambda>authorized.
          if \<not> authorized then http_error ''Forbidden'' 403 h
          else if path = [] then http_error ''No processed M3U found.'' 404 h
          else
            (case serve_playlist parse env meth (files path) h of
               Some a \<Rightarrow> a
             | None \<Rightarrow> (if files path = NoFile then http_error ''No processed M3U found.'' 404 h
                        else http_error ''Could not serve processed M3U.'' 500 h)))
        (handle_auth expired env query))"

section \<open>Files\<close>

definition image_content_type :: "string \<Rightarrow> string" where
  "image_content_type path =
     (let e = to_lower (path_ext path) in
      if e = ''.png'' then ''image/png''
      else if e = ''.jpg'' \<or> e = ''.jpeg'' then ''image/jpeg''
      else if e = ''.gif'' then ''image/gif''
      else if e = ''.webp'' then ''image/webp''
      else ''application/octet-stream'')"

definition file_answer :: "string \<Rightarrow> nat \<Rightarrow> string \<Rightarrow> http_answer" where
  "file_answer path len body =
     \<lparr>an_status = 200,
      an_header = [(''Content-Type'', image_content_type path), (''Content-Length'', itoa (int len))],
      an_body = body\<rparr>"

section \<open>handlers/tvlogos_http.go\<close>

text \<open>The file a request is for: None when it is refused, with the answer's text and status.\<close>

definition tv_logo_path :: "string \<Rightarrow> string \<Rightarrow> (string \<times> int) + string" where
  "tv_logo_path rootdir url_path =
     (if \<not> has_prefix url_path ''/tvlogos/'' then Inl (''Invalid URL path: missing /tvlogos/'', 400)
      else if rootdir = [] then Inl (''TV logos directory is not configured'', 404)
      else
        let rel = trim_prefix url_path ''/tvlogos/'' in
        if rel = [] then Inl (''No logo path provided'', 400)
        else
          let clean = path_clean rel in
          if clean = ''.'' \<or> has_prefix clean ''../'' \<or> contains_str clean ''/../''
          then Inl (''Invalid logo path'', 400)
          else
            let file = path_join [rootdir, clean] in
            if path_clean file \<noteq> path_clean rootdir \<and> \<not> has_prefix (path_clean file) (path_clean rootdir @ ''/'')
            then Inl (''Invalid logo path'', 400) else Inr file)"

definition serve_tv_logo :: "string \<Rightarrow> (string \<Rightarrow> opened) \<Rightarrow> string \<Rightarrow> http_answer" where
  "serve_tv_logo rootdir files url_path =
     (case tv_logo_path rootdir url_path of
        Inl (msg, status) \<Rightarrow> http_error msg status []
      | Inr file \<Rightarrow>
          (case files file of
             NoFile \<Rightarrow> http_error ''Logo not found'' 404 []
           | OpenError \<Rightarrow> http_error ''Error opening logo file'' 500 []
           | IsDirectory _ \<Rightarrow> http_error ''Logo not found'' 404 []
           | FileContent body \<Rightarrow> file_answer file (length body) body))"

section \<open>handlers/passthrough_http.go\<close>

text \<open>The answer of the network to the request for the decoded URL: the request cannot be made, it
  fails, or a response.\<close>

datatype passed = BadRequest | NoResponse | Passed http_response

definition serve_passthrough_url ::
  "bool \<Rightarrow> url_parser \<Rightarrow> (string \<Rightarrow> opened) \<Rightarrow> (string \<Rightarrow> passed) \<Rightarrow> string \<Rightarrow> http_answer" where
  "serve_passthrough_url windows parse files fetch url_path =
     (if \<not> has_prefix url_path ''/a/'' then http_error ''Invalid URL provided'' 400 []
      else
        let encoded = drop 3 url_path in
        if encoded = [] then http_error ''No URL provided'' 400 []
        else
          (case b64_decode UrlAlphabet True encoded of
             None \<Rightarrow> http_error ''Failed to decode original URL'' 400 []
           | Some url \<Rightarrow>
               if has_prefix url ''file://'' then
                 (case file_url_to_path windows parse url of
                    None \<Rightarrow> http_error ''Error opening local file'' 400 []
                  | Some path \<Rightarrow>
                      (case files path of
                         FileContent body \<Rightarrow> file_answer path (length body) body
                       | IsDirectory n \<Rightarrow> file_answer path n []
                       | _ \<Rightarrow> http_error ''Error opening local file'' 404 []))
               else
                 (case fetch url of
                    BadRequest \<Rightarrow> http_error ''Error creating request'' 500 []
                  | NoResponse \<Rightarrow> http_error ''Error fetching the requested resource'' 502 []
                  | Passed r \<Rightarrow>
                      \<lparr>an_status = hr_status r, an_header = hr_header r, an_body = hr_body r\<rparr>)))"

section \<open>main.go\<close>

datatype main_route = PlaylistRoute | DiscoveryRoute | StreamRoute | PassRoute | LogoRoute | SegmentRoute | NotFound

text \<open>The patterns of the server: a pattern that ends in a slash stands for everything below it.\<close>

definition main_route_of :: "string \<Rightarrow> main_route" where
  "main_route_of p =
     (if p = ''/playlist.m3u'' then PlaylistRoute
      else if p = ''/api/discovery/sources'' then DiscoveryRoute
      else if has_prefix p ''/p/'' then StreamRoute
      else if has_prefix p ''/a/'' then PassRoute
      else if has_prefix p ''/tvlogos/'' then LogoRoute
      else if has_prefix p ''/segment/'' then SegmentRoute
      else NotFound)"

section \<open>Facts\<close>

lemma in_map_filter: "y \<in> set (List.map_filter f xs) \<longleftrightarrow> (\<exists>x \<in> set xs. f x = Some y)"
  by (induction xs) (auto simp: map_filter_simps split: option.splits)

text \<open>A request that passes the check matches an entry of the setting, which has not expired.\<close>

definition entry_grants :: "(string \<Rightarrow> bool option) \<Rightarrow> string \<Rightarrow> string \<Rightarrow> string \<Rightarrow> bool" where
  "entry_grants expired user pass item =
     (let cred = split_char (CHR '':'') item in
      length cred \<ge> 2 \<and> equal_fold user (cred ! 0) \<and> equal_fold pass (cred ! 1) \<and>
      (length cred = 3 \<longrightarrow> expired (cred ! 2) = Some False))"

lemma check_credentials_sound:
  "check_credentials user pass creds = Some True \<Longrightarrow>
     \<exists>cred \<in> set creds. length cred \<ge> 2 \<and> equal_fold user (hd cred) \<and> equal_fold pass (cred ! 1)"
  by (induction creds) (auto split: if_splits)

lemma auth_sound:
  assumes "handle_auth expired env query = Some True"
    and "os_getenv env ''CREDENTIALS'' \<noteq> []" and "to_lower (os_getenv env ''CREDENTIALS'') \<noteq> ''none''"
  shows "\<exists>item \<in> set (split_char (CHR ''|'') (os_getenv env ''CREDENTIALS'')).
    entry_grants expired (query_get query ''username'') (query_get query ''password'') item"
proof -
  let ?c = "os_getenv env ''CREDENTIALS''" and ?u = "query_get query ''username''" and ?p = "query_get query ''password''"
  have "check_credentials ?u ?p (parse_credentials expired ?c) = Some True"
    using assms by (auto simp: handle_auth_def Let_def split: if_splits)
  from check_credentials_sound [OF this] obtain cred where
    cred: "cred \<in> set (parse_credentials expired ?c)" "length cred \<ge> 2" "equal_fold ?u (hd cred)" "equal_fold ?p (cred ! 1)"
    by blast
  then obtain item where item: "item \<in> set (split_char (CHR ''|'') ?c)"
      "(if length (split_char (CHR '':'') item) = 3 then
           (case expired (split_char (CHR '':'') item ! 2) of
              None \<Rightarrow> None | Some True \<Rightarrow> None | Some False \<Rightarrow> Some (take 2 (split_char (CHR '':'') item)))
         else Some (split_char (CHR '':'') item)) = Some cred"
    unfolding parse_credentials_def Let_def in_map_filter by blast
  have "entry_grants expired ?u ?p item"
    using item(2) cred(2-4)
    by (auto simp: entry_grants_def Let_def hd_conv_nth split: if_splits option.splits bool.splits)
  then show ?thesis using item(1) by blast
qed

text \<open>An entry without a password lets the search for its user panic.\<close>

lemma bare_entry_panics:
  "equal_fold user (hd cred) \<Longrightarrow> length cred < 2 \<Longrightarrow> check_credentials user pass (cred # creds) = None"
  by simp

text \<open>The logo that is opened lies below the directory of the logos.\<close>

lemma path_join_two: "a \<noteq> [] \<Longrightarrow> path_join [a, b] = path_clean (a @ ''/'' @ b)"
  by (simp add: path_join_def)

lemma logo_below_root:
  assumes rootdir: "rooted_path rootdir" and path: "tv_logo_path rootdir url_path = Inr file"
  shows "file = path_clean rootdir \<or>
    (\<exists>rel. path_parts file = path_parts rootdir @ rel \<and> list_all plain_part rel)"
proof -
  have ne: "rootdir \<noteq> []" using rootdir by (auto simp: rooted_path_def)
  obtain clean where def: "file = path_join [rootdir, clean]"
    and guard: "path_clean file = path_clean rootdir \<or> has_prefix (path_clean file) (path_clean rootdir @ ''/'')"
    using path ne by (auto simp: tv_logo_path_def Let_def split: if_splits)
  have f: "file = path_clean (rootdir @ ''/'' @ clean)" using def ne by (simp add: path_join_two)
  have rooted: "rooted_path (rootdir @ ''/'' @ clean)"
    using rootdir ne by (cases rootdir) (auto simp: rooted_path_def)
  then have rf: "rooted_path file" "path_clean file = file" using f rooted_clean path_clean_idem by simp_all
  show ?thesis
    using guard below_clean [OF rootdir rf(1)] rf(2) by auto
qed

end
