(* ===== verification/Discovery.thy ===== *)
theory Discovery
  imports HttpMedia
begin

text \<open>
  The discovery of playlists on web sites, discovery/manager.go: the jobs of the environment,
  the crawler's decisions (which links it keeps, which of them are playlists), and the manager,
  which publishes what the jobs have found as dynamic sources. The crawling engine, the parsers
  of JSON, XML and robots.txt, SHA-1, the regular expressions and net/url are parameters
  (\<open>discovery_lib\<close>, \<open>crawl_ops\<close>).
\<close>

section \<open>Jobs\<close>

record job =
  jb_id :: string
  jb_name :: string
  jb_start_url :: string
  jb_scan_interval :: int
  jb_recursive :: bool
  jb_max_depth :: int
  jb_max_pages :: int
  jb_include_subdomains :: bool
  jb_follow_robots :: bool
  jb_source_concurrency :: int
  jb_enabled :: bool

record source_override =
  so_index :: string
  so_name :: string
  so_enabled :: bool

text \<open>\<open>json.Unmarshal\<close> into a value that holds the defaults; \<open>html.UnescapeString\<close>; the first four
  bytes of a SHA-1 in hexadecimal; the matches of the two patterns.\<close>

record discovery_lib =
  dl_job :: "job \<Rightarrow> string \<Rightarrow> job option"
  dl_override :: "source_override \<Rightarrow> string \<Rightarrow> source_override option"
  dl_sha1 :: "string \<Rightarrow> string"
  dl_html :: "string \<Rightarrow> string"
  dl_embedded :: "string \<Rightarrow> string list"
  dl_quoted :: "string \<Rightarrow> string list"

definition normalize_job :: "job \<Rightarrow> int \<Rightarrow> job" where
  "normalize_job j index =
     (let i = trim_space (jb_id j); name = trim_space (jb_name j) in
      j\<lparr>jb_id := (if i = [] then itoa index else i),
        jb_name := (if name = [] then ''Web Discovery '' @ itoa index else name),
        jb_start_url := trim_space (jb_start_url j),
        jb_scan_interval := (if jb_scan_interval j < 1 then 60 else jb_scan_interval j),
        jb_max_depth := (if \<not> jb_recursive j then 0 else if jb_max_depth j < 0 then 6 else jb_max_depth j),
        jb_max_pages := (if jb_max_pages j < 1 then 500 else jb_max_pages j),
        jb_source_concurrency := (if jb_source_concurrency j < 1 then 1 else jb_source_concurrency j)\<rparr>)"

definition default_job :: job where
  "default_job =
     \<lparr>jb_id = [], jb_name = [], jb_start_url = [], jb_scan_interval = 0, jb_recursive = True,
      jb_max_depth = 0, jb_max_pages = 0, jb_include_subdomains = False, jb_follow_robots = True,
      jb_source_concurrency = 0, jb_enabled = True\<rparr>"

text \<open>\<open>LoadJobsFromEnv\<close>: Inl is the number of the job that does not parse.\<close>

fun load_jobs :: "discovery_lib \<Rightarrow> int \<Rightarrow> string list \<Rightarrow> int + job list" where
  "load_jobs lib n [] = Inr []"
| "load_jobs lib n (raw # raws) =
     (let payload = trim_space raw in
      if payload = [] then load_jobs lib (n + 1) raws
      else
        (case dl_job lib default_job payload of
           None \<Rightarrow> Inl n
         | Some j0 \<Rightarrow>
             (case load_jobs lib (n + 1) raws of
                Inl e \<Rightarrow> Inl e
              | Inr js \<Rightarrow>
                  let j = normalize_job j0 n in
                  Inr (if \<not> jb_enabled j \<or> jb_start_url j = [] then js else j # js))))"

definition load_jobs_from_env :: "discovery_lib \<Rightarrow> utils_state \<Rightarrow> (int + job list) \<times> utils_state" where
  "load_jobs_from_env lib us = (let (raws, us1) = get_filters ''DISCOVERY_JOB'' us in (load_jobs lib 1 raws, us1))"

definition default_override :: source_override where
  "default_override = \<lparr>so_index = [], so_name = [], so_enabled = True\<rparr>"

definition add_override ::
  "discovery_lib \<Rightarrow> string \<Rightarrow> (string \<times> source_override) list \<Rightarrow> (string \<times> source_override) list" where
  "add_override lib raw os =
     (let payload = trim_space raw in
      if payload = [] then os
      else
        (case dl_override lib default_override payload of
           None \<Rightarrow> os
         | Some ov \<Rightarrow>
             let i = trim_space (so_index ov) in
             if i = [] then os
             else AList.update i (ov\<lparr>so_index := i, so_name := trim_space (so_name ov)\<rparr>) os))"

definition load_source_overrides_from_env ::
  "discovery_lib \<Rightarrow> utils_state \<Rightarrow> (string \<times> source_override) list \<times> utils_state" where
  "load_source_overrides_from_env lib us =
     (let (raws, us1) = get_filters ''DISCOVERED_SOURCE_CONFIG'' us in (fold (add_override lib) raws [], us1))"

section \<open>The manager\<close>

text \<open>\<open>dm_running\<close> are the ids of the jobs whose loop runs, \<open>dm_rebuilds\<close> counts the calls of
  \<open>onSourcesChanged\<close>.\<close>

record manager =
  dm_jobs :: "job list"
  dm_sources :: "string \<Rightarrow> source_config list option"
  dm_hash :: "string \<Rightarrow> string option"
  dm_overrides :: "(string \<times> source_override) list"
  dm_running :: "string set"
  dm_rebuilds :: nat

definition has_jobs :: "manager \<Rightarrow> bool" where
  "has_jobs m = (length (dm_jobs m) > 0)"

definition discovered_source_index_belongs_to_active_jobs :: "string \<Rightarrow> string set \<Rightarrow> bool" where
  "discovered_source_index_belongs_to_active_jobs raw active =
     (let index = trim_space raw in
      if \<not> has_prefix (to_upper index) ''DISC_'' then True
      else
        let parts = split_char (CHR ''_'') index in
        if length parts < 3 then False else to_upper (trim_space (parts ! 1)) \<in> active)"

definition prune_stale_job_data :: "manager \<Rightarrow> manager" where
  "prune_stale_job_data m =
     (let active = set (map jb_id (dm_jobs m));
          upper = set (map (\<lambda>j. to_upper (trim_space (jb_id j))) (dm_jobs m))
      in m\<lparr>dm_sources := (\<lambda>i. if i \<in> active then dm_sources m i else None),
           dm_hash := (\<lambda>i. if i \<in> active then dm_hash m i else None),
           dm_overrides :=
             filter (\<lambda>kv. discovered_source_index_belongs_to_active_jobs (fst kv) upper) (dm_overrides m)\<rparr>)"

definition sources_of_job :: "manager \<Rightarrow> string \<Rightarrow> source_config list" where
  "sources_of_job m i = (case dm_sources m i of None \<Rightarrow> [] | Some ss \<Rightarrow> ss)"

text \<open>The source as it is published (None when it is disabled).\<close>

definition published_source :: "manager \<Rightarrow> job \<Rightarrow> source_config \<Rightarrow> source_config option" where
  "published_source m j s =
     (let ov = map_of (dm_overrides m) (sc_index s) in
      if (case ov of None \<Rightarrow> False | Some v \<Rightarrow> \<not> so_enabled v) then None
      else
        let s1 = (case ov of None \<Rightarrow> s | Some v \<Rightarrow> if so_name v \<noteq> [] then s\<lparr>sc_name := so_name v\<rparr> else s)
        in Some (if trim_space (sc_group s1) = [] then s1\<lparr>sc_group := jb_name j\<rparr> else s1))"

definition combined_sources :: "manager \<Rightarrow> source_config list" where
  "combined_sources m =
     concat (map (\<lambda>j. List.map_filter (published_source m j) (sources_of_job m (jb_id j))) (dm_jobs m))"

definition publish_dynamic_sources ::
  "discovery_lib \<Rightarrow> manager \<times> utils_state \<Rightarrow> manager \<times> utils_state" where
  "publish_dynamic_sources lib = (\<lambda>(m, us).
     let (os, us1) = load_source_overrides_from_env lib us;
         m1 = prune_stale_job_data (m\<lparr>dm_overrides := os\<rparr>)
     in (m1, set_dynamic_sources (combined_sources m1) us1))"

definition build_dynamic_source_index :: "discovery_lib \<Rightarrow> job \<Rightarrow> string \<Rightarrow> string" where
  "build_dynamic_source_index lib j url =
     ''DISC_'' @ to_upper (jb_id j) @ ''_'' @ to_upper (dl_sha1 lib (to_lower (trim_space url)))"

definition fingerprint_urls :: "string list \<Rightarrow> string" where
  "fingerprint_urls urls = (if urls = [] then [] else join_str newline (sort urls))"

definition found_source :: "discovery_lib \<Rightarrow> manager \<Rightarrow> job \<Rightarrow> string \<Rightarrow> source_config" where
  "found_source lib m j url =
     (let i = build_dynamic_source_index lib j url in
      \<lparr>sc_index = i, sc_url = url,
       sc_name = (case map_of (dm_overrides m) i of None \<Rightarrow> [] | Some ov \<Rightarrow> so_name ov),
       sc_group = jb_name j, sc_max_concurrency = jb_source_concurrency j, sc_contains_vod = True\<rparr>)"

text \<open>\<open>refreshJob\<close>, for what the crawler finds (None: it fails): None is an error, otherwise whether
  the sources have changed.\<close>

definition refresh_job ::
  "discovery_lib \<Rightarrow> job \<Rightarrow> string list option \<Rightarrow> manager \<times> utils_state \<Rightarrow> bool option \<times> manager \<times> utils_state" where
  "refresh_job lib j found = (\<lambda>(m, us).
     (case found of
        None \<Rightarrow> (None, m, us)
      | Some urls \<Rightarrow>
          let sources = sort_by (\<lambda>a b. sc_index a < sc_index b) (map (found_source lib m j) urls);
              hash = fingerprint_urls urls
          in if (case dm_hash m (jb_id j) of None \<Rightarrow> [] | Some h \<Rightarrow> h) = hash then (Some False, m, us)
             else (Some True,
                   publish_dynamic_sources lib
                     (m\<lparr>dm_hash := (dm_hash m)(jb_id j \<mapsto> hash),
                        dm_sources := (dm_sources m)(jb_id j \<mapsto> sources)\<rparr>, us))))"

text \<open>\<open>discover j\<close> is what the crawler of a job finds.\<close>

fun refresh_jobs ::
  "discovery_lib \<Rightarrow> (job \<Rightarrow> string list option) \<Rightarrow> job list \<Rightarrow> bool \<Rightarrow> manager \<times> utils_state \<Rightarrow>
     bool \<times> manager \<times> utils_state" where
  "refresh_jobs lib discover [] changed st = (changed, st)"
| "refresh_jobs lib discover (j # js) changed st =
     (case refresh_job lib j (discover j) st of
        (Some True, st1) \<Rightarrow> refresh_jobs lib discover js True st1
      | (_, st1) \<Rightarrow> refresh_jobs lib discover js changed st1)"

definition refresh_all ::
  "discovery_lib \<Rightarrow> (job \<Rightarrow> string list option) \<Rightarrow> bool \<Rightarrow> manager \<times> utils_state \<Rightarrow> manager \<times> utils_state" where
  "refresh_all lib discover trigger st =
     (case refresh_jobs lib discover (dm_jobs (fst st)) False st of
        (changed, m, us) \<Rightarrow> (if changed \<and> trigger then m\<lparr>dm_rebuilds := Suc (dm_rebuilds m)\<rparr> else m, us))"

definition start_job_loops :: "job list \<Rightarrow> manager \<Rightarrow> manager" where
  "start_job_loops jobs m =
     (let active = set (map jb_id jobs) in m\<lparr>dm_running := (dm_running m \<union> active) \<inter> active\<rparr>)"

text \<open>One tick of a job's loop.\<close>

definition job_tick ::
  "discovery_lib \<Rightarrow> job \<Rightarrow> string list option \<Rightarrow> manager \<times> utils_state \<Rightarrow> manager \<times> utils_state" where
  "job_tick lib j found st =
     (case refresh_job lib j found st of
        (Some True, m, us) \<Rightarrow> (m\<lparr>dm_rebuilds := Suc (dm_rebuilds m)\<rparr>, us)
      | (_, st1) \<Rightarrow> st1)"

text \<open>\<open>Initialize\<close>: Inl is the number of the job that does not parse.\<close>

definition initialize_discovery ::
  "discovery_lib \<Rightarrow> (job \<Rightarrow> string list option) \<Rightarrow> utils_state \<Rightarrow> int + (manager \<times> utils_state)" where
  "initialize_discovery lib discover us =
     (case load_jobs_from_env lib us of
        (Inl n, us1) \<Rightarrow> Inl n
      | (Inr jobs, us1) \<Rightarrow>
          let (os, us2) = load_source_overrides_from_env lib us1;
              m = \<lparr>dm_jobs = jobs, dm_sources = (\<lambda>_. None), dm_hash = (\<lambda>_. None), dm_overrides = os,
                   dm_running = {}, dm_rebuilds = 0\<rparr>;
              us3 = set_dynamic_sources [] us2
          in Inr (if jobs = [] then publish_dynamic_sources lib (prune_stale_job_data m, us3)
                  else
                    let (m1, us4) = refresh_all lib discover True (m, us3)
                    in (start_job_loops jobs m1, us4)))"

text \<open>\<open>GetDiscoveredSources\<close>.\<close>

record discovered_source =
  ds_index :: string
  ds_url :: string
  ds_job_id :: string
  ds_job_name :: string
  ds_enabled :: bool

definition get_discovered_sources :: "manager \<Rightarrow> discovered_source list" where
  "get_discovered_sources m =
     concat (map (\<lambda>j. map (\<lambda>s.
         \<lparr>ds_index = sc_index s, ds_url = sc_url s, ds_job_id = jb_id j, ds_job_name = jb_name j,
          ds_enabled = (case map_of (dm_overrides m) (sc_index s) of None \<Rightarrow> True | Some ov \<Rightarrow> so_enabled ov)\<rparr>)
       (sources_of_job m (jb_id j))) (dm_jobs m))"

text \<open>handlers/discovery_http.go; \<open>encode\<close> is the JSON encoder.\<close>

definition serve_discovery ::
  "(discovered_source list \<Rightarrow> string) \<Rightarrow> string \<Rightarrow> manager \<Rightarrow> int \<times> string" where
  "serve_discovery encode meth m =
     (if meth \<noteq> ''GET'' then (405, ''Method not allowed'' @ newline)
      else (200, encode (get_discovered_sources m)))"

section \<open>The crawler\<close>

text \<open>The parser of net/url (None: error), the parts of a URL, its escaped path, the URL without
  fragment, the URL of the same host with a path, \<open>ResolveReference\<close> and \<open>String\<close>.\<close>

record 'u crawl_ops =
  co_parse :: "string \<Rightarrow> 'u option"
  co_parts :: "'u \<Rightarrow> url_parts"
  co_escaped_path :: "'u \<Rightarrow> string"
  co_no_fragment :: "'u \<Rightarrow> 'u"
  co_at_host :: "'u \<Rightarrow> string \<Rightarrow> string"
  co_resolve_ref :: "'u \<Rightarrow> 'u \<Rightarrow> 'u"
  co_text :: "'u \<Rightarrow> string"

text \<open>\<open>cr_robots\<close>: the sitemaps and the test of a path, when there is a robots.txt that parses.\<close>

record 'u crawler =
  cr_job :: job
  cr_root :: 'u
  cr_robots :: "(string list \<times> (string \<Rightarrow> bool)) option"

record document =
  dc_final_url :: string
  dc_status :: int
  dc_body :: string

definition max_validation_bytes :: nat where "max_validation_bytes = 1048576"

definition is_web :: "'u crawl_ops \<Rightarrow> 'u \<Rightarrow> bool" where
  "is_web ops u = (u_scheme (co_parts ops u) = ''http'' \<or> u_scheme (co_parts ops u) = ''https'')"

definition new_crawler :: "'u crawl_ops \<Rightarrow> job \<Rightarrow> 'u crawler option" where
  "new_crawler ops j =
     (if trim_space (jb_start_url j) = [] then None
      else
        (case co_parse ops (jb_start_url j) of
           None \<Rightarrow> None
         | Some u \<Rightarrow> if is_web ops u then Some \<lparr>cr_job = j, cr_root = u, cr_robots = None\<rparr> else None))"

text \<open>\<open>readBody\<close>: at most \<open>limit\<close> bytes; an error within the first \<open>limit + 1\<close> bytes (the boolean is
  its absence) is one of the result.\<close>

definition read_body :: "string \<times> bool \<Rightarrow> nat \<Rightarrow> string option" where
  "read_body r limit =
     (if length (fst r) \<le> limit \<and> \<not> snd r then None else Some (take limit (fst r)))"

text \<open>\<open>fetch\<close> answers a request: final URL, status, and the body with the absence of an error.\<close>

definition fetch_document ::
  "(string \<Rightarrow> (string \<times> int \<times> string \<times> bool) option) \<Rightarrow> string \<Rightarrow> nat \<Rightarrow> document option" where
  "fetch_document fetch url limit =
     (case fetch url of
        None \<Rightarrow> None
      | Some (final, status, body) \<Rightarrow>
          map_option (\<lambda>b. \<lparr>dc_final_url = final, dc_status = status, dc_body = b\<rparr>) (read_body body limit))"

text \<open>\<open>parse_robots\<close> is the parser of robots.txt for the status and the body.\<close>

definition load_robots ::
  "'u crawl_ops \<Rightarrow> (string \<Rightarrow> (string \<times> int \<times> string \<times> bool) option) \<Rightarrow>
     (int \<Rightarrow> string \<Rightarrow> (string list \<times> (string \<Rightarrow> bool)) option) \<Rightarrow> 'u crawler \<Rightarrow> 'u crawler" where
  "load_robots ops fetch parse_robots c =
     (case fetch_document fetch (co_at_host ops (cr_root c) ''/robots.txt'') max_validation_bytes of
        None \<Rightarrow> c
      | Some d \<Rightarrow>
          if dc_status d = 404 then c
          else (case parse_robots (dc_status d) (dc_body d) of
                  None \<Rightarrow> c | Some r \<Rightarrow> c\<lparr>cr_robots := Some r\<rparr>))"

definition add_unique :: "string \<Rightarrow> string list \<Rightarrow> string list" where
  "add_unique raw q = (let v = trim_space raw in if v = [] \<or> v \<in> set q then q else q @ [v])"

definition initial_sitemap_queue :: "'u crawl_ops \<Rightarrow> 'u crawler \<Rightarrow> string list" where
  "initial_sitemap_queue ops c =
     fold add_unique
       ((case cr_robots c of None \<Rightarrow> [] | Some r \<Rightarrow> fst r) @ [co_at_host ops (cr_root c) ''/sitemap.xml'']) []"

text \<open>The tokens of a sitemap as the loop sees them: an element with its name and its text (None
  when it does not decode), anything else, an error.\<close>

datatype sitemap_token = SitemapElement string "string option" | SitemapOther | SitemapError

fun extract_sitemap_locs :: "sitemap_token list \<Rightarrow> string list option" where
  "extract_sitemap_locs [] = Some []"
| "extract_sitemap_locs (SitemapOther # ts) = extract_sitemap_locs ts"
| "extract_sitemap_locs (SitemapError # ts) = None"
| "extract_sitemap_locs (SitemapElement name text # ts) =
     (if \<not> equal_fold name ''loc'' then extract_sitemap_locs ts
      else
        (case text of
           None \<Rightarrow> None
         | Some v \<Rightarrow>
             map_option (\<lambda>locs. if trim_space v = [] then locs else trim_space v # locs)
               (extract_sitemap_locs ts)))"

definition fetch_sitemap_urls ::
  "(string \<Rightarrow> (string \<times> int \<times> string \<times> bool) option) \<Rightarrow> (string \<Rightarrow> sitemap_token list) \<Rightarrow> string \<Rightarrow>
     string list option" where
  "fetch_sitemap_urls fetch tokens url =
     (case fetch_document fetch url max_validation_bytes of
        None \<Rightarrow> None
      | Some d \<Rightarrow>
          if dc_status d \<noteq> 200 then None
          else map_option (\<lambda>locs. filter (\<lambda>l. l \<noteq> []) (map trim_space locs)) (extract_sitemap_locs (tokens (dc_body d))))"

definition validate_playlist ::
  "(string \<Rightarrow> (string \<times> int \<times> string \<times> bool) option) \<Rightarrow> (string \<times> string) list \<Rightarrow> string \<Rightarrow>
     string option \<times> (string \<times> string) list" where
  "validate_playlist fetch cache url =
     (case map_of cache url of
        Some final \<Rightarrow> (if final \<noteq> [] then Some final else None, cache)
      | None \<Rightarrow>
          (case fetch_document fetch url max_validation_bytes of
             None \<Rightarrow> (None, AList.update url [] cache)
           | Some d \<Rightarrow>
               if dc_status d \<noteq> 200 \<or> \<not> is_m3u_content (dc_body d) then (None, AList.update url [] cache)
               else (Some (dc_final_url d), AList.update url (dc_final_url d) cache)))"

definition normalize_url :: "'u crawl_ops \<Rightarrow> string \<Rightarrow> string \<Rightarrow> string option" where
  "normalize_url ops base_url raw =
     (let t = trim_space raw; low = to_lower t in
      if t = [] \<or> has_prefix t ''#'' \<or> has_prefix low ''javascript:'' \<or> has_prefix low ''mailto:'' then None
      else
        (case (co_parse ops base_url, co_parse ops t) of
           (Some base, Some ref) \<Rightarrow>
             (let u = co_no_fragment ops (co_resolve_ref ops base ref)
              in if is_web ops u then Some (co_text ops u) else None)
         | _ \<Rightarrow> None))"

definition should_visit_url :: "'u crawl_ops \<Rightarrow> 'u crawler \<Rightarrow> string \<Rightarrow> bool" where
  "should_visit_url ops c url =
     (case co_parse ops url of
        None \<Rightarrow> False
      | Some u \<Rightarrow>
          let root_host = to_lower (hostname_of (u_host (co_parts ops (cr_root c))));
              host = to_lower (hostname_of (u_host (co_parts ops u)));
              query = u_raw_query (co_parts ops u);
              p = (if co_escaped_path ops u = [] then ''/'' else co_escaped_path ops u)
          in is_web ops u \<and> host \<noteq> [] \<and>
             (host = root_host \<or> (jb_include_subdomains (cr_job c) \<and> has_suffix host (''.'' @ root_host))) \<and>
             (case cr_robots c of
                None \<Rightarrow> True
              | Some r \<Rightarrow> jb_follow_robots (cr_job c) \<longrightarrow> snd r (if query = [] then p else p @ ''?'' @ query)))"

definition is_candidate_playlist_url :: "'u crawl_ops \<Rightarrow> string \<Rightarrow> bool" where
  "is_candidate_playlist_url ops url =
     (case co_parse ops url of
        None \<Rightarrow> False
      | Some u \<Rightarrow>
          let ext = to_lower (path_ext (u_path (co_parts ops u))); q = to_lower (u_raw_query (co_parts ops u)) in
          if ext = ''.m3u'' \<or> ext = ''.m3u8'' then True
          else if q = [] then False
          else contains_str q ''.m3u'' \<or> contains_str q ''.m3u8'')"

text \<open>The candidates, in the order in which they are found; the code keeps them in a map.\<close>

definition add_candidate :: "'u crawl_ops \<Rightarrow> 'u crawler \<Rightarrow> string \<Rightarrow> string list \<Rightarrow> string list" where
  "add_candidate ops c raw cands =
     (if trim_space raw = [] then cands
      else
        (case normalize_url ops (co_text ops (cr_root c)) raw of
           None \<Rightarrow> cands
         | Some u \<Rightarrow>
             if \<not> is_candidate_playlist_url ops u \<and> \<not> should_visit_url ops c u then cands
             else if int (length cands) \<ge> jb_max_pages (cr_job c) then cands
             else if u \<in> set cands then cands
             else cands @ [u]))"

section \<open>Links inside a page\<close>

definition unescape_slashes :: "string \<Rightarrow> string" where
  "unescape_slashes s = replace_pairs [(backslash @ ''/'', ''/'')] s"

definition trim_cutset :: "string" where
  "trim_cutset = dquote @ [CHR 0x27, CHR 0x60] @ ''()[]{}<>,''"

definition normalize_embedded_playlist_url :: "discovery_lib \<Rightarrow> 'u crawl_ops \<Rightarrow> string \<Rightarrow> string \<Rightarrow> string option" where
  "normalize_embedded_playlist_url lib ops base_url cand =
     (if trim_space cand = [] then None
      else
        let v = trim_by (\<lambda>c. c \<in> set trim_cutset) (unescape_slashes (dl_html lib (trim_space cand))) in
        if v = [] \<or> has_prefix (to_lower v) ''javascript:'' \<or> \<not> contains_str (to_lower v) ''.m3u'' then None
        else
          let w = (case query_unescape v of None \<Rightarrow> v | Some u \<Rightarrow> u) in
          (case (if has_prefix w ''//'' then
                   (case co_parse ops base_url of
                      None \<Rightarrow> None
                    | Some b \<Rightarrow> if u_scheme (co_parts ops b) = [] then None
                                else Some (u_scheme (co_parts ops b) @ '':'' @ w))
                 else Some w) of
             None \<Rightarrow> None
           | Some x \<Rightarrow>
               (case co_parse ops x of
                  None \<Rightarrow> None
                | Some u \<Rightarrow>
                    if is_web ops u then Some (co_text ops (co_no_fragment ops u))
                    else
                      (case co_parse ops base_url of
                         None \<Rightarrow> None
                       | Some b \<Rightarrow>
                           (let r = co_no_fragment ops (co_resolve_ref ops b u)
                            in if is_web ops r then Some (co_text ops r) else None)))))"

definition unicode_slash :: string where "unicode_slash = backslash @ ''u002F''"
definition hex_slash :: string where "hex_slash = backslash @ ''x2F''"

definition link_variants :: "discovery_lib \<Rightarrow> string \<Rightarrow> string list" where
  "link_variants lib v =
     (let h = dl_html lib v; rep = (\<lambda>p. replace_pairs [(p, ''/'')]) in
      [v, h, unescape_slashes v, unescape_slashes h, rep unicode_slash v, rep hex_slash v,
       rep unicode_slash h, rep hex_slash h])"

text \<open>The values that are candidates for a link, in order.\<close>

definition variant_values :: "discovery_lib \<Rightarrow> string \<Rightarrow> string list" where
  "variant_values lib v =
     (if contains_str (to_lower v) ''.m3u'' then dl_embedded lib v @ [v] else []) @
     filter (\<lambda>m. contains_str (to_lower m) ''.m3u'') (dl_quoted lib v)"

definition collect_values :: "discovery_lib \<Rightarrow> string \<Rightarrow> string list" where
  "collect_values lib v =
     (if trim_space v = [] then [] else concat (map (variant_values lib) (link_variants lib v)))"

definition extract_embedded_playlist_urls ::
  "discovery_lib \<Rightarrow> 'u crawl_ops \<Rightarrow> string \<Rightarrow> string \<Rightarrow> string list" where
  "extract_embedded_playlist_urls lib ops base_url raw =
     (let query = (case co_parse ops raw of None \<Rightarrow> [] | Some u \<Rightarrow> u_raw_query (co_parts ops u));
          items = map snd (parse_query query);
          values = collect_values lib raw @
            concat (map (\<lambda>i. collect_values lib i @
                (case query_unescape i of None \<Rightarrow> [] | Some d \<Rightarrow> collect_values lib d)) items)
      in fold (\<lambda>v out. case normalize_embedded_playlist_url lib ops base_url v of
                None \<Rightarrow> out | Some u \<Rightarrow> add_unique u out) values [])"

section \<open>A scan\<close>

text \<open>One result of the engine: the URL of the request, the URL that answered, and when there is a
  response its body and the URLs of the requests its scripts made.\<close>

record crawl_result =
  cw_request :: string
  cw_base :: string
  cw_response :: "(string \<times> string list) option"

definition result_links :: "discovery_lib \<Rightarrow> 'u crawl_ops \<Rightarrow> crawl_result \<Rightarrow> string list" where
  "result_links lib ops r =
     cw_base r # extract_embedded_playlist_urls lib ops (cw_base r) (cw_request r) @
     (case cw_response r of
        None \<Rightarrow> []
      | Some (body, xhrs) \<Rightarrow>
          extract_embedded_playlist_urls lib ops (cw_base r) body @
          concat (map (\<lambda>x. x # extract_embedded_playlist_urls lib ops (cw_base r) x) xhrs))"

fun dedupe_from :: "string \<Rightarrow> string list \<Rightarrow> string list" where
  "dedupe_from prev [] = []"
| "dedupe_from prev (v # vs) = (if v = prev then dedupe_from prev vs else v # dedupe_from v vs)"

definition dedupe :: "string list \<Rightarrow> string list" where
  "dedupe vs = (case vs of [] \<Rightarrow> [] | v # r \<Rightarrow> v # dedupe_from v r)"

fun validate_all ::
  "(string \<Rightarrow> (string \<times> int \<times> string \<times> bool) option) \<Rightarrow> (string \<times> string) list \<Rightarrow> string list \<Rightarrow> string list" where
  "validate_all fetch cache [] = []"
| "validate_all fetch cache (u # us) =
     (case validate_playlist fetch cache u of
        (Some final, cache1) \<Rightarrow> final # validate_all fetch cache1 us
      | (None, cache1) \<Rightarrow> validate_all fetch cache1 us)"

record crawl_world =
  cw_fetch :: "string \<Rightarrow> (string \<times> int \<times> string \<times> bool) option"
  cw_parse_robots :: "int \<Rightarrow> string \<Rightarrow> (string list \<times> (string \<Rightarrow> bool)) option"
  cw_tokens :: "string \<Rightarrow> sitemap_token list"
  cw_crawl :: "crawl_result list option"

text \<open>The candidates of a scan, and \<open>Discover\<close>; \<open>cw_crawl\<close> is what the engine reports (None: it
  fails), \<open>order\<close> is the order in which the range over the candidates visits them.\<close>

definition sitemap_links :: "'u crawl_ops \<Rightarrow> crawl_world \<Rightarrow> 'u crawler \<Rightarrow> string list" where
  "sitemap_links ops w c =
     concat (map (\<lambda>u. case fetch_sitemap_urls (cw_fetch w) (cw_tokens w) u of None \<Rightarrow> [] | Some ls \<Rightarrow> ls)
       (initial_sitemap_queue ops c))"

definition candidates_of :: "discovery_lib \<Rightarrow> 'u crawl_ops \<Rightarrow> crawl_world \<Rightarrow> 'u crawler \<Rightarrow> crawl_result list \<Rightarrow> string list" where
  "candidates_of lib ops w c results =
     fold (add_candidate ops c) (sitemap_links ops w c @ concat (map (result_links lib ops) results)) []"

definition discover_playlists ::
  "discovery_lib \<Rightarrow> 'u crawl_ops \<Rightarrow> crawl_world \<Rightarrow> (string list \<Rightarrow> string list) \<Rightarrow> 'u crawler \<Rightarrow>
     string list option" where
  "discover_playlists lib ops w order c0 =
     (let c = (if jb_follow_robots (cr_job c0)
               then load_robots ops (cw_fetch w) (cw_parse_robots w) c0 else c0)
      in map_option (\<lambda>results.
           dedupe (sort (validate_all (cw_fetch w) [] (order (candidates_of lib ops w c results)))))
         (cw_crawl w))"

text \<open>The crawl of a job, as \<open>refreshJob\<close> uses it.\<close>

definition scan_job ::
  "discovery_lib \<Rightarrow> 'u crawl_ops \<Rightarrow> crawl_world \<Rightarrow> (string list \<Rightarrow> string list) \<Rightarrow> job \<Rightarrow> string list option" where
  "scan_job lib ops w order j =
     (case new_crawler ops j of None \<Rightarrow> None | Some c \<Rightarrow> discover_playlists lib ops w order c)"

end
