(* ===== verification/Updater.thy ===== *)
theory Updater
  imports Processor Handlers Discovery
begin

text \<open>
  An update from its start to the playlist that is served: the run of the processor
  (\<open>NewProcessor\<close>, \<open>Start\<close>, \<open>Run\<close> and \<open>processStreams\<close> of sourceproc/processor.go), and
  updater/updater.go. The sources are downloaded and parsed concurrently; the model takes them
  one after the other in an order of the world (\<open>uw_sources\<close>), and lets the entries reach the
  sorter in another one (\<open>uw_arrival\<close>).
\<close>

section \<open>The run\<close>

record update_world =
  uw_local :: "string \<Rightarrow> string option"
  uw_fetch :: "string \<Rightarrow> fetch_result"
  uw_can_create :: "string \<Rightarrow> bool"
  uw_sources :: "source_config list \<Rightarrow> source_config list"
  uw_arrival :: "stream_info list \<Rightarrow> stream_info list"
  uw_decode :: "string \<Rightarrow> channel_group option"
  uw_guide :: "string \<Rightarrow> (int \<times> xml_token list) option"
  uw_name :: string
  uw_file_ok :: bool
  uw_unreadable :: "nat \<Rightarrow> bool"
  uw_unwritable :: "nat \<Rightarrow> bool"

text \<open>\<open>NewProcessor\<close>: None when the result file cannot be created; \<open>uw_name\<close> is the name that
  follows from the time. The temporary file appears among the processed ones.\<close>

definition new_processor :: "environ \<Rightarrow> update_world \<Rightarrow> published \<Rightarrow> (processor \<times> published) option" where
  "new_processor env w pb =
     (if \<not> uw_file_ok w then None
      else
        let p = \<lparr>pr_count = 0, pr_sorter = new_sorting_manager env (uw_unreadable w) (uw_unwritable w),
                 pr_critical = False, pr_name = uw_name w, pr_text = []\<rparr>
        in Some (p, pb\<lparr>pb_processed := put_file (tmp_name p) [] (pb_processed pb)\<rparr>))"

fun process_sources ::
  "proc_ctx \<Rightarrow> update_world \<Rightarrow> source_config list \<Rightarrow> cache_files \<Rightarrow> proc_state \<Rightarrow>
     stream_info list \<times> cache_files \<times> proc_state" where
  "process_sources ctx w [] cache st = ([], cache, st)"
| "process_sources ctx w (c # cs) cache st =
     (case download_source ctx (uw_local w) (uw_fetch w) (uw_can_create w) c cache of
        (ls, _, cache1) \<Rightarrow>
          (case handle_downloaded ctx (sc_index c) ls st of
             (out, st1) \<Rightarrow>
               (case process_sources ctx w cs cache1 st1 of
                  (outs, cache2, st2) \<Rightarrow> (out @ outs, cache2, st2))))"

text \<open>\<open>processStreams\<close> with the loop of \<open>Start\<close>; the request is nil, so the base URL comes from the
  environment. The caches of sources that are no longer configured go first.\<close>

definition clean_cache :: "utils_state \<Rightarrow> cache_files \<Rightarrow> cache_files" where
  "clean_cache us cache = filter (\<lambda>f. \<not> is_orphaned_cache (get_m3u_indexes us) (fst f, False)) cache"

definition process_streams ::
  "proc_ctx \<Rightarrow> update_world \<Rightarrow> cache_files \<Rightarrow> proc_state \<Rightarrow> processor \<Rightarrow> processor \<times> cache_files \<times> proc_state" where
  "process_streams ctx w cache st p =
     (case process_sources ctx w (uw_sources w (get_source_configs (pc_us ctx))) (clean_cache (pc_us ctx) cache) st of
        (es, cache1, st1) \<Rightarrow>
          (case compile_m3u ctx (uw_decode w) (uw_guide w) (determine_base_url (us_environ (pc_us ctx)) None) st1
                  (fold (add_stream (pc_lib ctx)) (uw_arrival w es) p) of
             (p1, st2) \<Rightarrow> (p1, cache1, st2)))"

text \<open>\<open>Run\<close>: whether it ends without an error, the processor and what is published.\<close>

definition run_processor ::
  "proc_ctx \<Rightarrow> update_world \<Rightarrow> bool \<Rightarrow> proc_state \<Rightarrow> processor \<Rightarrow> published \<Rightarrow>
     bool \<times> processor \<times> proc_state \<times> published" where
  "run_processor ctx w cancelled st p pb =
     (case process_streams ctx w (pb_cache pb) (st\<lparr>ps_new_slugs := pb_new_slugs pb\<rparr>) p of
        (p1, cache, st1) \<Rightarrow>
          (case wait_processor (pc_us ctx) cancelled p1 (pb\<lparr>pb_cache := cache, pb_new_slugs := ps_new_slugs st1\<rparr>) of
             (ok, pb1) \<Rightarrow> (ok, p1, st1\<lparr>ps_new_slugs := pb_new_slugs pb1\<rparr>, pb1)))"

section \<open>The update\<close>

text \<open>\<open>up_path\<close> is the path the playlist handler serves (a name among the processed files).\<close>

record update_state =
  up_proc :: proc_state
  up_published :: published
  up_path :: string

datatype update_end = UpdateCancelled | NoBaseUrl | UpdatePanic | UpdateFailed | UpdateDone

text \<open>\<open>UpdateSources\<close>. \<open>gone\<close>: the context has ended when the update starts; \<open>cancelled\<close>: it ends
  before the result is published. A processor that could not be made is a nil pointer.\<close>

definition update_sources ::
  "proc_ctx \<Rightarrow> update_world \<Rightarrow> bool \<Rightarrow> bool \<Rightarrow> update_state \<Rightarrow> update_end \<times> update_state" where
  "update_sources ctx w gone cancelled st =
     (let env = us_environ (pc_us ctx); made = new_processor env w (up_published st);
          st1 = (case made of None \<Rightarrow> st | Some (_, pb) \<Rightarrow> st\<lparr>up_published := pb\<rparr>)
      in if gone then (UpdateCancelled, st1)
         else if lookup_env env ''BASE_URL'' = None then (NoBaseUrl, st1)
         else
           (case made of
              None \<Rightarrow> (UpdatePanic, st1)
            | Some (p, pb) \<Rightarrow>
                (case run_processor ctx w cancelled (up_proc st) p pb of
                   (ok, p1, pst, pb1) \<Rightarrow>
                     let st2 = st1\<lparr>up_proc := pst, up_published := pb1\<rparr> in
                     if ok then (UpdateDone, st2\<lparr>up_path := get_result_path p1 pb1\<rparr>)
                     else (UpdateFailed, st2))))"

text \<open>\<open>Initialize\<close>: what is served before the first update, and whether an update is started;
  \<open>cron_ok\<close> is the check of the schedule. None: an error.\<close>

definition setting :: "environ \<Rightarrow> string \<Rightarrow> string \<Rightarrow> string" where
  "setting env name dflt = (let v = os_getenv env name in if trim_space v = [] then dflt else v)"

definition initialize_updater ::
  "discovery_lib \<Rightarrow> (job \<Rightarrow> string list option) \<Rightarrow> (string \<Rightarrow> bool) \<Rightarrow> utils_state \<Rightarrow> update_state \<Rightarrow>
     (bool \<times> manager \<times> utils_state \<times> update_state) option" where
  "initialize_updater lib discover cron_ok us st =
     (case initialize_discovery lib discover us of
        Inl _ \<Rightarrow> None
      | Inr (m, us1) \<Rightarrow>
          let env = us_environ us; pb = up_published st;
              st1 = (if setting env ''CLEAR_ON_BOOT'' ''false'' = ''true''
                     then st\<lparr>up_published := pb\<lparr>pb_processed := []\<rparr>\<rparr>
                     else (case get_latest_processed_m3u (pb_processed pb) of
                             None \<Rightarrow> st | Some n \<Rightarrow> st\<lparr>up_path := n\<rparr>))
          in if cron_ok (setting env ''SYNC_CRON'' ''0 0 * * *'')
             then Some (setting env ''SYNC_ON_BOOT'' ''true'' = ''true'', m, us1, st1) else None)"

section \<open>What is served after an update\<close>

lemma compile_text:
  assumes "compile_m3u ctx decode fetch base st p = (p1, st1)"
  shows "\<exists>entries. pr_text p1 = build_playlist_header_line (lib_url_parse (pc_lib ctx)) (us_environ (pc_us ctx)) @ entries"
    and "pr_name p1 = pr_name p"
  using assms by (auto simp: compile_m3u_def Let_def split: prod.splits option.splits)

lemma add_stream_name: "pr_name (fold (add_stream lib) es p) = pr_name p"
proof (induction es arbitrary: p)
  case (Cons e es)
  have "pr_name (add_stream lib e p) = pr_name p" by (simp add: add_stream_def split: prod.splits)
  then show ?case using Cons by simp
qed simp

lemma process_streams_text:
  assumes "process_streams ctx w cache st p = (p1, cache1, st1)"
  shows "\<exists>entries. pr_text p1 = build_playlist_header_line (lib_url_parse (pc_lib ctx)) (us_environ (pc_us ctx)) @ entries"
    and "pr_name p1 = pr_name p"
proof -
  obtain es c1 st0 where "process_sources ctx w (uw_sources w (get_source_configs (pc_us ctx)))
      (clean_cache (pc_us ctx) cache) st = (es, c1, st0)"
    by (cases "process_sources ctx w (uw_sources w (get_source_configs (pc_us ctx)))
      (clean_cache (pc_us ctx) cache) st")
  then have c: "compile_m3u ctx (uw_decode w) (uw_guide w) (determine_base_url (us_environ (pc_us ctx)) None) st0
      (fold (add_stream (pc_lib ctx)) (uw_arrival w es) p) = (p1, st1)"
    using assms by (simp add: process_streams_def split: prod.splits)
  show "\<exists>entries. pr_text p1 = build_playlist_header_line (lib_url_parse (pc_lib ctx)) (us_environ (pc_us ctx)) @ entries"
    by (rule compile_text(1) [OF c])
  show "pr_name p1 = pr_name p" using compile_text(2) [OF c] by (simp add: add_stream_name)
qed

text \<open>The header is one line.\<close>

lemma header_line:
  assumes "\<And>u. get_embedded_epg_url parse env = Some u \<Longrightarrow> CHR 0x0A \<notin> set u"
  shows "\<exists>l. build_playlist_header_line parse env = l @ newline \<and> CHR 0x0A \<notin> set l \<and> is_extm3u_header_line (l @ newline)"
proof (cases "get_embedded_epg_url parse env")
  case None
  then show ?thesis
    by (intro exI [of _ "''#EXTM3U''"])
       (simp add: build_playlist_header_line_def is_extm3u_header_line_def bom_def newline_def trim_space_def
          trim_by_def trim_left_by_def trim_right_by_def is_space_def trim_prefix_def)
next
  case (Some u)
  let ?l = "''#EXTM3U x-tvg-url='' @ dquote @ u @ dquote @ '' url-tvg='' @ dquote @ u @ dquote"
  have "trim_space (?l @ newline) = ?l"
  proof -
    have "trim_left_by is_space (?l @ newline) = ?l @ newline" by (simp add: trim_left_by_def is_space_def)
    moreover have "trim_right_by is_space (?l @ newline) = ?l"
    proof -
      have "?l @ newline = (butlast ?l @ dquote) @ newline" by (simp add: dquote_def butlast_append)
      moreover have "trim_right_by is_space ((butlast ?l @ dquote) @ newline) = butlast ?l @ dquote"
        by (simp add: trim_right_by_def newline_def dquote_def is_space_def)
      ultimately show ?thesis by (simp add: dquote_def butlast_append)
    qed
    ultimately show ?thesis by (simp add: trim_space_def trim_by_def)
  qed
  moreover have "trim_prefix (?l @ newline) bom = ?l @ newline" by (simp add: trim_prefix_def bom_def)
  ultimately have "is_extm3u_header_line (?l @ newline)" by (simp add: is_extm3u_header_line_def)
  then show ?thesis
    using Some assms [OF Some]
    by (intro exI [of _ ?l]) (simp add: build_playlist_header_line_def dquote_def)
qed

lemma playlist_text_same:
  assumes "\<And>u. get_embedded_epg_url parse env = Some u \<Longrightarrow> CHR 0x0A \<notin> set u"
  shows "playlist_text parse env (build_playlist_header_line parse env @ entries) =
    build_playlist_header_line parse env @ entries"
proof -
  obtain l where l: "build_playlist_header_line parse env = l @ newline" "CHR 0x0A \<notin> set l"
      "is_extm3u_header_line (l @ newline)"
    using header_line [OF assms] by blast
  have "first_line (l @ newline @ entries) = l @ newline"
  proof -
    have "takeWhile (\<lambda>c. c \<noteq> CHR 0x0A) (l @ CHR 0x0A # entries) = l"
      using l(2) by (subst takeWhile_append2) auto
    then show ?thesis by (simp add: first_line_def newline_def)
  qed
  then show ?thesis using l by (simp add: playlist_text_def)
qed

text \<open>The outcome of a run, in the state before the file is created.\<close>

lemma filter_insort_drop: "\<not> P x \<Longrightarrow> filter P (insort_by lt x xs) = filter P xs"
  by (induction xs) auto

lemma latest_put_tmp: "get_latest_processed_m3u (put_file (n @ ''.tmp'') c files) = get_latest_processed_m3u files"
proof -
  have "has_suffix (n @ ''.tmp'') ''.tmp''" by (simp add: has_suffix_def)
  then show ?thesis
    using latest_unchanged [of n files]
    by (simp add: put_file_def get_latest_processed_m3u_def Let_def filter_insort_drop)
qed

lemma run_outcome:
  assumes run: "run_processor ctx w False ps p pb = (True, p1, pst, pb1)"
  shows "\<not> pr_critical p1 \<and> pb_processed pb1 = [(pr_name p, pr_text p1)] \<and> get_result_path p1 pb1 = pr_name p \<or>
    pr_critical p1 \<and> pb_slugs pb1 = pb_slugs pb \<and>
    pb_processed pb1 = filter (\<lambda>f. fst f \<noteq> tmp_name p) (pb_processed pb) \<and>
    get_result_path p1 pb1 = (case get_latest_processed_m3u (pb_processed pb1) of None \<Rightarrow> [] | Some n \<Rightarrow> n)"
    and "\<exists>entries. pr_text p1 = build_playlist_header_line (lib_url_parse (pc_lib ctx)) (us_environ (pc_us ctx)) @ entries"
proof -
  obtain cache st1 where s: "process_streams ctx w (pb_cache pb) (ps\<lparr>ps_new_slugs := pb_new_slugs pb\<rparr>) p = (p1, cache, st1)"
    and pub: "snd (wait_processor (pc_us ctx) False p1 (pb\<lparr>pb_cache := cache, pb_new_slugs := ps_new_slugs st1\<rparr>)) = pb1"
    using run by (auto simp: run_processor_def split: prod.splits)
  have name: "pr_name p1 = pr_name p" by (rule process_streams_text(2) [OF s])
  show "\<exists>entries. pr_text p1 = build_playlist_header_line (lib_url_parse (pc_lib ctx)) (us_environ (pc_us ctx)) @ entries"
    by (rule process_streams_text(1) [OF s])
  show "\<not> pr_critical p1 \<and> pb_processed pb1 = [(pr_name p, pr_text p1)] \<and> get_result_path p1 pb1 = pr_name p \<or>
    pr_critical p1 \<and> pb_slugs pb1 = pb_slugs pb \<and>
    pb_processed pb1 = filter (\<lambda>f. fst f \<noteq> tmp_name p) (pb_processed pb) \<and>
    get_result_path p1 pb1 = (case get_latest_processed_m3u (pb_processed pb1) of None \<Rightarrow> [] | Some n \<Rightarrow> n)"
  proof (cases "pr_critical p1")
    case True
    have "pr_critical p1 \<or> False" using True by simp
    from wait_failure(1,2) [OF this, of "pc_us ctx" "pb\<lparr>pb_cache := cache, pb_new_slugs := ps_new_slugs st1\<rparr>"]
    show ?thesis using True pub name by (simp add: get_result_path_def tmp_name_def)
  next
    case False
    from wait_success(1) [OF False, of "pc_us ctx" "pb\<lparr>pb_cache := cache, pb_new_slugs := ps_new_slugs st1\<rparr>"]
    show ?thesis using False pub name by (simp add: get_result_path_def)
  qed
qed

text \<open>After an update without an error the handler serves the playlist the update has compiled,
  unchanged; or, when a critical error occurred, the one that was the latest before.\<close>

lemma update_served:
  assumes update: "update_sources ctx w False False st = (UpdateDone, st')"
    and epg: "\<And>u. get_embedded_epg_url (lib_url_parse (pc_lib ctx)) (us_environ (pc_us ctx)) = Some u \<Longrightarrow> CHR 0x0A \<notin> set u"
  shows "(\<exists>text. up_path st' = uw_name w \<and> pb_processed (up_published st') = [(uw_name w, text)] \<and>
      playlist_text (lib_url_parse (pc_lib ctx)) (us_environ (pc_us ctx)) text = text) \<or>
    up_path st' = (case get_latest_processed_m3u (pb_processed (up_published st)) of None \<Rightarrow> [] | Some n \<Rightarrow> n) \<and>
    pb_slugs (up_published st') = pb_slugs (up_published st)"
proof -
  obtain p pb p1 pst pb1 where
    made: "new_processor (us_environ (pc_us ctx)) w (up_published st) = Some (p, pb)"
    and run: "run_processor ctx w False (up_proc st) p pb = (True, p1, pst, pb1)"
    and st': "st' = st\<lparr>up_proc := pst, up_published := pb1, up_path := get_result_path p1 pb1\<rparr>"
    using update by (auto simp: update_sources_def Let_def split: if_splits option.splits prod.splits)
  have p: "pr_name p = uw_name w"
    and pb: "pb = (up_published st)\<lparr>pb_processed := put_file (tmp_name p) [] (pb_processed (up_published st))\<rparr>"
    using made by (auto simp: new_processor_def Let_def split: if_splits)
  obtain entries where "pr_text p1 = build_playlist_header_line (lib_url_parse (pc_lib ctx)) (us_environ (pc_us ctx)) @ entries"
    using run_outcome(2) [OF run] by blast
  then have same: "playlist_text (lib_url_parse (pc_lib ctx)) (us_environ (pc_us ctx)) (pr_text p1) = pr_text p1"
    using playlist_text_same [OF epg] by simp
  show ?thesis
    using run_outcome(1) [OF run]
  proof (elim disjE conjE)
    assume "pb_processed pb1 = [(pr_name p, pr_text p1)]" "get_result_path p1 pb1 = pr_name p"
    then show ?thesis using same p st' by simp
  next
    assume kept: "pb_slugs pb1 = pb_slugs pb" "pb_processed pb1 = filter (\<lambda>f. fst f \<noteq> tmp_name p) (pb_processed pb)"
      and path: "get_result_path p1 pb1 = (case get_latest_processed_m3u (pb_processed pb1) of None \<Rightarrow> [] | Some n \<Rightarrow> n)"
    have "get_latest_processed_m3u (pb_processed pb1) = get_latest_processed_m3u (pb_processed (up_published st))"
      using kept(2) pb by (simp add: tmp_name_def latest_unchanged latest_put_tmp)
    then show ?thesis using path kept(1) pb st' by simp
  qed
qed

text \<open>With a base URL and a result file an update that is not cancelled ends without an error.\<close>

lemma update_completes:
  assumes "uw_file_ok w" and "lookup_env (us_environ (pc_us ctx)) ''BASE_URL'' \<noteq> None"
  shows "fst (update_sources ctx w False False st) = UpdateDone"
  using assms
  by (auto simp: update_sources_def new_processor_def run_processor_def wait_processor_def Let_def split: prod.splits if_splits)

text \<open>An update that ends early leaves its temporary file behind.\<close>

lemma early_end_leaves_file:
  assumes "uw_file_ok w" and "gone \<or> lookup_env (us_environ (pc_us ctx)) ''BASE_URL'' = None"
  shows "(uw_name w @ ''.tmp'', []) \<in> set (pb_processed (up_published (snd (update_sources ctx w gone cancelled st))))"
proof -
  have "x \<in> set (insort_by lt x fs)" for x :: "string \<times> string" and lt fs by (induction fs) auto
  then show ?thesis using assms
    by (auto simp: update_sources_def new_processor_def Let_def put_file_def tmp_name_def)
qed

end
