(* ===== verification/DiscoveryFacts.thy ===== *)
theory DiscoveryFacts
  imports Discovery Handlers Scanner
begin

text \<open>
  Facts on discovery: what a scan yields does not depend on the order in which its candidates
  are tried, a scan that finds the same playlists changes nothing, and what is published comes
  from the active jobs.
\<close>

section \<open>Scans\<close>

definition valid_playlist :: "(string \<Rightarrow> (string \<times> int \<times> string \<times> bool) option) \<Rightarrow> string \<Rightarrow> string option" where
  "valid_playlist fetch u = fst (validate_playlist fetch [] u)"

lemma validate_new:
  "map_of cache u = None \<Longrightarrow>
     fst (validate_playlist fetch cache u) = valid_playlist fetch u \<and>
     (\<forall>v. v \<noteq> u \<longrightarrow> map_of (snd (validate_playlist fetch cache u)) v = map_of cache v)"
  by (simp add: valid_playlist_def validate_playlist_def update_conv' split: option.splits)

lemma validate_all_distinct:
  "distinct us \<Longrightarrow> \<forall>u \<in> set us. map_of cache u = None \<Longrightarrow>
     validate_all fetch cache us = List.map_filter (valid_playlist fetch) us"
proof (induction us arbitrary: cache)
  case Nil
  then show ?case by (simp add: map_filter_simps)
next
  case (Cons u us)
  obtain r cache1 where v: "validate_playlist fetch cache u = (r, cache1)" by fastforce
  with validate_new [of cache u fetch] Cons.prems have r: "r = valid_playlist fetch u"
    and c: "\<forall>x \<in> set us. map_of cache1 x = None" by auto
  have "validate_all fetch cache1 us = List.map_filter (valid_playlist fetch) us"
    using Cons.IH [of cache1] Cons.prems c by simp
  then show ?case using v r by (simp add: map_filter_simps split: option.split)
qed

lemma add_candidate_ok:
  "distinct cands \<and> int (length cands) \<le> max 0 (jb_max_pages (cr_job c)) \<Longrightarrow>
     distinct (add_candidate ops c raw cands) \<and>
     int (length (add_candidate ops c raw cands)) \<le> max 0 (jb_max_pages (cr_job c))"
  by (auto simp: add_candidate_def split: option.splits)

lemma candidates_ok:
  "distinct (candidates_of lib ops w c results) \<and>
     int (length (candidates_of lib ops w c results)) \<le> max 0 (jb_max_pages (cr_job c))"
proof -
  have "distinct (fold (add_candidate ops c) links cands) \<and>
      int (length (fold (add_candidate ops c) links cands)) \<le> max 0 (jb_max_pages (cr_job c))"
    if "distinct cands \<and> int (length cands) \<le> max 0 (jb_max_pages (cr_job c))" for links cands
    using that
  proof (induction links arbitrary: cands)
    case (Cons l links)
    then show ?case using Cons.IH [OF add_candidate_ok [OF Cons.prems]] by simp
  qed simp
  then show ?thesis by (simp add: candidates_of_def)
qed

lemma mset_map_filter: "mset xs = mset ys \<Longrightarrow> mset (List.map_filter f xs) = mset (List.map_filter f ys)"
  by (simp add: List.map_filter_def mset_map mset_filter)

lemma sort_eq_mset: "mset xs = mset ys \<Longrightarrow> sort xs = (sort ys :: string list)"
  by (metis mset_sort properties_for_sort sorted_sort)

text \<open>What a scan finds: the final URLs of the candidates that are playlists, sorted.\<close>

lemma discover_eq:
  assumes "mset (order (candidates_of lib ops w c results)) = mset (candidates_of lib ops w c results)"
  shows "dedupe (sort (validate_all (cw_fetch w) [] (order (candidates_of lib ops w c results)))) =
    dedupe (sort (List.map_filter (valid_playlist (cw_fetch w)) (candidates_of lib ops w c results)))"
proof -
  let ?cs = "candidates_of lib ops w c results"
  have "distinct (order ?cs)"
    using assms candidates_ok [of lib ops w c results] by (metis mset_eq_imp_distinct_iff)
  then have "validate_all (cw_fetch w) [] (order ?cs) = List.map_filter (valid_playlist (cw_fetch w)) (order ?cs)"
    by (intro validate_all_distinct) auto
  moreover have "sort (List.map_filter (valid_playlist (cw_fetch w)) (order ?cs)) =
      sort (List.map_filter (valid_playlist (cw_fetch w)) ?cs)"
    by (rule sort_eq_mset [OF mset_map_filter [OF assms]])
  ultimately show ?thesis by simp
qed

lemma dedupe_from_set: "set (dedupe_from p vs) \<union> {p} = set vs \<union> {p}"
  by (induction p vs rule: dedupe_from.induct) auto

lemma dedupe_set: "set (dedupe vs) = set vs"
  using dedupe_from_set by (cases vs) (auto simp: dedupe_def)

lemma dedupe_from_sorted:
  "sorted (p # vs) \<Longrightarrow> sorted (dedupe_from p vs) \<and> distinct (dedupe_from p vs) \<and> (\<forall>v \<in> set (dedupe_from p vs). p < v)"
proof (induction p vs rule: dedupe_from.induct)
  case (2 p v vs)
  show ?case
  proof (cases "v = p")
    case True
    then show ?thesis using 2 by simp
  next
    case False
    then have "p < v" using "2.prems" by auto
    then show ?thesis using 2 False by (auto intro: less_imp_le)
  qed
qed simp

lemma dedupe_sorted: "sorted vs \<Longrightarrow> sorted (dedupe vs) \<and> distinct (dedupe vs)"
  using dedupe_from_sorted by (cases vs) (auto simp: dedupe_def intro: less_imp_le)

lemma discover_order_irrelevant:
  assumes "\<And>xs. mset (order xs) = mset xs"
  shows "discover_playlists lib ops w order c = discover_playlists lib ops w (\<lambda>xs. xs) c"
proof -
  have "dedupe (sort (validate_all (cw_fetch w) [] (order (candidates_of lib ops w d results)))) =
      dedupe (sort (validate_all (cw_fetch w) [] (candidates_of lib ops w d results)))" for d results
    by (rule trans [OF discover_eq [of order, OF assms] discover_eq [of "\<lambda>xs. xs", OF refl, symmetric]])
  then show ?thesis by (simp add: discover_playlists_def Let_def)
qed

text \<open>A playlist is the final URL of an answer with status 200 that holds a playlist.\<close>

lemma valid_playlistD:
  "valid_playlist fetch u = Some final \<Longrightarrow>
     \<exists>body. fetch_document fetch u max_validation_bytes = Some \<lparr>dc_final_url = final, dc_status = 200, dc_body = body\<rparr> \<and>
       is_m3u_content body"
  by (auto simp: valid_playlist_def validate_playlist_def split: option.splits if_splits) (metis document.surjective old.unit.exhaust)

lemma discovered_are_playlists:
  assumes found: "discover_playlists lib ops w order c = Some urls"
    and order: "\<And>xs. mset (order xs) = mset xs"
  shows "sorted urls \<and> distinct urls \<and>
    (\<forall>u \<in> set urls. \<exists>cand body. fetch_document (cw_fetch w) cand max_validation_bytes =
        Some \<lparr>dc_final_url = u, dc_status = 200, dc_body = body\<rparr> \<and> is_m3u_content body)"
proof -
  obtain c1 results where "urls = dedupe (sort (validate_all (cw_fetch w) [] (order (candidates_of lib ops w c1 results))))"
    using found by (auto simp: discover_playlists_def Let_def)
  then have urls: "urls = dedupe (sort (List.map_filter (valid_playlist (cw_fetch w)) (candidates_of lib ops w c1 results)))"
    by (simp add: discover_eq order)
  moreover have "\<exists>cand body. fetch_document (cw_fetch w) cand max_validation_bytes =
        Some \<lparr>dc_final_url = u, dc_status = 200, dc_body = body\<rparr> \<and> is_m3u_content body" if "u \<in> set urls" for u
    using that valid_playlistD by (fastforce simp: urls dedupe_set in_map_filter)
  ultimately show ?thesis using dedupe_sorted by auto
qed

section \<open>Publication\<close>

lemma fingerprint_mset: "mset us = mset vs \<Longrightarrow> fingerprint_urls us = fingerprint_urls vs"
  by (auto simp: fingerprint_urls_def dest: sort_eq_mset)

text \<open>A second scan with the same playlists, in whatever order, changes nothing.\<close>

lemma prune_keeps_job:
  "j \<in> set (dm_jobs m) \<Longrightarrow> dm_hash (prune_stale_job_data m) (jb_id j) = dm_hash m (jb_id j)"
  "j \<in> set (dm_jobs m) \<Longrightarrow> sources_of_job (prune_stale_job_data m) (jb_id j) = sources_of_job m (jb_id j)"
  by (simp_all add: prune_stale_job_data_def sources_of_job_def)

lemma prune_jobs [simp]: "dm_jobs (prune_stale_job_data m) = dm_jobs m"
  by (simp add: prune_stale_job_data_def)

lemma refresh_job_same:
  assumes "j \<in> set (dm_jobs (fst st))" and "refresh_job lib j (Some urls) st = (r, st')"
    and "mset urls' = mset urls"
  shows "refresh_job lib j (Some urls') st' = (Some False, st')"
proof -
  obtain m us where st: "st = (m, us)" by (cases st)
  obtain m' us' where st': "st' = (m', us')" by (cases st')
  have "(case dm_hash m' (jb_id j) of None \<Rightarrow> [] | Some h \<Rightarrow> h) = fingerprint_urls urls"
    using assms(1,2)
    by (auto simp: st st' refresh_job_def publish_dynamic_sources_def Let_def prune_keeps_job split: if_splits prod.splits)
  then show ?thesis using fingerprint_mset [OF assms(3)] by (simp add: st' refresh_job_def)
qed

lemma normalize_from:
  "s \<in> set (normalize_sources seen ss) \<Longrightarrow>
     \<exists>t \<in> set ss. sc_index s = trim_space (sc_index t) \<and> sc_url s = trim_space (sc_url t)"
  by (induction seen ss rule: normalize_sources.induct) (auto simp: Let_def split: if_splits)

lemma normalize_covers:
  "t \<in> set ss \<Longrightarrow> trim_space (sc_index t) \<noteq> [] \<Longrightarrow> trim_space (sc_url t) \<noteq> [] \<Longrightarrow>
     trim_space (sc_index t) \<in> set seen \<or> trim_space (sc_index t) \<in> sc_index ` set (normalize_sources seen ss)"
  by (induction seen ss rule: normalize_sources.induct) (auto simp: Let_def)

lemma set_dynamic: "set (us_dynamic (set_dynamic_sources ss us)) = set (normalize_sources [] ss)"
  by (simp add: set_dynamic_sources_def)

lemma published_source_fields:
  "published_source m j s = Some t \<Longrightarrow> sc_index t = sc_index s \<and> sc_url t = sc_url s"
  by (auto simp: published_source_def Let_def split: option.splits if_splits)

definition override_enabled :: "manager \<Rightarrow> string \<Rightarrow> bool" where
  "override_enabled m i = (case map_of (dm_overrides m) i of None \<Rightarrow> True | Some ov \<Rightarrow> so_enabled ov)"

lemma published_source_enabled:
  "(\<exists>t. published_source m j s = Some t) \<longleftrightarrow> override_enabled m (sc_index s)"
  by (auto simp: published_source_def override_enabled_def Let_def split: option.splits)

lemma publish_catalogue:
  assumes "publish_dynamic_sources lib (m, us) = (m', us')"
  shows "set (us_dynamic us') = set (normalize_sources [] (combined_sources m'))"
    and "dm_jobs m' = dm_jobs m"
    and "j \<in> set (dm_jobs m) \<Longrightarrow> sources_of_job m' (jb_id j) = sources_of_job m (jb_id j)"
proof -
  obtain os us1 where os: "load_source_overrides_from_env lib us = (os, us1)" by fastforce
  have m': "m' = prune_stale_job_data (m\<lparr>dm_overrides := os\<rparr>)" "us' = set_dynamic_sources (combined_sources m') us1"
    using assms os by (auto simp: publish_dynamic_sources_def Let_def)
  show "set (us_dynamic us') = set (normalize_sources [] (combined_sources m'))" by (simp add: m'(2) set_dynamic)
  show "dm_jobs m' = dm_jobs m" by (simp add: m'(1))
  show "j \<in> set (dm_jobs m) \<Longrightarrow> sources_of_job m' (jb_id j) = sources_of_job m (jb_id j)"
    using prune_keeps_job(2) [of j "m\<lparr>dm_overrides := os\<rparr>"] by (simp add: m'(1) sources_of_job_def)
qed

text \<open>The catalogue after a publication: the sources of the active jobs that are not disabled, each
  index once.\<close>

lemma publication_sound:
  assumes pub: "publish_dynamic_sources lib (m, us) = (m', us')" and "s \<in> set (us_dynamic us')"
  shows "\<exists>j \<in> set (dm_jobs m). \<exists>t \<in> set (sources_of_job m (jb_id j)).
    override_enabled m' (sc_index t) \<and> sc_index s = trim_space (sc_index t) \<and> sc_url s = trim_space (sc_url t)"
proof -
  note cat = publish_catalogue [OF pub]
  obtain t where t: "t \<in> set (combined_sources m')" "sc_index s = trim_space (sc_index t)" "sc_url s = trim_space (sc_url t)"
    using assms(2) normalize_from unfolding cat(1) by meson
  then obtain j x where j: "j \<in> set (dm_jobs m)" "x \<in> set (sources_of_job m (jb_id j))" "published_source m' j x = Some t"
    using cat(2,3) by (auto simp: combined_sources_def in_map_filter)
  have "override_enabled m' (sc_index x)" using published_source_enabled j(3) by blast
  moreover have "sc_index t = sc_index x" "sc_url t = sc_url x" using published_source_fields [OF j(3)] by auto
  ultimately show ?thesis using j(1,2) t(2,3) by metis
qed

lemma publication_complete:
  assumes pub: "publish_dynamic_sources lib (m, us) = (m', us')"
    and t: "j \<in> set (dm_jobs m)" "t \<in> set (sources_of_job m (jb_id j))" "override_enabled m' (sc_index t)"
    and "trim_space (sc_index t) \<noteq> []" and "trim_space (sc_url t) \<noteq> []"
  shows "trim_space (sc_index t) \<in> sc_index ` set (us_dynamic us')"
proof -
  note cat = publish_catalogue [OF pub]
  obtain x where x: "published_source m' j t = Some x" using t(3) published_source_enabled by blast
  have "x \<in> set (combined_sources m')"
    using t x cat(2,3) by (auto simp: combined_sources_def in_map_filter)
  from normalize_covers [OF this, of "[]"] show ?thesis
    using assms(5,6) published_source_fields [OF x] by (simp add: cat(1))
qed

section \<open>Job ids with an underscore\<close>

text \<open>The index of a source names its job between the first two underscores. For a job whose id
  has one, the part before it is taken for the job: its overrides are dropped at every
  publication, so its sources can be neither renamed nor disabled.\<close>

lemma underscore_job_overrides_dropped:
  assumes index: "i = ''DISC_'' @ a @ ''_'' @ b" and "CHR ''_'' \<notin> set a" and "trim_space i = i"
    and "to_upper (trim_space a) \<notin> (\<lambda>j. to_upper (trim_space (jb_id j))) ` set (dm_jobs m)"
  shows "i \<notin> fst ` set (dm_overrides (prune_stale_job_data m))"
proof -
  have "split_char (CHR ''_'') i = ''DISC'' # a # split_char (CHR ''_'') b"
    using assms(2) by (simp add: index split_char_append)
  moreover have "has_prefix (to_upper i) ''DISC_''" by (simp add: index to_upper_def upper_char_def)
  ultimately show ?thesis
    using assms(3,4)
    by (auto simp: prune_stale_job_data_def discovered_source_index_belongs_to_active_jobs_def Let_def)
qed

end
