(* ===== verification/DemoStreams.thy ===== *)
theory DemoStreams
  imports Demo StreamStates Requests Updater DiscoveryFacts
begin

text \<open>
  The concrete installation continued: URLs that are texts, a server with a live window of three
  segments, a client, a web site with one playlist, an update.
\<close>

section \<open>Live playlists\<close>

definition demo_urls :: "string url_ops" where
  "demo_urls =
     \<lparr>uo_parse = Some, uo_is_abs = (\<lambda>u. has_prefix u ''http''), uo_resolve = (@), uo_string = (\<lambda>u. u)\<rparr>"

definition demo_segment :: "nat \<Rightarrow> string" where
  "demo_segment n = ''http://s/'' @ nat_str n"

definition demo_playlist :: "nat \<Rightarrow> http_response" where
  "demo_playlist n =
     \<lparr>hr_status = 200, hr_header = [], hr_path = None,
      hr_body = render_media 3 4 n (window demo_segment 3 n) False\<rparr>"

definition demo_segment_event :: segment_event where
  "demo_segment_event =
     \<lparr>se_ctx_done = False, se_answer = Answer demo_response True, se_start = 0, se_between = (\<lambda>_ c. c),
      se_reads = [(0, 1, ReadResult ''ts'' (Some EOF))]\<rparr>"

definition demo_tick :: "hls_answer \<Rightarrow> int \<Rightarrow> hls_tick" where
  "demo_tick answer now =
     \<lparr>ht_other = (\<lambda>c. c), ht_ctx_done = False, ht_now = now, ht_playlist = answer, ht_rest = [], ht_jitter = 1,
      ht_variant = NilAnswer, ht_changed = now, ht_segments = (\<lambda>_. demo_segment_event), ht_ctx_after = False,
      ht_end = now\<rparr>"

lemma demo_segment_plain: "plain_uri demo_urls (demo_segment n)" if "n < 10"
proof -
  have n: "nat_str n = [digit_char n]" using that by (simp add: nat_str.simps)
  then have "\<not> is_space (digit_char n)" "CHR 0x0A \<noteq> digit_char n" "CHR 0x0D \<noteq> digit_char n" "digit_char n \<noteq> CHR 0x0D"
    using nat_str_plain [of "digit_char n" n] by auto
  then show ?thesis
    by (simp add: plain_uri_def demo_urls_def demo_segment_def n plain_line_def drop_cr_def max_token_def
        trim_space_def trim_by_def trim_left_by_def trim_right_by_def is_space_def has_prefix_def)
qed

lemma demo_window_plain: "n < 7 \<Longrightarrow> list_all (plain_uri demo_urls) (window demo_segment 3 n)"
  by (auto simp: window_def list_all_iff intro: demo_segment_plain)

lemma demo_live_response:
  "n < 7 \<Longrightarrow> live_response demo_urls (\<lambda>_. None) ''http://s/live'' demo_segment 3 n rest (demo_playlist n, True)"
  by (rule live_response_rendered [OF _ demo_window_plain])
     (simp_all add: demo_urls_def demo_playlist_def is_acceptable_stream_status_def maybe_decompress_response_body_def
        header_get_def to_lower_def Let_def)

lemma demo_segment_fine: "segment_fine demo_stream_config demo_segment_event"
  by (rule segment_fine_one_read [where r = demo_response])
     (simp_all add: demo_segment_event_def demo_response_def is_acceptable_stream_status_def demo_stream_config_def)

lemma demo_live_tick:
  "n < 7 \<Longrightarrow> live_tick demo_stream_config demo_urls (\<lambda>_. None) ''http://s/live'' demo_segment 3 n
     (demo_tick (Answer (demo_playlist n) True) now)"
  by (simp add: live_tick_def demo_tick_def demo_segment_fine demo_live_response)

definition demo_live_run :: "(hls_outcome \<times> hls_state) option" where
  "demo_live_run =
     hls_loop demo_stream_config demo_urls (\<lambda>_. None)
       [demo_tick (Answer (demo_playlist 5) True) 10, demo_tick (Answer (demo_playlist 6) True) 20]
       (hls_start (demo_result\<lparr>lr_response := demo_playlist 5\<rparr>) ''http://s/live'' True 0
         (new_stream_coordinator demo_stream_config))"

lemma demo_live_ends: "demo_live_run \<noteq> None"
  unfolding demo_live_run_def
  by (rule hls_loop_ends, rule segment_ends_one_read) (auto simp: demo_tick_def demo_segment_event_def)

definition demo_stalled :: hls_state where
  "demo_stalled = (hls_start demo_result ''http://s/live'' True 0 (new_stream_coordinator demo_stream_config))\<lparr>hl_answer := None\<rparr>"

section \<open>Clients and segments\<close>

definition demo_client :: stream_client where
  "demo_client = new_stream_client (\<lambda>_. False)"

lemma demo_client_up: "client_up demo_client"
  by (simp add: client_up_def demo_client_def new_stream_client_def)

definition demo_header :: "(string \<times> string) list" where
  "demo_header = [(''Content-Type'', ''video/mp2t'')]"

lemma demo_header_fits: "header_fits r demo_header"
proof -
  have "to_lower (header_get demo_header ''Content-Type'') = ''video/mp2t''" by code_simp
  then show ?thesis by (simp add: header_fits_def safe_concat_types_def)
qed

text \<open>A codec that writes the length of the URL in unary.\<close>

definition demo_codec :: segment_codec where
  "demo_codec =
     \<lparr>sx_marshal = (\<lambda>s. replicate (length (sg_url s)) (CHR ''n'') @ '':'' @ sg_url s @ sg_source s),
      sx_unmarshal = (\<lambda>x. let n = length (takeWhile (\<lambda>c. c = CHR ''n'') x); y = drop (Suc n) x
                         in Some \<lparr>sg_url = take n y, sg_source = drop n y\<rparr>),
      sx_compress = (\<lambda>x. ''z'' @ x), sx_decompress = (\<lambda>x. Some (tl x))\<rparr>"

lemma demo_codec_ok: "codec_ok demo_codec"
proof -
  have "takeWhile (\<lambda>c. c = CHR ''n'') (replicate k (CHR ''n'') @ CHR '':'' # x) = replicate k (CHR ''n'')" for k x
    by (subst takeWhile_append2) auto
  then show ?thesis by (simp add: codec_ok_def demo_codec_def Let_def)
qed

definition demo_failover :: failover_ctx where
  "demo_failover =
     \<lparr>fo_codec = demo_codec, fo_parse = demo_url_parse, fo_env = [(''BASE_URL'', ''http://me'')], fo_source = ''1|k''\<rparr>"

section \<open>Discovery\<close>

definition demo_crawl_ops :: "string crawl_ops" where
  "demo_crawl_ops =
     \<lparr>co_parse = Some,
      co_parts = (\<lambda>u. \<lparr>u_scheme = (if has_prefix u ''http://'' then ''http'' else []), u_host = ''h'',
                      u_path = drop 8 u, u_raw_query = []\<rparr>),
      co_escaped_path = drop 8, co_no_fragment = (\<lambda>u. u), co_at_host = (\<lambda>_ p. ''http://h'' @ p),
      co_resolve_ref = (\<lambda>b u. if has_prefix u ''http://'' then u else b @ u), co_text = (\<lambda>u. u)\<rparr>"

definition demo_discovery :: discovery_lib where
  "demo_discovery =
     \<lparr>dl_job = (\<lambda>j raw. Some (j\<lparr>jb_start_url := raw\<rparr>)), dl_override = (\<lambda>ov raw. Some (ov\<lparr>so_index := raw\<rparr>)),
      dl_sha1 = take 8, dl_html = (\<lambda>s. s), dl_embedded = (\<lambda>_. []), dl_quoted = (\<lambda>_. [])\<rparr>"

definition demo_job :: job where
  "demo_job = normalize_job (default_job\<lparr>jb_start_url := ''http://h/''\<rparr>) 1"

definition demo_crawler :: "string crawler" where
  "demo_crawler = \<lparr>cr_job = demo_job, cr_root = ''http://h/'', cr_robots = None\<rparr>"

definition demo_site :: crawl_world where
  "demo_site =
     \<lparr>cw_fetch = (\<lambda>u. if u = ''http://h/a.m3u'' then Some (u, 200, ''#EXTM3U'', True) else None),
      cw_parse_robots = (\<lambda>_ _. None), cw_tokens = (\<lambda>_. []),
      cw_crawl = Some [\<lparr>cw_request = ''http://h/a.m3u'', cw_base = ''http://h/a.m3u'', cw_response = None\<rparr>]\<rparr>"

definition demo_manager :: manager where
  "demo_manager =
     \<lparr>dm_jobs = [demo_job],
      dm_sources = (\<lambda>i. if i = ''1'' then Some [found_source demo_discovery
          \<lparr>dm_jobs = [], dm_sources = (\<lambda>_. None), dm_hash = (\<lambda>_. None), dm_overrides = [], dm_running = {}, dm_rebuilds = 0\<rparr>
          demo_job ''http://h/a.m3u''] else None),
      dm_hash = (\<lambda>_. None), dm_overrides = [], dm_running = {''1''}, dm_rebuilds = 0\<rparr>"

section \<open>An update\<close>

definition demo_update_ctx :: proc_ctx where
  "demo_update_ctx = demo_ctx\<lparr>pc_us := demo_us\<lparr>us_environ := (''BASE_URL'', ''http://me'') # us_environ demo_us\<rparr>\<rparr>"

definition demo_update_world :: update_world where
  "demo_update_world =
     \<lparr>uw_local = (\<lambda>_. None), uw_fetch = (\<lambda>_. FetchFailed), uw_can_create = (\<lambda>_. True), uw_sources = (\<lambda>cs. cs),
      uw_arrival = (\<lambda>es. es), uw_decode = (\<lambda>_. None), uw_guide = (\<lambda>_. None), uw_name = ''p3'', uw_file_ok = True,
      uw_unreadable = (\<lambda>_. False), uw_unwritable = (\<lambda>_. False)\<rparr>"

definition demo_update_state :: update_state where
  "demo_update_state = \<lparr>up_proc = \<lparr>ps_files = [], ps_new_slugs = None,
      ps_icons = \<lparr>icc_root = [], icc_exact = None, icc_candidates = [], icc_error = False\<rparr>\<rparr>, up_published = demo_published, up_path = ''p1''\<rparr>"

section \<open>A request\<close>

definition demo_direct_us :: utils_state where
  "demo_direct_us = demo_us\<lparr>us_environ := (''SHARED_BUFFER'', ''false'') # us_environ demo_us\<rparr>"

definition demo_attempt :: stream_attempt where
  "demo_attempt =
     \<lparr>sa_other = (\<lambda>s. s), sa_setup_done = True, sa_balance = (\<lambda>_. Inr demo_result),
      sa_proxy = \<lparr>pw_peek = 4, pw_ticks = [], pw_reads = [DirectRead ''ab'' (Some EOF)], pw_cm = (\<lambda>cm. cm),
                  pw_passthrough = (\<lambda>r c. (None, c))\<rparr>,
      sa_closed = False, sa_closed_after = False\<rparr>"

definition demo_answer :: "stream_answer option" where
  "demo_answer =
     handle_stream_request demo_direct_us demo_stream_config [demo_attempt] ''/p/x.ts'' demo_client [] new_concurrency_manager"

lemma demo_answer_served:
  "(case demo_answer of Some (Served e c reg cm) \<Rightarrow> e = StreamDone \<and> cl_body c = ''ab'' | _ \<Rightarrow> False)"
  unfolding demo_answer_def by code_simp

lemma demo_direct_ok: "cm_ok demo_direct_us new_concurrency_manager"
proof (rule new_manager_slots_ok)
  fix i
  have "1 \<le> get_source_max_concurrency demo_direct_us i \<and> get_source_max_concurrency demo_direct_us i \<le> 2"
    by (rule small_limits) code_simp+
  then show "0 \<le> get_source_max_concurrency demo_direct_us i \<and> get_source_max_concurrency demo_direct_us i < 2 ^ 31"
    by simp
qed

end
