(* ===== verification/Wakeups.thy ===== *)
theory Wakeups
  imports StreamHandlers
begin

text \<open>
  How readers are woken, proxy/stream/buffer/coordinator.go: the broadcast channel that a write
  closes and replaces, the channel of a writer's setup and the channel of its response header.
  The channels are numbered in the order they are made; closing one and making the next is a
  step of its own, after the lock of the write has been released. A run is a list of actions of
  one reader and of the other goroutines, so every interleaving of the critical sections is a
  list; an operation of another goroutine that has more than one critical section leaves the
  rest of it as a task.
\<close>

section \<open>The broadcast channel\<close>

text \<open>The parts of \<open>UnregisterClient\<close> for the last client (drain, clear, notify), of \<open>Write\<close> (swap,
  notify) and of \<open>writeError\<close> (swap, notify, close).\<close>

datatype task = TaskDrain | TaskWipe | TaskNotify bool | TaskClose | TaskDone

text \<open>Where the reader is in \<open>ReadChunks\<close>: about to lock and look, unlocked but not yet
  subscribed, parked at a channel, or back with a result.\<close>

datatype reader_pc =
    Away
  | Looking reader_pos
  | Subscribing nat
  | Parked nat nat
  | Returned "chunk list" "chunk option" nat
  | GivenUp nat
  | Crashed

record wake_state =
  wk_coord :: coordinator
  wk_channel :: nat
  wk_tasks :: "task list"
  wk_reader :: reader_pc

definition new_wake_state :: "coordinator \<Rightarrow> wake_state" where
  "new_wake_state c = \<lparr>wk_coord = c, wk_channel = 0, wk_tasks = [], wk_reader = Away\<rparr>"

definition subscribe :: "wake_state \<Rightarrow> nat" where
  "subscribe w = wk_channel w"

definition notify_subscribers :: "wake_state \<Rightarrow> wake_state" where
  "notify_subscribers w = w\<lparr>wk_channel := Suc (wk_channel w)\<rparr>"

definition channel_closed :: "wake_state \<Rightarrow> nat \<Rightarrow> bool" where
  "channel_closed w g = (g < wk_channel w)"

text \<open>The coordinator as the last client drains it.\<close>

definition drain_stream :: "coordinator \<Rightarrow> coordinator" where
  "drain_stream c = c\<lparr>co_state := Draining, co_writer_signal := True, co_resp_header := None\<rparr>"

text \<open>The next critical section of a task and what is left of it.\<close>

fun task_step :: "task \<Rightarrow> wake_state \<Rightarrow> task \<times> wake_state" where
  "task_step TaskDrain w = (TaskWipe, w\<lparr>wk_coord := drain_stream (wk_coord w)\<rparr>)"
| "task_step TaskWipe w = (TaskNotify False, w\<lparr>wk_coord := clear_buffer (wk_coord w)\<rparr>)"
| "task_step (TaskNotify close) w = (if close then TaskClose else TaskDone, notify_subscribers w)"
| "task_step TaskClose w = (TaskDone, w\<lparr>wk_coord := (wk_coord w)\<lparr>co_state := Closed\<rparr>\<rparr>)"
| "task_step TaskDone w = (TaskDone, w)"

definition add_task :: "task \<Rightarrow> wake_state \<Rightarrow> wake_state" where
  "add_task t w = w\<lparr>wk_tasks := wk_tasks w @ [t]\<rparr>"

text \<open>The first critical section of \<open>Write\<close>; \<open>closing\<close> when \<open>writeError\<close> calls it.\<close>

definition swap_chunk :: "chunk \<Rightarrow> bool \<Rightarrow> wake_state \<Rightarrow> wake_state option" where
  "swap_chunk ch closing w =
     (case write_chunk ch (wk_coord w) of
        (Written, c) \<Rightarrow> Some (add_task (TaskNotify closing) (w\<lparr>wk_coord := c\<rparr>))
      | (Refused, c) \<Rightarrow> Some (add_task (if closing then TaskClose else TaskDone) (w\<lparr>wk_coord := c\<rparr>))
      | (WritePanic, c) \<Rightarrow> None)"

text \<open>The first step of \<open>UnregisterClient\<close>.\<close>

definition count_down :: "wake_state \<Rightarrow> wake_state" where
  "count_down w =
     (let c = (wk_coord w)\<lparr>co_clients := co_clients (wk_coord w) - 1\<rparr> in
      (if co_clients c = 0 then add_task TaskDrain else id) (w\<lparr>wk_coord := c\<rparr>))"

definition reader_present :: "wake_state \<Rightarrow> bool" where
  "reader_present w = (wk_reader w \<noteq> Away)"

datatype wake_action =
    Join | Look | Subscribe | Wake | GiveUp | Again
  | Swap chunk | Fail "stream_error option" int int | Arrive | Depart | Advance nat

text \<open>One action; None when it is not possible. The actions up to \<open>Again\<close> are the reader's.
  Another client can leave only if there is another client.\<close>

fun wake_act :: "wake_action \<Rightarrow> wake_state \<Rightarrow> wake_state option" where
  "wake_act Join w =
     (if wk_reader w = Away
      then (let c = register_client (wk_coord w) in
            Some (w\<lparr>wk_coord := c, wk_reader := Looking (At (ring_prev c (co_pos c)))\<rparr>))
      else None)"
| "wake_act Look w =
     (case wk_reader w of
        Looking p \<Rightarrow>
          Some (w\<lparr>wk_reader :=
            (case look (wk_coord w) p of
               Blocked q \<Rightarrow> Subscribing q | Chunks chs e q \<Rightarrow> Returned chs e q | ReadPanic \<Rightarrow> Crashed)\<rparr>)
      | _ \<Rightarrow> None)"
| "wake_act Subscribe w =
     (case wk_reader w of Subscribing p \<Rightarrow> Some (w\<lparr>wk_reader := Parked p (subscribe w)\<rparr>) | _ \<Rightarrow> None)"
| "wake_act Wake w =
     (case wk_reader w of
        Parked p g \<Rightarrow> if channel_closed w g then Some (w\<lparr>wk_reader := Looking (Waiting p)\<rparr>) else None
      | _ \<Rightarrow> None)"
| "wake_act GiveUp w = (case wk_reader w of Parked p g \<Rightarrow> Some (w\<lparr>wk_reader := GivenUp p\<rparr>) | _ \<Rightarrow> None)"
| "wake_act Again w =
     (case wk_reader w of Returned chs None q \<Rightarrow> Some (w\<lparr>wk_reader := Looking (At q)\<rparr>) | _ \<Rightarrow> None)"
| "wake_act (Swap ch) w = swap_chunk ch False w"
| "wake_act (Fail e status now) w =
     swap_chunk (new_chunk\<lparr>ck_error := e, ck_status := status, ck_time := now\<rparr>) True w"
| "wake_act Arrive w = Some (w\<lparr>wk_coord := register_client (wk_coord w)\<rparr>)"
| "wake_act Depart w =
     (if (if reader_present w then 1 else 0) < co_clients (wk_coord w) then Some (count_down w) else None)"
| "wake_act (Advance i) w =
     (if i < length (wk_tasks w)
      then (let (t, w1) = task_step (wk_tasks w ! i) w in Some (w1\<lparr>wk_tasks := (wk_tasks w)[i := t]\<rparr>))
      else None)"

fun wake_run :: "wake_action list \<Rightarrow> wake_state \<Rightarrow> wake_state option" where
  "wake_run [] w = Some w"
| "wake_run (a # as) w = (case wake_act a w of None \<Rightarrow> None | Some w1 \<Rightarrow> wake_run as w1)"

section \<open>The whole operations\<close>

text \<open>Run without interruption, the critical sections are the operations of the coordinator.\<close>

lemma write_error_in_steps:
  assumes "co_slots c \<noteq> []"
  shows "map_option wk_coord (wake_run
      (Fail e st now #
        (if co_state c = Active then [Advance 0, Advance 0] else [Advance 0]))
      (new_wake_state c)) = Some (write_error e st now c)"
  using assms
  by (simp add: write_error_def write_chunk_def swap_chunk_def new_wake_state_def add_task_def
      notify_subscribers_def Let_def)

lemma unregister_in_steps:
  assumes "0 < co_clients c"
  shows "map_option wk_coord (wake_run
      (Depart # (if co_clients c = 1 then [Advance 0, Advance 0, Advance 0] else [])) (new_wake_state c)) =
    Some (unregister_client c)"
  using assms
  by (simp add: unregister_client_def count_down_def new_wake_state_def add_task_def reader_present_def
      drain_stream_def notify_subscribers_def clear_buffer_def Let_def)

section \<open>A reader that subscribed in time\<close>

definition is_due :: "task \<Rightarrow> bool" where
  "is_due t = (t = TaskWipe \<or> t = TaskNotify False \<or> t = TaskNotify True)"

definition is_closing :: "task \<Rightarrow> bool" where
  "is_closing t = (t = TaskClose \<or> t = TaskNotify True)"

definition has_something :: "coordinator \<Rightarrow> nat \<Rightarrow> bool" where
  "has_something c p = (co_slots c \<noteq> [] \<and> \<not> (p = co_pos c \<and> co_state c = Active))"

lemma has_something_look: "co_slots c \<noteq> [] \<Longrightarrow> has_something c p \<longleftrightarrow> look c (Waiting p) \<noteq> Blocked p"
  by (auto simp: has_something_def look_def read_poll_def split: prod.splits option.splits)

text \<open>The parked reader is not forgotten: while there is something for it, its channel is closed
  or a task will close it.\<close>

definition remembered :: "wake_state \<Rightarrow> nat \<Rightarrow> nat \<Rightarrow> bool" where
  "remembered w p g =
     (g \<le> wk_channel w \<and>
      (g < wk_channel w \<or> (\<exists>t \<in> set (wk_tasks w). is_due t) \<or> \<not> has_something (wk_coord w) p))"

text \<open>No goroutine is about to close a stream that is active, and the reader is counted.\<close>

definition settled :: "wake_state \<Rightarrow> bool" where
  "settled w =
     (((\<exists>t \<in> set (wk_tasks w). is_closing t) \<longrightarrow> co_state (wk_coord w) \<noteq> Active) \<and>
      0 < co_clients (wk_coord w) \<and> reader_present w)"

text \<open>The actions of the other goroutines. Every \<open>writeError\<close> of the code has an error or a
  status other than 0.\<close>

fun other_action :: "wake_action \<Rightarrow> bool" where
  "other_action (Swap ch) = True"
| "other_action (Fail e status now) = (e \<noteq> None \<or> status \<noteq> 0)"
| "other_action Arrive = True"
| "other_action Depart = True"
| "other_action (Advance i) = True"
| "other_action _ = False"

lemma set_update_others: "x \<in> set xs \<Longrightarrow> x \<noteq> xs ! i \<Longrightarrow> x \<in> set (xs[i := y])"
  by (metis in_set_conv_nth nth_list_update_neq length_list_update)

lemma set_update_cases: "x \<in> set (xs[i := y]) \<Longrightarrow> x = y \<or> x \<in> set xs"
  using set_update_subset_insert [of xs i y] by auto

lemma write_chunk_cases:
  assumes "write_chunk ch c = (r, d)"
  shows "r = Written \<Longrightarrow> co_state c = Active" and "r = Refused \<Longrightarrow> d = c \<and> co_state c \<noteq> Active"
    and "co_clients d = co_clients c"
    and "r = Written \<Longrightarrow> co_state d \<noteq> Active \<longleftrightarrow> ck_error ch \<noteq> None \<or> ck_status ch \<noteq> 0"
  using assms by (auto simp: write_chunk_def Let_def split: if_splits)

lemma swap_chunk_cases:
  assumes "swap_chunk ch closing w = Some w1"
  obtains (written) c where "write_chunk ch (wk_coord w) = (Written, c)"
      "w1 = add_task (TaskNotify closing) (w\<lparr>wk_coord := c\<rparr>)"
    | (refused) "co_state (wk_coord w) \<noteq> Active"
      "w1 = add_task (if closing then TaskClose else TaskDone) w"
proof (cases "write_chunk ch (wk_coord w)")
  case (Pair r c)
  note wc = write_chunk_cases [OF Pair]
  show ?thesis
  proof (cases r)
    case Refused
    then have "c = wk_coord w" using wc(2) by simp
    then show ?thesis using assms Pair Refused wc(2) refused by (simp add: swap_chunk_def)
  qed (use assms Pair written in \<open>auto simp: swap_chunk_def\<close>)
qed

lemma other_action_reader:
  "wake_act a w = Some w1 \<Longrightarrow> other_action a \<Longrightarrow> wk_reader w1 = wk_reader w"
proof (cases a)
  case (Advance i)
  then show "wake_act a w = Some w1 \<Longrightarrow> wk_reader w1 = wk_reader w"
    by (cases "wk_tasks w ! i") (auto simp: Let_def notify_subscribers_def split: if_splits)
qed (auto simp: count_down_def add_task_def Let_def elim!: swap_chunk_cases split: if_splits)

lemma settled_swap:
  assumes "swap_chunk ch closing w = Some w1" and ok: "settled w" and "reader_present w1"
    and err: "closing \<Longrightarrow> ck_error ch \<noteq> None \<or> ck_status ch \<noteq> 0"
  shows "settled w1"
  using assms(1)
proof (cases rule: swap_chunk_cases)
  case (written c)
  note wc = write_chunk_cases [OF written(1)]
  have none: "\<not> (\<exists>t \<in> set (wk_tasks w). is_closing t)" using wc(1) ok by (auto simp: settled_def)
  have "closing \<longrightarrow> co_state c \<noteq> Active" using wc(4) err by blast
  then show ?thesis
    using none ok wc(3) assms(3) unfolding written(2) settled_def add_task_def is_closing_def by auto
next
  case refused
  then show ?thesis using ok assms(3) by (auto simp: settled_def add_task_def)
qed

lemma advance_task:
  assumes "wake_act (Advance i) w = Some w1"
  shows "wk_tasks w ! i \<in> set (wk_tasks w)" and "i < length (wk_tasks w)"
    and "w1 = (snd (task_step (wk_tasks w ! i) w))\<lparr>wk_tasks := (wk_tasks w)[i := fst (task_step (wk_tasks w ! i) w)]\<rparr>"
  using assms by (auto simp: Let_def case_prod_beta split: if_splits)

lemma task_step_closing: "is_closing (fst (task_step t w)) \<Longrightarrow> is_closing t"
  by (cases t) (auto simp: is_closing_def split: if_splits)

lemma task_step_coord:
  "co_clients (wk_coord (snd (task_step t w))) = co_clients (wk_coord w)"
  "co_state (wk_coord w) \<noteq> Active \<Longrightarrow> co_state (wk_coord (snd (task_step t w))) \<noteq> Active"
  by (cases t; simp add: drain_stream_def clear_buffer_def notify_subscribers_def)+

lemma settled_advance:
  assumes act: "wake_act (Advance i) w = Some w1" and ok: "settled w" and reader: "reader_present w1"
  shows "settled w1"
proof -
  note adv = advance_task [OF act]
  have old: "\<exists>t \<in> set (wk_tasks w). is_closing t" if "t \<in> set (wk_tasks w1)" "is_closing t" for t
  proof -
    have "t = fst (task_step (wk_tasks w ! i) w) \<or> t \<in> set (wk_tasks w)"
      using that(1) unfolding adv(3) by (simp add: set_update_cases)
    then show ?thesis using that(2) adv(1) task_step_closing by blast
  qed
  have "co_clients (wk_coord w1) = co_clients (wk_coord w)"
    and "co_state (wk_coord w) \<noteq> Active \<Longrightarrow> co_state (wk_coord w1) \<noteq> Active"
    unfolding adv(3) by (simp_all add: task_step_coord)
  then show ?thesis using ok reader old unfolding settled_def by metis
qed

lemma settled_step:
  assumes act: "wake_act a w = Some w1" and other: "other_action a" and ok: "settled w"
  shows "settled w1"
proof -
  have reader: "reader_present w1"
    using ok other_action_reader [OF act other] by (simp add: settled_def reader_present_def)
  show ?thesis
  proof (cases a)
    case (Swap ch)
    then show ?thesis using act by (intro settled_swap [OF _ ok reader, of ch False]) auto
  next
    case (Fail e status now)
    then show ?thesis
      using act other
      by (intro settled_swap [OF _ ok reader, of "new_chunk\<lparr>ck_error := e, ck_status := status, ck_time := now\<rparr>" True])
         auto
  next
    case Arrive
    then show ?thesis using act ok reader by (auto simp: settled_def register_client_def Let_def)
  next
    case Depart
    then have "1 < co_clients (wk_coord w)"
        "w1 = w\<lparr>wk_coord := (wk_coord w)\<lparr>co_clients := co_clients (wk_coord w) - 1\<rparr>\<rparr>"
      using act ok by (simp_all add: settled_def count_down_def Let_def split: if_splits)
    then show ?thesis using ok by (simp add: settled_def reader_present_def)
  next
    case (Advance i)
    then show ?thesis using act settled_advance [OF _ ok reader] by simp
  qed (use other in simp_all)
qed

text \<open>What a change of the coordinator by another goroutine leaves of the memory of a reader.\<close>

lemma remembered_swap:
  assumes "swap_chunk ch closing w = Some w1" and rem: "remembered w p g"
  shows "remembered w1 p g"
  using assms(1)
proof (cases rule: swap_chunk_cases)
  case (written c)
  then show ?thesis
    using rem by (cases closing) (auto simp: remembered_def add_task_def is_due_def)
next
  case refused
  then show ?thesis using rem by (auto simp: remembered_def add_task_def)
qed

lemma remembered_update:
  assumes rem: "remembered w p g" and same: "wk_channel w1 = wk_channel w" "set (wk_tasks w) \<subseteq> set (wk_tasks w1)"
    and some: "has_something (wk_coord w1) p \<Longrightarrow> has_something (wk_coord w) p"
  shows "remembered w1 p g"
  using assms by (auto simp: remembered_def)

lemma remembered_advance:
  assumes act: "wake_act (Advance i) w = Some w1" and ok: "settled w" and rem: "remembered w p g"
  shows "remembered w1 p g"
proof -
  let ?t = "wk_tasks w ! i"
  note t = advance_task(1) [OF act] and i = advance_task(2) [OF act] and w1 = advance_task(3) [OF act]
  have others: "\<exists>x \<in> set ((wk_tasks w)[i := y]). is_due x" if "\<exists>x \<in> set (wk_tasks w). is_due x" "\<not> is_due ?t" for y
    using that set_update_others by metis
  have new: "y \<in> set ((wk_tasks w)[i := y])" for y using i by (simp add: set_update_memI)
  show ?thesis
  proof (cases ?t)
    case TaskDrain
    then show ?thesis
      using rem new [of TaskWipe] by (auto simp: w1 remembered_def is_due_def)
  next
    case TaskWipe
    then show ?thesis
      using rem new [of "TaskNotify False"] by (auto simp: w1 remembered_def is_due_def)
  next
    case (TaskNotify close)
    then show ?thesis using rem by (auto simp: w1 remembered_def notify_subscribers_def)
  next
    case TaskClose
    then have "co_state (wk_coord w) \<noteq> Active" using ok t by (auto simp: settled_def is_closing_def)
    then have "has_something ((wk_coord w)\<lparr>co_state := Closed\<rparr>) p \<Longrightarrow> has_something (wk_coord w) p"
      by (auto simp: has_something_def)
    then show ?thesis
      using rem others TaskClose by (auto simp: w1 remembered_def is_due_def)
  next
    case TaskDone
    then have "(wk_tasks w)[i := TaskDone] = wk_tasks w" by (metis list_update_id)
    then show ?thesis using rem TaskDone by (simp add: w1 remembered_def)
  qed
qed

lemma remembered_step:
  assumes act: "wake_act a w = Some w1" and other: "other_action a" and ok: "settled w" and rem: "remembered w p g"
  shows "remembered w1 p g"
proof (cases a)
  case (Swap ch)
  then show ?thesis using act remembered_swap [OF _ rem] by simp
next
  case (Fail e status now)
  then show ?thesis using act remembered_swap [OF _ rem] by simp
next
  case Arrive
  then have "w1 = w\<lparr>wk_coord := (wk_coord w)\<lparr>co_clients := co_clients (wk_coord w) + 1\<rparr>\<rparr>"
    using act ok by (auto simp: settled_def register_client_def Let_def)
  then show ?thesis by (intro remembered_update [OF rem]) (simp_all add: has_something_def)
next
  case Depart
  then show ?thesis
    using act by (intro remembered_update [OF rem])
      (auto simp: count_down_def add_task_def has_something_def Let_def split: if_splits)
next
  case (Advance i)
  then show ?thesis using act remembered_advance [OF _ ok rem] by simp
qed (use other in simp_all)

lemma other_run:
  "wake_run as w = Some w1 \<Longrightarrow> list_all other_action as \<Longrightarrow> settled w \<Longrightarrow> remembered w p g \<Longrightarrow>
     settled w1 \<and> remembered w1 p g \<and> wk_reader w1 = wk_reader w"
proof (induction as arbitrary: w)
  case (Cons a as)
  then obtain v where v: "wake_act a w = Some v" "wake_run as v = Some w1" by (auto split: option.splits)
  have a: "other_action a" using Cons.prems(2) by simp
  show ?case
    using Cons.IH [OF v(2)] Cons.prems settled_step [OF v(1) a] remembered_step [OF v(1) a]
      other_action_reader [OF v(1) a] by simp
qed simp

lemma woken_reader:
  assumes "wk_reader w = Parked p g" and "remembered w p g" and "has_something (wk_coord w) p"
    and quiet: "list_all (\<lambda>t. \<not> is_due t) (wk_tasks w)"
  shows "\<exists>chs e q. map_option wk_reader (wake_run [Wake, Look] w) = Some (Returned chs e q)"
proof -
  have "g < wk_channel w" using assms(2,3) quiet by (auto simp: remembered_def list_all_iff)
  moreover have "\<exists>chs e q. look (wk_coord w) (Waiting p) = Chunks chs e q"
    using assms(3) by (auto simp: has_something_def look_def read_poll_def split: prod.splits option.splits)
  ultimately show ?thesis using assms(1) by (auto simp: channel_closed_def)
qed

section \<open>A reader that is forgotten\<close>

text \<open>Parked at a channel that nobody is going to close, in a stream that takes no more writes.\<close>

definition forgotten :: "wake_state \<Rightarrow> bool" where
  "forgotten w =
     (list_all (\<lambda>t. t = TaskClose \<or> t = TaskDone) (wk_tasks w) \<and> co_state (wk_coord w) \<noteq> Active \<and>
      0 < co_clients (wk_coord w) \<and> reader_present w)"

lemma forgotten_step:
  assumes act: "wake_act a w = Some w1" and other: "other_action a" and ok: "forgotten w"
  shows "forgotten w1 \<and> wk_channel w1 = wk_channel w"
proof -
  have reader: "reader_present w1"
    using ok other_action_reader [OF act other] by (simp add: forgotten_def reader_present_def)
  have swap: "forgotten w1 \<and> wk_channel w1 = wk_channel w" if "swap_chunk ch closing w = Some w1" for ch closing
    using that
  proof (cases rule: swap_chunk_cases)
    case (written c)
    then show ?thesis using write_chunk_cases(1) [OF written(1)] ok by (simp add: forgotten_def)
  next
    case refused
    then show ?thesis using ok reader by (simp add: forgotten_def add_task_def)
  qed
  show ?thesis
  proof (cases a)
    case Arrive
    then show ?thesis using act ok reader by (auto simp: forgotten_def register_client_def Let_def)
  next
    case Depart
    then have "1 < co_clients (wk_coord w)"
        "w1 = w\<lparr>wk_coord := (wk_coord w)\<lparr>co_clients := co_clients (wk_coord w) - 1\<rparr>\<rparr>"
      using act ok by (simp_all add: forgotten_def count_down_def Let_def split: if_splits)
    then show ?thesis using ok by (simp add: forgotten_def reader_present_def)
  next
    case (Advance i)
    then have act': "wake_act (Advance i) w = Some w1" using act by simp
    note adv = advance_task [OF act']
    have old: "wk_tasks w ! i = TaskClose \<or> wk_tasks w ! i = TaskDone" using ok adv(1) by (auto simp: forgotten_def list_all_iff)
    then have "fst (task_step (wk_tasks w ! i) w) = TaskDone" by auto
    then have "list_all (\<lambda>t. t = TaskClose \<or> t = TaskDone) (wk_tasks w1)"
      using ok unfolding adv(3) by (auto simp: forgotten_def list_all_iff dest!: set_update_cases)
    moreover have "wk_channel w1 = wk_channel w" "co_clients (wk_coord w1) = co_clients (wk_coord w)"
        "co_state (wk_coord w1) \<noteq> Active"
      using old ok unfolding adv(3) by (auto simp: forgotten_def)
    ultimately show ?thesis using ok reader by (simp add: forgotten_def)
  next
    case (Swap ch)
    then show ?thesis using act swap by simp
  next
    case (Fail e status now)
    then show ?thesis using act swap by simp
  qed (use other in simp_all)
qed

lemma forgotten_run:
  "wake_run as w = Some w1 \<Longrightarrow> list_all other_action as \<Longrightarrow> forgotten w \<Longrightarrow>
     forgotten w1 \<and> wk_channel w1 = wk_channel w \<and> wk_reader w1 = wk_reader w"
proof (induction as arbitrary: w)
  case (Cons a as)
  then obtain v where v: "wake_act a w = Some v" "wake_run as v = Some w1" by (auto split: option.splits)
  have a: "other_action a" using Cons.prems(2) by simp
  show ?case
    using Cons.IH [OF v(2)] Cons.prems forgotten_step [OF v(1) a] other_action_reader [OF v(1) a] by simp
qed simp

lemma forgotten_never_wakes:
  assumes "forgotten w" and "wk_reader w = Parked p g" and "\<not> channel_closed w g"
    and "wake_run as w = Some w1" and "list_all other_action as"
  shows "wk_reader w1 = Parked p g" and "wake_act Wake w1 = None"
  using forgotten_run [OF assms(4,5,1)] assms(2,3) by (auto simp: channel_closed_def)

lemma write_error_slots [simp]: "co_slots (write_error e status now c) = [] \<longleftrightarrow> co_slots c = []"
  by (auto simp: write_error_def write_chunk_def Let_def)

text \<open>The error chunk of an ending writer comes between the look and the subscription.\<close>

definition missed_end :: "stream_error option \<Rightarrow> int \<Rightarrow> int \<Rightarrow> wake_action list" where
  "missed_end e status now = [Fail e status now, Advance 0, Advance 0, Subscribe]"

lemma missed_end_state:
  assumes reader: "wk_reader w = Subscribing p" and w: "wk_tasks w = []" "0 < co_clients (wk_coord w)"
    and active: "co_state (wk_coord w) = Active" and ring: "co_slots (wk_coord w) \<noteq> []"
  shows "\<exists>w1. wake_run (missed_end e status now) w = Some w1 \<and> forgotten w1 \<and>
    wk_reader w1 = Parked p (wk_channel w1) \<and> wk_coord w1 = write_error e status now (wk_coord w)"
proof -
  obtain c where c: "write_chunk (new_chunk\<lparr>ck_error := e, ck_status := status, ck_time := now\<rparr>) (wk_coord w) = (Written, c)"
    using active ring by (auto simp: write_chunk_def Let_def)
  then have "write_error e status now (wk_coord w) = c\<lparr>co_state := Closed\<rparr>"
    by (simp add: write_error_def)
  moreover have "co_clients c = co_clients (wk_coord w)" using write_chunk_cases(3) [OF c] .
  ultimately show ?thesis
    using c reader w by (simp add: missed_end_def swap_chunk_def add_task_def notify_subscribers_def subscribe_def
        forgotten_def reader_present_def)
qed

section \<open>A stream that is drained under a client\<close>

text \<open>Closed or draining, empty, without an error: a reader gets nothing and is told nothing.\<close>

definition drained :: "coordinator \<Rightarrow> bool" where
  "drained c =
     (co_state c \<noteq> Active \<and> co_last_error c = NilStored \<and> co_slots c \<noteq> [] \<and>
      co_slots c = map (\<lambda>_. new_chunk) (co_slots c))"

lemma drained_slot: "drained c \<Longrightarrow> p < ring_size c \<Longrightarrow> co_slots c ! p = new_chunk"
  by (metis drained_def nth_map ring_size_def)

lemma drained_walk:
  "drained c \<Longrightarrow> p < ring_size c \<Longrightarrow> co_pos c < ring_size c \<Longrightarrow>
     \<exists>q. walk n c p [] None = ([], None, q) \<and> q < ring_size c"
proof (induction n arbitrary: p)
  case (Suc n)
  have "ring_next c p < ring_size c" using Suc.prems(2) by (simp add: ring_next_def)
  then show ?case
    using Suc.IH [of "ring_next c p"] Suc.prems drained_slot [OF Suc.prems(1,2)]
    by (auto simp: payload_def error_of_def new_chunk_def)
qed auto

lemma drained_look:
  assumes d: "drained c" and pos: "co_pos c < ring_size c" and p: "p < ring_size c"
  shows "\<exists>q. look c (At p) = Chunks [] None q \<and> q < ring_size c"
proof -
  have r: "read_start c (Some p) < ring_size c" using pos p by (simp add: read_start_def Let_def)
  have "\<exists>q. read_poll c (read_start c (Some p)) = Chunks [] None q \<and> q < ring_size c"
    using drained_walk [OF d r pos, of "ring_size c"] d by (auto simp: read_poll_def drained_def)
  then show ?thesis using d by (simp add: look_def read_chunks_def drained_def)
qed

lemma drained_write:
  assumes "drained c"
  shows "write_chunk ch c = (Refused, c)" and "drained (write_error e status now c)"
    and "co_pos (write_error e status now c) = co_pos c" and "ring_size (write_error e status now c) = ring_size c"
  using assms by (auto simp: drained_def write_chunk_def write_error_def ring_size_def)

text \<open>The reader loop of such a client never ends by itself: it ends with its context only,
  whatever the others do that leaves the stream drained (a refused write, the end of a writer,
  another client).\<close>

definition stays_drained :: "nat \<Rightarrow> coordinator \<Rightarrow> bool" where
  "stays_drained n c = (drained c \<and> ring_size c = n \<and> co_pos c < n \<and> 0 < co_clients c)"

definition keeps_drained :: "nat \<Rightarrow> (coordinator \<Rightarrow> coordinator) \<Rightarrow> bool" where
  "keeps_drained n f = (\<forall>c. stays_drained n c \<longrightarrow> stays_drained n (f c))"

lemma keeps_drained_ops:
  "keeps_drained n (\<lambda>c. c)"
  "keeps_drained n (\<lambda>c. snd (write_chunk ch c))"
  "keeps_drained n (write_error e status now)"
  "keeps_drained n register_client"
  "keeps_drained n (\<lambda>c. snd (join_stream c))"
  "keeps_drained n writer_stopped"
proof -
  have j: "stays_drained n (snd (join_stream c))" if c: "stays_drained n c" for c
  proof -
    have "co_slots c = map (\<lambda>_. new_chunk) (co_slots c)" using c by (simp add: stays_drained_def drained_def)
    then show ?thesis
      using c by (auto simp: stays_drained_def drained_def join_stream_def claim_writer_def register_client_def
          clear_buffer_def ring_size_def Let_def)
  qed
  show "keeps_drained n (\<lambda>c. c)" "keeps_drained n (\<lambda>c. snd (write_chunk ch c))"
    "keeps_drained n (write_error e status now)"
    by (auto simp: keeps_drained_def stays_drained_def drained_write) (auto simp: drained_def write_chunk_def write_error_def)
  show "keeps_drained n register_client" "keeps_drained n writer_stopped"
    by (auto simp: keeps_drained_def stays_drained_def register_client_def writer_stopped_def finish_writer_setup_def
        drained_def ring_size_def Let_def)
  show "keeps_drained n (\<lambda>c. snd (join_stream c))" using j by (simp add: keeps_drained_def)
qed

lemma drained_reader:
  assumes "stays_drained n c" and "p < n" and "list_all (\<lambda>t. \<not> rt_done t \<and> keeps_drained n (rt_other t)) ts"
  shows "reader_loop r ts (At p) k cl c = None"
  using assms
proof (induction ts arbitrary: p c)
  case (Cons t ts)
  have c: "stays_drained n (rt_other t c)" using Cons.prems by (simp add: keeps_drained_def)
  obtain q where q: "look (rt_other t c) (At p) = Chunks [] None q" "q < n"
    using drained_look [of "rt_other t c" p] c Cons.prems(2) by (auto simp: stays_drained_def)
  show ?case using Cons.IH [OF c q(2)] Cons.prems(3) q(1) by simp
qed simp

text \<open>The last client counts itself out; another client joins before the stream is drained.\<close>

definition drain_after_join :: "wake_action list" where
  "drain_after_join = [Depart, Join, Advance 0, Advance 0, Advance 0]"

lemma drain_after_join_state:
  assumes c: "co_clients c = 1" "co_state c = Active" "co_last_error c = NilStored" and ring: "co_slots c \<noteq> []"
  shows "\<exists>w. wake_run drain_after_join (new_wake_state c) = Some w \<and> drained (wk_coord w) \<and>
    wk_reader w = Looking (At (ring_prev c (co_pos c))) \<and> co_clients (wk_coord w) = 1 \<and>
    co_pos (wk_coord w) = co_pos c \<and> ring_size (wk_coord w) = ring_size c"
  using assms
  by (simp add: drain_after_join_def new_wake_state_def reader_present_def count_down_def add_task_def
      register_client_def drain_stream_def clear_buffer_def notify_subscribers_def drained_def ring_size_def
      ring_prev_def Let_def)

section \<open>Waiting for the setup of a writer\<close>

text \<open>Every setup has a channel of its own, made by \<open>TryStartWriterSetup\<close> and closed by
  \<open>FinishWriterSetup\<close>; \<open>sw_made\<close> counts the channels made. A channel is closed when it is not
  the one of a setup that is under way.\<close>

record setup_state =
  sw_coord :: coordinator
  sw_made :: nat

definition begin_setup :: "setup_state \<Rightarrow> bool \<times> setup_state" where
  "begin_setup s =
     (let (ok, c) = try_start_writer_setup (sw_coord s) in
      (ok, s\<lparr>sw_coord := c, sw_made := sw_made s + (if ok then 1 else 0)\<rparr>))"

definition end_setup :: "setup_state \<Rightarrow> setup_state" where
  "end_setup s = s\<lparr>sw_coord := finish_writer_setup (sw_coord s)\<rparr>"

text \<open>The channel that \<open>WaitForWriterSetup\<close> waits for, if it waits.\<close>

definition wait_for_writer_setup :: "setup_state \<Rightarrow> nat option" where
  "wait_for_writer_setup s = (if must_wait_for_setup (sw_coord s) then Some (sw_made s) else None)"

definition setup_over :: "setup_state \<Rightarrow> nat \<Rightarrow> bool" where
  "setup_over s k = (k < sw_made s \<or> (k = sw_made s \<and> \<not> co_setup_busy (sw_coord s)))"

text \<open>A waiter waits exactly for the setup that was under way: it is released when that setup ends,
  and stays so if another begins before it runs.\<close>

lemma setup_waiter:
  "wait_for_writer_setup s = Some k \<Longrightarrow> \<not> setup_over s k"
  "wait_for_writer_setup s = Some k \<Longrightarrow> setup_over (end_setup s) k"
  "setup_over s k \<Longrightarrow> setup_over (snd (begin_setup s)) k"
  "setup_over s k \<Longrightarrow> setup_over (end_setup s) k"
  "wait_for_writer_setup s = Some k \<Longrightarrow> setup_over (snd (begin_setup (end_setup s))) k"
  by (auto simp: wait_for_writer_setup_def must_wait_for_setup_def setup_over_def begin_setup_def end_setup_def
      try_start_writer_setup_def finish_writer_setup_def split: if_splits)

section \<open>Waiting for the response header\<close>

text \<open>\<open>respHeaderSet\<close> points to the channel made last; a writer makes a channel when it starts, and
  closes the one that is there when it has the header. Closing a closed channel panics.\<close>

record header_state =
  hd_made :: nat
  hd_closed :: "nat list"

definition new_header_channel :: "header_state \<Rightarrow> header_state" where
  "new_header_channel h = h\<lparr>hd_made := Suc (hd_made h)\<rparr>"

definition publish_header :: "header_state \<Rightarrow> header_state option" where
  "publish_header h = (if hd_made h \<in> set (hd_closed h) then None else Some (h\<lparr>hd_closed := hd_made h # hd_closed h\<rparr>))"

definition wait_headers :: "header_state \<Rightarrow> nat" where
  "wait_headers h = hd_made h"

definition header_ready :: "header_state \<Rightarrow> nat \<Rightarrow> bool" where
  "header_ready h k = (k \<in> set (hd_closed h))"

text \<open>A writer that gets its slot closes its own channel, which is not closed yet; one that is
  refused (\<open>got\<close> false) leaves it.\<close>

definition writer_headers :: "bool \<Rightarrow> header_state \<Rightarrow> header_state option" where
  "writer_headers got h = (if got then publish_header (new_header_channel h) else Some (new_header_channel h))"

definition headers_ok :: "header_state \<Rightarrow> bool" where
  "headers_ok h = (\<forall>k \<in> set (hd_closed h). k \<le> hd_made h)"

lemma writer_headers_ok:
  "headers_ok h \<Longrightarrow> \<exists>h1. writer_headers got h = Some h1 \<and> headers_ok h1 \<and> (header_ready h1 (wait_headers h1) \<longleftrightarrow> got)"
  by (auto simp: writer_headers_def publish_header_def new_header_channel_def headers_ok_def header_ready_def
      wait_headers_def)

fun writers_headers :: "bool list \<Rightarrow> header_state \<Rightarrow> header_state option" where
  "writers_headers [] h = Some h"
| "writers_headers (got # gots) h =
     (case writer_headers got h of None \<Rightarrow> None | Some h1 \<Rightarrow> writers_headers gots h1)"

text \<open>The channel of a refused writer is never closed: a reader that took it waits until its context
  ends, even when later writers have headers.\<close>

lemma channel_stays_open:
  "writers_headers gots h = Some h1 \<Longrightarrow> k \<notin> set (hd_closed h) \<Longrightarrow> k \<le> hd_made h \<Longrightarrow> k \<notin> set (hd_closed h1)"
proof (induction gots arbitrary: h)
  case (Cons got gots)
  then obtain h' where h': "writer_headers got h = Some h'" "writers_headers gots h' = Some h1"
    by (auto split: option.splits)
  have "k \<notin> set (hd_closed h') \<and> k \<le> hd_made h'"
    using h'(1) Cons.prems(2,3)
    by (auto simp: writer_headers_def publish_header_def new_header_channel_def split: if_splits)
  then show ?case using Cons.IH [OF h'(2)] by simp
qed simp

lemma refused_writer_channel:
  assumes "headers_ok h" and "writer_headers False h = Some h1" and "writers_headers gots h1 = Some h2"
  shows "\<not> header_ready h2 (wait_headers h1)"
proof -
  have "wait_headers h1 \<notin> set (hd_closed h1)" "wait_headers h1 \<le> hd_made h1"
    using assms(1,2) by (fastforce simp: writer_headers_def new_header_channel_def headers_ok_def wait_headers_def)+
  then show ?thesis using channel_stays_open [OF assms(3)] by (simp add: header_ready_def)
qed

section \<open>The contract of the channels\<close>

text \<open>The three channels keep one contract: who takes the channel while its event is pending finds it
  open, the event closes it, and no step opens a channel again. So a waiter that has been
  released stays released, however late it looks.\<close>

locale wake_channel =
  fixes token :: "'s \<Rightarrow> nat" and pending :: "'s \<Rightarrow> bool" and closed :: "'s \<Rightarrow> nat \<Rightarrow> bool"
    and fire :: "'s \<Rightarrow> 's" and step :: "'s \<Rightarrow> 's \<Rightarrow> bool"
  assumes open_while_pending: "pending s \<Longrightarrow> \<not> closed s (token s)"
    and fire_closes: "closed (fire s) (token s)"
    and stays_closed: "closed s k \<Longrightarrow> step s t \<Longrightarrow> closed t k"
begin

lemma closed_for_ever: "step\<^sup>*\<^sup>* s t \<Longrightarrow> closed s k \<Longrightarrow> closed t k"
  by (induction rule: rtranclp_induct) (auto intro: stays_closed)

lemma released_for_ever: "step\<^sup>*\<^sup>* (fire s) t \<Longrightarrow> closed t (token s)"
  using closed_for_ever fire_closes by blast

lemma released_by_event: "pending s \<Longrightarrow> \<not> closed s (token s) \<and> closed (fire s) (token s)"
  using open_while_pending fire_closes by blast

end

definition wake_step :: "wake_state \<Rightarrow> wake_state \<Rightarrow> bool" where
  "wake_step w v = (\<exists>a. wake_act a w = Some v)"

lemma wake_step_channel: "wake_step w v \<Longrightarrow> wk_channel w \<le> wk_channel v"
proof -
  assume "wake_step w v"
  then obtain a where a: "wake_act a w = Some v" by (auto simp: wake_step_def)
  show ?thesis
  proof (cases a)
    case (Advance i)
    then show ?thesis
      using a by (cases "wk_tasks w ! i") (auto simp: Let_def notify_subscribers_def split: if_splits)
  qed (use a in \<open>auto simp: count_down_def add_task_def Let_def elim!: swap_chunk_cases
        split: if_splits reader_pc.splits option.splits\<close>)
qed

interpretation broadcast: wake_channel subscribe "\<lambda>_. True" channel_closed notify_subscribers wake_step
  by unfold_locales
     (auto simp: subscribe_def channel_closed_def notify_subscribers_def dest: wake_step_channel)

definition setup_step :: "setup_state \<Rightarrow> setup_state \<Rightarrow> bool" where
  "setup_step s t = (t = snd (begin_setup s) \<or> t = end_setup s)"

interpretation setups: wake_channel sw_made "\<lambda>s. co_setup_busy (sw_coord s)" setup_over end_setup setup_step
proof unfold_locales
  show "setup_over t k" if "setup_over s k" "setup_step s t" for s t k
    using that setup_waiter(3,4) by (auto simp: setup_step_def)
qed (auto simp: setup_over_def end_setup_def finish_writer_setup_def)

definition header_step :: "header_state \<Rightarrow> header_state \<Rightarrow> bool" where
  "header_step h g = (g = new_header_channel h \<or> publish_header h = Some g)"

text \<open>\<open>close\<close> on the channel that is there; it panics when it is closed already.\<close>

definition close_header :: "header_state \<Rightarrow> header_state" where
  "close_header h = (case publish_header h of None \<Rightarrow> h | Some g \<Rightarrow> g)"

interpretation headers: wake_channel wait_headers "\<lambda>h. hd_made h \<notin> set (hd_closed h)" header_ready close_header header_step
  by unfold_locales
     (auto simp: wait_headers_def header_ready_def close_header_def header_step_def publish_header_def
        new_header_channel_def split: if_splits)

text \<open>A reader whose channel has been closed can wake up at any later time.\<close>

lemma woken_stays_woken:
  "wake_step\<^sup>*\<^sup>* (notify_subscribers w) v \<Longrightarrow> wk_reader v = Parked p (subscribe w) \<Longrightarrow>
     wake_act Wake v = Some (v\<lparr>wk_reader := Looking (Waiting p)\<rparr>)"
  using broadcast.released_for_ever by simp

text \<open>A client that waits for the setup of a writer gets through once that setup has ended, whatever
  setups follow.\<close>

lemma setup_waiter_released:
  "wait_for_writer_setup s = Some k \<Longrightarrow> setup_step\<^sup>*\<^sup>* (end_setup s) t \<Longrightarrow> setup_over t k"
  using setups.released_for_ever by (auto simp: wait_for_writer_setup_def split: if_splits)

text \<open>A client that takes the channel of a header gets it when that header is published, also when
  other writers have made channels since.\<close>

lemma header_waiter_released:
  "publish_header h = Some g \<Longrightarrow> header_step\<^sup>*\<^sup>* g t \<Longrightarrow> header_ready t (wait_headers h)"
  using headers.released_for_ever [of h t] by (simp add: close_header_def)

section \<open>The registry and its clean-up\<close>

text \<open>\<open>NewStreamRegistry\<close> with the loop of \<open>runCleanup\<close>: ticks of the clean-up and the end by
  \<open>Shutdown\<close>, with what requests do to the registry in between. No interval, no clean-up.\<close>

datatype registry_event = CleanupTick | RegistryDone | Requests "registry \<Rightarrow> registry"

fun run_cleanup :: "registry_event list \<Rightarrow> registry \<Rightarrow> registry" where
  "run_cleanup [] reg = reg"
| "run_cleanup (RegistryDone # evs) reg = reg"
| "run_cleanup (CleanupTick # evs) reg = run_cleanup evs (registry_cleanup reg)"
| "run_cleanup (Requests f # evs) reg = run_cleanup evs (f reg)"

definition new_stream_registry :: registry where "new_stream_registry = []"

lemma cleanup_lookup:
  "distinct (map fst reg) \<Longrightarrow>
     map_of (registry_cleanup reg) i =
       (case map_of reg i of None \<Rightarrow> None | Some c \<Rightarrow> if co_clients c = 0 then None else Some c)"
proof (induction reg)
  case (Cons e reg)
  obtain k c where e: "e = (k, c)" by (cases e)
  have "map_of reg k = None" using Cons.prems by (simp add: e map_of_eq_None_iff)
  moreover have "registry_cleanup (e # reg) = (if co_clients c \<noteq> 0 then e # registry_cleanup reg else registry_cleanup reg)"
    by (simp add: registry_cleanup_def e)
  ultimately show ?case using Cons by (auto simp: e split: option.splits)
qed (simp add: registry_cleanup_def)

text \<open>A stream with clients is never dropped.\<close>

lemma cleanup_keeps_clients:
  "distinct (map fst reg) \<Longrightarrow> map_of reg i = Some c \<Longrightarrow> co_clients c \<noteq> 0 \<Longrightarrow> map_of (registry_cleanup reg) i = Some c"
  by (simp add: cleanup_lookup)

text \<open>A client that has fetched the coordinator and is setting the writer up is not counted yet: a
  clean-up drops its coordinator, and the next client gets another one and sets a second writer up
  for the same stream.\<close>

lemma cleanup_splits_stream:
  assumes reg: "distinct (map fst reg)" "get_or_create_coordinator cfg i reg = (c, reg1)"
    and first: "co_clients c = 0" "try_start_writer_setup c = (True, c1)"
    and second: "get_or_create_coordinator cfg i (registry_cleanup (AList.update i c1 reg1)) = (d, reg2)"
  shows "d = new_stream_coordinator cfg" and "fst (try_start_writer_setup d)" and "must_wait_for_setup c1"
proof -
  have c1: "co_clients c1 = 0" "must_wait_for_setup c1"
    using first by (auto simp: try_start_writer_setup_def must_wait_for_setup_def split: if_splits)
  have "distinct (map fst reg1)"
    using reg by (auto simp: get_or_create_coordinator_def distinct_update split: option.splits)
  then have "map_of (registry_cleanup (AList.update i c1 reg1)) i = None"
    using c1(1) by (subst cleanup_lookup) (simp_all add: distinct_update update_conv')
  then show d: "d = new_stream_coordinator cfg" using second by (simp add: get_or_create_coordinator_def)
  show "fst (try_start_writer_setup d)"
    by (simp add: d try_start_writer_setup_def new_stream_coordinator_def)
  show "must_wait_for_setup c1" by (rule c1(2))
qed

end
