(* ===== verification/Links.thy ===== *)
theory Links
  imports Updater StreamHttp
begin

text \<open>
  The way of a channel through the whole program: from the entry that a run compiles
  (sourceproc/processor.go, helpers.go), over the slug files it publishes (slug.go), to the
  request of a client for the link of the entry (handlers/stream_http.go) and the stream that
  the load balancer finds for it (loadbalancer/instance.go). A server of package http hands
  over the path of a request without its query, percent-decoded.
\<close>

section \<open>The path of a request\<close>

fun path_unescape :: "string \<Rightarrow> string option" where
  "path_unescape [] = Some []"
| "path_unescape (c # s) =
     (if c = CHR ''%'' then
        (case s of
           a # b # r \<Rightarrow>
             (case (hex_val a, hex_val b) of
                (Some x, Some y) \<Rightarrow> map_option (\<lambda>t. char_of (16 * x + y) # t) (path_unescape r)
              | _ \<Rightarrow> None)
         | _ \<Rightarrow> None)
      else map_option ((#) c) (path_unescape s))"

text \<open>The path that the server sees when a client opens a URL below \<open>base\<close>; None when the
  request is malformed.\<close>

definition request_path :: "string \<Rightarrow> string \<Rightarrow> string option" where
  "request_path base url =
     path_unescape (takeWhile (\<lambda>c. c \<noteq> CHR ''?'' \<and> c \<noteq> CHR ''#'') (drop (length base) url))"

definition plain_path :: "string \<Rightarrow> bool" where
  "plain_path s = list_all (\<lambda>c. c \<noteq> CHR ''?'' \<and> c \<noteq> CHR ''#'' \<and> c \<noteq> CHR ''%'') s"

lemma path_unescape_plain: "plain_path s \<Longrightarrow> path_unescape s = Some s"
  by (induction s) (auto simp: plain_path_def)

lemma request_path_plain: "plain_path p \<Longrightarrow> request_path base (base @ p) = Some p"
proof -
  assume p: "plain_path p"
  then have "takeWhile (\<lambda>c. c \<noteq> CHR ''?'' \<and> c \<noteq> CHR ''#'') p = p"
    by (auto simp: plain_path_def list_all_iff takeWhile_eq_all_conv)
  then show ?thesis using path_unescape_plain [OF p] by (simp add: request_path_def del: takeWhile_eq_all_conv)
qed

section \<open>The identifier in a path\<close>

lemma path_base_segment:
  assumes "seg \<noteq> []" and "CHR ''/'' \<notin> set seg"
  shows "path_base (p @ ''/'' @ seg) = seg"
proof -
  let ?slash = "\<lambda>c. c = CHR ''/''"
  obtain x r where r: "rev seg = x # r" using assms(1) by (cases "rev seg") auto
  then have "x \<in> set seg" by (metis list.set_intros(1) set_rev)
  then have x: "x \<noteq> CHR ''/''" using assms(2) by metis
  have rv: "rev (p @ ''/'' @ seg) = x # r @ ''/'' @ rev p" using r by simp
  then have "dropWhile ?slash (rev (p @ ''/'' @ seg)) = rev (p @ ''/'' @ seg)" unfolding rv using x by simp
  then have trim: "trim_right_by ?slash (p @ ''/'' @ seg) = p @ ''/'' @ seg"
    unfolding trim_right_by_def by (simp only: rev_rev_ident)
  have "takeWhile (\<lambda>c. c \<noteq> CHR ''/'') (rev seg @ ''/'' @ rev p) = rev seg"
    using assms(2) by (subst takeWhile_append2) auto
  then have "takeWhile (\<lambda>c. c \<noteq> CHR ''/'') (rev (p @ ''/'' @ seg)) = rev seg" by simp
  then show ?thesis using trim by (simp only: path_base_def Let_def) simp
qed

lemma split_char_first:
  "c \<notin> set s \<Longrightarrow> hd (split_char c (s @ c # e)) = s" "c \<notin> set s \<Longrightarrow> hd (split_char c s) = s"
  by (induction s) (auto split: list.splits)

definition extension_like :: "string \<Rightarrow> bool" where
  "extension_like e = (e = [] \<or> (hd e = CHR ''.'' \<and> CHR ''/'' \<notin> set e))"

lemma path_ext_like: "extension_like (path_ext p)"
  by (auto simp: path_ext_def extension_like_def Let_def dest: set_takeWhileD split: list.splits)

lemma first_extension_like: "extension_like (first_extension parse urls)"
proof -
  let ?es = "filter (\<lambda>e. e \<noteq> []) (List.map_filter (get_file_extension_from_url parse) urls)"
  have all: "\<forall>e \<in> set ?es. extension_like e"
    using path_ext_like by (auto simp: List.map_filter_def get_file_extension_from_url_def)
  show ?thesis
  proof (cases ?es)
    case (Cons e es)
    then have "extension_like e" using all by (metis list.set_intros(1))
    then show ?thesis using Cons by (simp add: first_extension_def)
  qed (simp add: first_extension_def extension_like_def)
qed

lemma stream_id_of_path:
  assumes "slug \<noteq> []" and "CHR ''.'' \<notin> set slug" and "CHR ''/'' \<notin> set slug" and "extension_like e"
  shows "get_stream_id (p @ ''/'' @ slug @ e) = slug" and "extract_stream_url (p @ ''/'' @ slug @ e) = slug"
proof -
  have b: "path_base (p @ ''/'' @ slug @ e) = slug @ e"
    using assms by (intro path_base_segment) (auto simp: extension_like_def)
  have h: "hd (split_char (CHR ''.'') (slug @ e)) = slug"
    using assms(2,4) split_char_first by (cases e) (auto simp: extension_like_def)
  have "\<not> has_prefix slug ''/''" using assms(1,3) by (cases slug) (auto simp: has_prefix_def)
  then have "trim_prefix slug ''/'' = slug" by (simp add: trim_prefix_def)
  then show "get_stream_id (p @ ''/'' @ slug @ e) = slug" "extract_stream_url (p @ ''/'' @ slug @ e) = slug"
    using b h assms(1) by (simp_all add: get_stream_id_def extract_stream_url_def)
qed

section \<open>The link of an entry\<close>

definition entry_link :: "proc_ctx \<Rightarrow> string \<Rightarrow> stream_info \<Rightarrow> string" where
  "entry_link ctx base s = fst (generate_stream_url ctx base s None)"

lemma generate_stream_url_eq:
  "generate_stream_url ctx base s new = (entry_link ctx base s, snd (encode_slug (pc_lib ctx) s new))"
  by (simp add: entry_link_def generate_stream_url_def encode_slug_def Let_def)

lemma entry_link_eq:
  "entry_link ctx base s =
     (let parse = lib_url_parse (pc_lib ctx);
          urls = concat (map (\<lambda>im. map snd (snd im)) (urls_of s));
          ext = first_extension parse urls;
          sub = (case List.map_filter (get_sub_path_from_url parse) (pc_sched ctx urls) of p # _ \<Rightarrow> p | [] \<Rightarrow> ''stream'')
      in base @ (''/p/'' @ sub) @ ''/'' @ slug_of (pc_lib ctx) s @ (if contains_str ext ''.m3u'' then [] else ext))"
  by (simp add: entry_link_def generate_stream_url_def encode_slug_def Let_def split: list.splits)

lemma entry_link_shape:
  "\<exists>p e. entry_link ctx base s = base @ p @ ''/'' @ slug_of (pc_lib ctx) s @ e \<and> extension_like e"
proof -
  have "extension_like []" by (simp add: extension_like_def)
  then have "extension_like (if contains_str ext ''.m3u'' then [] else first_extension parse urls)" for ext parse urls
    using first_extension_like by simp
  then show ?thesis unfolding entry_link_eq Let_def by blast
qed

lemma slug_chars:
  "CHR ''.'' \<notin> set (slug_of lib s)" "CHR ''/'' \<notin> set (slug_of lib s)"
  using b64_url_chars [of "lib_sha3 lib (slug_input_key s)"] by (auto simp: slug_of_def list_all_iff)

lemma slug_nonempty: "lib_sha3 lib (slug_input_key s) \<noteq> [] \<Longrightarrow> slug_of lib s \<noteq> []"
  by (simp add: slug_of_def b64_encode_nonempty)

text \<open>Both the handler and the load balancer read the slug of the entry out of its link.\<close>

lemma link_holds_slug:
  assumes "lib_sha3 (pc_lib ctx) (slug_input_key s) \<noteq> []" and "plain_path (drop (length base) (entry_link ctx base s))"
  obtains path where "request_path base (entry_link ctx base s) = Some path"
    "get_stream_id path = slug_of (pc_lib ctx) s" "extract_stream_url path = slug_of (pc_lib ctx) s"
proof -
  obtain p e where link: "entry_link ctx base s = base @ p @ ''/'' @ slug_of (pc_lib ctx) s @ e" "extension_like e"
    using entry_link_shape by blast
  let ?path = "p @ ''/'' @ slug_of (pc_lib ctx) s @ e"
  have "request_path base (entry_link ctx base s) = Some ?path"
    using request_path_plain [of ?path base] assms(2) by (simp add: link(1))
  then show ?thesis
    using that stream_id_of_path [OF slug_nonempty [OF assms(1)] slug_chars link(2)] by blast
qed

section \<open>From the compiled entry to the stream\<close>

lemma format_entry_eq:
  "format_stream_entry ctx base s new =
     (extinf_line (pc_us ctx) s @ newline @
        (if direct_source_proxying_enabled (us_environ (pc_us ctx)) \<and> trim_space (si_source_url s) \<noteq> []
         then trim_space (si_source_url s) else entry_link ctx base s) @ newline,
      snd (encode_slug (pc_lib ctx) s new))"
  by (simp add: format_stream_entry_def generate_stream_url_eq Let_def)

lemma format_entries_slugs: "snd (format_entries ctx base ss new) = encode_slugs (pc_lib ctx) ss new"
  by (induction ss arbitrary: new) (simp_all add: encode_slugs_def format_entry_eq case_prod_beta)

lemma format_entries_text:
  "s \<in> set ss \<Longrightarrow> \<exists>pre post. fst (format_entries ctx base ss new) = pre @ fst (format_stream_entry ctx base s None) @ post"
proof (induction ss arbitrary: new)
  case (Cons t ss)
  obtain x new1 where t: "format_stream_entry ctx base t new = (x, new1)" by fastforce
  then have x: "x = fst (format_stream_entry ctx base t None)" by (auto simp: format_entry_eq)
  obtain ts new2 where ts: "format_entries ctx base ss new1 = (ts, new2)" by fastforce
  have all: "fst (format_entries ctx base (t # ss) new) = x @ ts" by (simp add: t ts)
  show ?case
  proof (cases "s = t")
    case True
    then show ?thesis using all x by (metis append_Nil)
  next
    case False
    then obtain pre post where "ts = pre @ fst (format_stream_entry ctx base s None) @ post"
      using Cons.IH [of new1] Cons.prems ts by auto
    then show ?thesis using all by (metis append_assoc)
  qed
qed simp

lemma load_keeps_title [simp]: "si_title (load_stream_urls files i s) = si_title s"
  by (simp add: load_stream_urls_def Let_def)

lemma load_all_keeps_title: "si_title (fold (load_stream_urls files) is s) = si_title s"
  by (induction "is" arbitrary: s) simp_all

lemma restore_keeps_title: "si_title (restore_stream_fallback_url s) = si_title s"
  by (simp add: restore_stream_fallback_url_def Let_def)

text \<open>The run that compiles an entry, publishes it and answers a request for its link: the request
  is answered with the stream of the entry's channel.\<close>

lemma compiled_link:
  assumes run: "compile_m3u ctx decode fetch base st p = (p1, st1)" "fst (get_sorted_entries (pr_sorter p)) = Some es"
    and entry: "s \<in> set (compile_entries ctx decode fetch (ps_files st) es)"
    and alone: "\<forall>t \<in> set (compile_entries ctx decode fetch (ps_files st) es).
      slug_of (pc_lib ctx) t = slug_of (pc_lib ctx) s \<longrightarrow> t = s"
    and dirs: "slug_dir_ok (ps_new_slugs st)" "pb_new_slugs pb = ps_new_slugs st1"
    and published: "\<not> pr_critical p1" "pb' = snd (wait_processor us False p1 pb)"
    and link: "lib_sha3 (pc_lib ctx) (slug_input_key s) \<noteq> []" "plain_path (drop (length base) (entry_link ctx base s))"
  shows "\<exists>path t. request_path base (entry_link ctx base s) = Some path \<and>
    extract_stream_url path = get_stream_id path \<and>
    parse_stream_info_by_slug us files (pb_slugs pb') (pb_new_slugs pb') (get_stream_id path) = Inr t \<and>
    si_title t = si_title s"
    and "\<exists>pre post. pr_text p1 = pre @ fst (format_stream_entry ctx base s None) @ post"
proof -
  let ?es = "compile_entries ctx decode fetch (ps_files st) es"
  obtain m where sorted_es: "get_sorted_entries (pr_sorter p) = (Some es, m)"
    using run(2) by (cases "get_sorted_entries (pr_sorter p)") simp
  have st1: "ps_new_slugs st1 = encode_slugs (pc_lib ctx) ?es (ps_new_slugs st)"
    and result: "\<exists>head. pr_text p1 = head @ fst (format_entries ctx base ?es (ps_new_slugs st))"
    using run(1) sorted_es format_entries_slugs [of ctx base ?es "ps_new_slugs st"]
    by (auto simp: compile_m3u_def Let_def split: prod.splits)
  have slugs: "pb_slugs pb' = fst (publish_slugs (pb_slugs pb, ps_new_slugs st1))" "pb_new_slugs pb' = None"
    using wait_success [OF published(1), of us pb] published(2) dirs(2) by simp_all
  have "decode_slug (pb_slugs pb') (pb_new_slugs pb') (slug_of (pc_lib ctx) s) = Inr (json_stream s)"
    using publish_roundtrip [OF entry alone dirs(1)] slugs st1 by simp
  then have decoded: "\<exists>t. parse_stream_info_by_slug us files (pb_slugs pb') (pb_new_slugs pb') (slug_of (pc_lib ctx) s) = Inr t \<and>
      si_title t = si_title s"
    by (simp add: parse_stream_info_by_slug_def restore_keeps_title load_all_keeps_title json_stream_def)
  show "\<exists>path t. request_path base (entry_link ctx base s) = Some path \<and> extract_stream_url path = get_stream_id path \<and>
      parse_stream_info_by_slug us files (pb_slugs pb') (pb_new_slugs pb') (get_stream_id path) = Inr t \<and> si_title t = si_title s"
    using link_holds_slug [OF link] decoded by metis
  show "\<exists>pre post. pr_text p1 = pre @ fst (format_stream_entry ctx base s None) @ post"
    using result format_entries_text [OF entry, of ctx base "ps_new_slugs st"] by (metis append_assoc)
qed

section \<open>From an update to the stream\<close>

lemma format_entries_concat:
  "fst (format_entries ctx base ss new) = concat (map (\<lambda>s. fst (format_stream_entry ctx base s None)) ss)"
  by (induction ss arbitrary: new) (simp_all add: format_entry_eq case_prod_beta)

text \<open>Reading the sources leaves the slugs alone.\<close>

lemma handle_lines_slugs: "ps_new_slugs (snd (snd (handle_lines ctx synth idx cur ls n out st))) = ps_new_slugs st"
proof (induction ctx synth idx cur ls n out st rule: handle_lines.induct)
  case (2 ctx synth idx cur li ls n out st)
  show ?case
    using 2
    by (simp add: Let_def split: prod.splits) (auto simp: parse_line_def Let_def split: prod.splits)
qed simp

lemma handle_downloaded_slugs: "ps_new_slugs (snd (handle_downloaded ctx idx ls st)) = ps_new_slugs st"
  using handle_lines_slugs [of ctx _ idx "[]" ls 0 "[]" st]
  by (auto simp: handle_downloaded_def Let_def split: prod.splits option.splits) (metis snd_conv)+

lemma process_sources_slugs: "ps_new_slugs (snd (snd (process_sources ctx w cs cache st))) = ps_new_slugs st"
proof (induction cs arbitrary: cache st)
  case (Cons c cs)
  obtain ls e cache1 where d: "download_source ctx (uw_local w) (uw_fetch w) (uw_can_create w) c cache = (ls, e, cache1)"
    by (cases "download_source ctx (uw_local w) (uw_fetch w) (uw_can_create w) c cache")
  obtain out st1 where h: "handle_downloaded ctx (sc_index c) ls st = (out, st1)" by fastforce
  have "ps_new_slugs st1 = ps_new_slugs st" using handle_downloaded_slugs [of ctx "sc_index c" ls st] h by simp
  then show ?case using Cons.IH [of cache1 st1] d h by (simp split: prod.splits) (metis snd_conv)
qed simp

text \<open>The links of entries that were compiled from these.\<close>

definition link_answers ::
  "proc_ctx \<Rightarrow> string \<Rightarrow> stream_files \<Rightarrow> slug_dir \<Rightarrow> slug_dir \<Rightarrow> stream_info \<Rightarrow> bool" where
  "link_answers ctx base files cur new s =
     (case request_path base (entry_link ctx base s) of
        None \<Rightarrow> False
      | Some path \<Rightarrow>
          extract_stream_url path = get_stream_id path \<and>
          (case parse_stream_info_by_slug (pc_us ctx) files cur new (get_stream_id path) of
             Inl _ \<Rightarrow> False | Inr t \<Rightarrow> si_title t = si_title s))"

text \<open>What the link of an entry needs: a hash that is not empty and is that of no other entry, and no
  character that ends the path of a URL or starts an escape.\<close>

definition link_ok :: "proc_ctx \<Rightarrow> string \<Rightarrow> stream_info list \<Rightarrow> stream_info \<Rightarrow> bool" where
  "link_ok ctx base es s =
     (lib_sha3 (pc_lib ctx) (slug_input_key s) \<noteq> [] \<and>
      list_all (\<lambda>t. slug_of (pc_lib ctx) t = slug_of (pc_lib ctx) s \<longrightarrow> t = s) es \<and>
      plain_path (drop (length base) (entry_link ctx base s)))"

definition playlist_of :: "proc_ctx \<Rightarrow> string \<Rightarrow> stream_info list \<Rightarrow> string" where
  "playlist_of ctx base es =
     build_playlist_header_line (lib_url_parse (pc_lib ctx)) (us_environ (pc_us ctx)) @
     concat (map (\<lambda>s. fst (format_stream_entry ctx base s None)) es)"

lemma compiled_playlist:
  assumes "compile_m3u ctx decode fetch base st p = (p1, st1)" and "\<not> pr_critical p1"
    and dirs: "slug_dir_ok (ps_new_slugs st)" "pb_new_slugs pb = ps_new_slugs st1"
  shows "\<exists>es. pr_text p1 = playlist_of ctx base es \<and>
    (\<forall>s \<in> set es. link_ok ctx base es s \<longrightarrow>
       link_answers ctx base files (pb_slugs (snd (wait_processor (pc_us ctx) False p1 pb)))
         (pb_new_slugs (snd (wait_processor (pc_us ctx) False p1 pb))) s)"
proof -
  obtain x m where x: "get_sorted_entries (pr_sorter p) = (x, m)" by fastforce
  then obtain es where es: "fst (get_sorted_entries (pr_sorter p)) = Some es"
    using assms(1,2) by (cases x) (auto simp: compile_m3u_def Let_def)
  let ?es = "compile_entries ctx decode fetch (ps_files st) es"
  have "pr_text p1 = playlist_of ctx base ?es"
    using assms(1) x es format_entries_concat [of ctx base ?es "ps_new_slugs st"]
    by (auto simp: compile_m3u_def playlist_of_def Let_def split: prod.splits)
  moreover have "link_answers ctx base files (pb_slugs (snd (wait_processor (pc_us ctx) False p1 pb)))
      (pb_new_slugs (snd (wait_processor (pc_us ctx) False p1 pb))) s" if "s \<in> set ?es" "link_ok ctx base ?es s" for s
    using compiled_link(1) [OF assms(1) es that(1) _ dirs assms(2) refl, of "pc_us ctx" files] that(2)
    by (auto simp: link_ok_def link_answers_def list_all_iff)
  ultimately show ?thesis by blast
qed

text \<open>An update that ends without an error and without a critical one: the playlist that is served is
  that of its entries, and a request for the link of any of them finds the stream of its channel.\<close>

definition update_base :: "proc_ctx \<Rightarrow> string" where
  "update_base ctx = determine_base_url (us_environ (pc_us ctx)) None"

definition links_answered :: "proc_ctx \<Rightarrow> stream_files \<Rightarrow> update_world \<Rightarrow> update_state \<Rightarrow> stream_info list \<Rightarrow> bool" where
  "links_answered ctx files w st es =
     (up_path st = uw_name w \<and>
      pb_processed (up_published st) = [(uw_name w, playlist_of ctx (update_base ctx) es)] \<and>
      list_all (\<lambda>s. link_ok ctx (update_base ctx) es s \<longrightarrow>
        link_answers ctx (update_base ctx) files (pb_slugs (up_published st)) (pb_new_slugs (up_published st)) s) es)"

lemma update_links:
  assumes update: "update_sources ctx w False False st = (UpdateDone, st')"
    and dirs: "slug_dir_ok (pb_new_slugs (up_published st))"
  shows "(\<exists>es. links_answered ctx files w st' es) \<or>
    up_path st' = (case get_latest_processed_m3u (pb_processed (up_published st)) of None \<Rightarrow> [] | Some n \<Rightarrow> n) \<and>
    pb_slugs (up_published st') = pb_slugs (up_published st)"
proof -
  obtain p pb p1 pst pb1 where
    made: "new_processor (us_environ (pc_us ctx)) w (up_published st) = Some (p, pb)"
    and run: "run_processor ctx w False (up_proc st) p pb = (True, p1, pst, pb1)"
    and st': "st' = st\<lparr>up_proc := pst, up_published := pb1, up_path := get_result_path p1 pb1\<rparr>"
    using update by (auto simp: update_sources_def Let_def split: if_splits option.splits prod.splits)
  have p: "pr_name p = uw_name w"
    and pb: "pb = (up_published st)\<lparr>pb_processed := put_file (tmp_name p) [] (pb_processed (up_published st))\<rparr>"
    using made by (auto simp: new_processor_def Let_def split: if_splits)
  let ?ps = "(up_proc st)\<lparr>ps_new_slugs := pb_new_slugs pb\<rparr>"
  obtain cache st1 where s: "process_streams ctx w (pb_cache pb) ?ps p = (p1, cache, st1)"
    and pub: "snd (wait_processor (pc_us ctx) False p1 (pb\<lparr>pb_cache := cache, pb_new_slugs := ps_new_slugs st1\<rparr>)) = pb1"
    using run by (auto simp: run_processor_def split: prod.splits)
  let ?srcs = "uw_sources w (get_source_configs (pc_us ctx))" and ?clean = "clean_cache (pc_us ctx) (pb_cache pb)"
  obtain es c1 st0 where src: "process_sources ctx w ?srcs ?clean ?ps = (es, c1, st0)"
    by (cases "process_sources ctx w ?srcs ?clean ?ps")
  then have c: "compile_m3u ctx (uw_decode w) (uw_guide w) (update_base ctx) st0
      (fold (add_stream (pc_lib ctx)) (uw_arrival w es) p) = (p1, st1)"
    using s by (simp add: process_streams_def update_base_def split: prod.splits)
  have new: "slug_dir_ok (ps_new_slugs st0)"
    using process_sources_slugs [of ctx w ?srcs ?clean ?ps] src dirs pb by simp
  show ?thesis
  proof (cases "pr_critical p1")
    case True
    then show ?thesis using run_outcome(1) [OF run] pb st'
      by (auto simp: tmp_name_def latest_unchanged latest_put_tmp)
  next
    case False
    have "pb_processed pb1 = [(pr_name p1, pr_text p1)]" "get_result_path p1 pb1 = pr_name p1"
      using wait_success(1) [OF False, of "pc_us ctx" "pb\<lparr>pb_cache := cache, pb_new_slugs := ps_new_slugs st1\<rparr>"] pub False
      by (simp_all add: get_result_path_def)
    moreover have "pr_name p1 = uw_name w" using process_streams_text(2) [OF s] p by simp
    moreover obtain es' where "pr_text p1 = playlist_of ctx (update_base ctx) es'"
      "\<forall>s \<in> set es'. link_ok ctx (update_base ctx) es' s \<longrightarrow>
        link_answers ctx (update_base ctx) files (pb_slugs pb1) (pb_new_slugs pb1) s"
      using compiled_playlist [OF c False new, of "pb\<lparr>pb_cache := cache, pb_new_slugs := ps_new_slugs st1\<rparr>" files]
      unfolding pub by auto
    ultimately have "links_answered ctx files w st' es'"
      by (simp add: links_answered_def st' list_all_iff)
    then show ?thesis by blast
  qed
qed

section \<open>Links that lead nowhere\<close>

text \<open>The sub path of a source URL is decoded when it is taken and not encoded when it is written:
  a question mark in it cuts the slug off the path.\<close>

lemma cut_link:
  assumes "p = q @ ''?'' @ r" and "plain_path q"
  shows "request_path base (base @ p) = Some q"
  using path_unescape_plain [OF assms(2)] assms
  by (auto simp: request_path_def plain_path_def list_all_iff takeWhile_append)

text \<open>\<open>GenerateStreamURL\<close> gives the whole entries, with the line number in front, to the URL parser,
  which rejects them (a colon in the first segment): the links hold neither the path nor the
  extension of the source.\<close>

lemma numbered_entries_plain_link:
  assumes "\<forall>u \<in> set (concat (map (\<lambda>im. map snd (snd im)) (urls_of s))). lib_url_parse (pc_lib ctx) u = None"
    and "set (pc_sched ctx (concat (map (\<lambda>im. map snd (snd im)) (urls_of s)))) \<subseteq>
      set (concat (map (\<lambda>im. map snd (snd im)) (urls_of s)))"
  shows "entry_link ctx base s = base @ ''/p/stream/'' @ slug_of (pc_lib ctx) s"
proof -
  let ?urls = "concat (map (\<lambda>im. map snd (snd im)) (urls_of s))"
  have none: "List.map_filter f us = []" if "\<forall>u \<in> set us. f u = None" for f :: "string \<Rightarrow> string option" and us
    using that by (induction us) (simp_all add: List.map_filter_simps)
  have "\<forall>u \<in> set (pc_sched ctx ?urls). lib_url_parse (pc_lib ctx) u = None" using assms by blast
  then have "List.map_filter (get_sub_path_from_url (lib_url_parse (pc_lib ctx))) (pc_sched ctx ?urls) = []"
    by (intro none) (simp add: get_sub_path_from_url_def)
  moreover have "List.map_filter (get_file_extension_from_url (lib_url_parse (pc_lib ctx))) ?urls = []"
    using assms(1) by (intro none) (simp add: get_file_extension_from_url_def)
  then have "first_extension (lib_url_parse (pc_lib ctx)) ?urls = []" by (simp add: first_extension_def)
  ultimately show ?thesis by (simp add: entry_link_eq Let_def contains_str_def)
qed

end
