(* ===== verification/Logger.thy ===== *)
theory Logger
  imports Paths LoadBalancer
begin

text \<open>
  The log and the error report, logger/defaults.go and logger/report.go: the redaction of URLs
  (the regular expression of \<open>cleanString\<close> as a matcher), the levels, the reporter that keeps
  the last events, and the text of its file. A message is the formatted text. The clock, the
  stack and the frames of the caller are inputs.
\<close>

section \<open>Redaction\<close>

text \<open>The classes of \<open>[a-zA-Z][a-zA-Z0-9+.-]*:\/\/[a-zA-Z0-9+%/.\-:_?&=#@+]+\<close>.\<close>

definition scheme_char :: "char \<Rightarrow> bool" where
  "scheme_char c = (is_letter c \<or> is_digit c \<or> c \<in> set ''+.-'')"

definition url_text_char :: "char \<Rightarrow> bool" where
  "url_text_char c = (is_letter c \<or> is_digit c \<or> c \<in> set ''+%/.-:_?&=#@'')"

text \<open>What follows a match at the start of a text. The run of scheme characters cannot hold a
  colon, so it is the longest one.\<close>

definition url_match :: "string \<Rightarrow> string option" where
  "url_match s =
     (case s of
        [] \<Rightarrow> None
      | c # r \<Rightarrow>
          (let after = dropWhile scheme_char r in
           if is_letter c \<and> has_prefix after ''://'' \<and> takeWhile url_text_char (drop 3 after) \<noteq> []
           then Some (dropWhile url_text_char (drop 3 after)) else None))"

lemma url_match_shorter: "url_match (c # s) = Some r \<Longrightarrow> length r < length (c # s)"
proof -
  assume m: "url_match (c # s) = Some r"
  let ?a = "dropWhile scheme_char s"
  have "r = dropWhile url_text_char (drop 3 ?a)"
    using m by (auto simp: url_match_def Let_def split: if_splits)
  then have "length r \<le> length (drop 3 ?a)" by (simp only: length_dropWhile_le)
  also have "\<dots> \<le> length s" using length_dropWhile_le [of scheme_char s] by simp
  finally show ?thesis by simp
qed

function clean_string :: "string \<Rightarrow> string" where
  "clean_string [] = []"
| "clean_string (c # s) =
     (case url_match (c # s) of Some r \<Rightarrow> ''[redacted url]'' @ clean_string r | None \<Rightarrow> c # clean_string s)"
  by pat_completeness auto
termination by (relation "measure length") (auto dest: url_match_shorter)

fun holds_url :: "string \<Rightarrow> bool" where
  "holds_url [] = False"
| "holds_url (c # s) = (url_match (c # s) \<noteq> None \<or> holds_url s)"

definition safe_logf :: "environ \<Rightarrow> string \<Rightarrow> string" where
  "safe_logf env msg = (if os_getenv env ''SAFE_LOGS'' = ''true'' then clean_string msg else msg)"

section \<open>The error report\<close>

record error_event =
  ee_time :: string
  ee_level :: string
  ee_message :: string
  ee_caller :: string
  ee_stack :: string

record error_reporter =
  er_events :: "error_event list"
  er_max :: nat
  er_path :: string

definition new_error_reporter :: "environ \<Rightarrow> string \<Rightarrow> error_reporter" where
  "new_error_reporter env tmp =
     (let p = os_getenv env ''ERROR_REPORT_PATH'' in
      \<lparr>er_events = [], er_max = 50,
       er_path = (if trim_space p = [] then path_join [tmp, ''m3u-stream-merger-proxy-error-report.txt''] else p)\<rparr>)"

text \<open>The caller: the first frame outside this package, or the last frame.\<close>

record stack_frame =
  sf_function :: string
  sf_file :: string
  sf_line :: int

definition frame_text :: "stack_frame \<Rightarrow> string" where
  "frame_text f = path_base (sf_file f) @ '':'' @ itoa (sf_line f) @ '' '' @ sf_function f"

fun capture_caller :: "stack_frame list \<Rightarrow> string" where
  "capture_caller [] = frame_text \<lparr>sf_function = [], sf_file = [], sf_line = 0\<rparr>"
| "capture_caller [f] = frame_text f"
| "capture_caller (f # g # fs) =
     (if \<not> contains_str (sf_function f) ''logger.'' then frame_text f else capture_caller (g # fs))"

definition keep_event :: "error_event \<Rightarrow> error_reporter \<Rightarrow> error_reporter" where
  "keep_event e r =
     (let old = (if length (er_events r) \<ge> er_max r then drop 1 (er_events r) else er_events r)
      in r\<lparr>er_events := old @ [e]\<rparr>)"

definition event_text :: "nat \<Rightarrow> nat \<Rightarrow> error_event \<Rightarrow> string" where
  "event_text i n e =
     ''['' @ itoa (int i + 1) @ ''/'' @ itoa (int n) @ ''] '' @ ee_level e @ '' '' @ ee_time e @ newline @
     ''Message: '' @ ee_message e @ newline @ ''Caller: '' @ ee_caller e @ newline @
     ''Stack:'' @ newline @ ee_stack e @ newline @ replicate 80 (CHR ''-'') @ newline"

definition report_text :: "string \<Rightarrow> error_event list \<Rightarrow> string" where
  "report_text now es =
     ''M3U Stream Merger Proxy Error Report'' @ newline @ ''Generated at: '' @ now @ newline @
     ''Event count: '' @ itoa (int (length es)) @ newline @ newline @
     concat (map (\<lambda>(i, e). event_text i (length es) e) (zip [0..<length es] es))"

text \<open>\<open>writeText\<close> on the files by path; \<open>can_create\<close> tells whether the directory and the file can
  be made. Its error is dropped.\<close>

type_synonym report_files = "string \<Rightarrow> string option"

definition write_report :: "bool \<Rightarrow> string \<Rightarrow> error_reporter \<Rightarrow> report_files \<Rightarrow> report_files" where
  "write_report can_create now r files =
     (if can_create then files(er_path r \<mapsto> report_text now (er_events r)) else files)"

text \<open>What a record takes from outside: the time of the event and of the report, the frames, the
  stack, and whether the file can be made.\<close>

record record_world =
  rw_time :: string
  rw_now :: string
  rw_frames :: "stack_frame list"
  rw_stack :: string
  rw_can_create :: bool

definition record_event ::
  "record_world \<Rightarrow> string \<Rightarrow> string \<Rightarrow> error_reporter \<times> report_files \<Rightarrow> error_reporter \<times> report_files" where
  "record_event w level msg st =
     (let r = keep_event \<lparr>ee_time = rw_time w, ee_level = level, ee_message = msg,
                ee_caller = capture_caller (rw_frames w), ee_stack = rw_stack w\<rparr> (fst st)
      in (r, write_report (rw_can_create w) (rw_now w) r (snd st)))"

definition set_error_report_path :: "string \<Rightarrow> error_reporter \<Rightarrow> error_reporter" where
  "set_error_report_path p r = r\<lparr>er_path := p\<rparr>"

definition reset_error_report :: "error_reporter \<Rightarrow> error_reporter" where
  "reset_error_report r = r\<lparr>er_events := []\<rparr>"

section \<open>The logger\<close>

datatype log_level = LogInfo | LogDebug | LogError | LogWarn | LogFatal

text \<open>The lines written, newest last, the reporter and its files; \<open>lo_running\<close> is False once the
  process has ended.\<close>

record log_state =
  lo_lines :: "(log_level \<times> string) list"
  lo_reporter :: error_reporter
  lo_files :: report_files
  lo_running :: bool

definition log_line :: "environ \<Rightarrow> log_level \<Rightarrow> string \<Rightarrow> log_state \<Rightarrow> log_state" where
  "log_line env lv msg st = st\<lparr>lo_lines := lo_lines st @ [(lv, safe_logf env msg)]\<rparr>"

definition log_record :: "record_world \<Rightarrow> string \<Rightarrow> string \<Rightarrow> log_state \<Rightarrow> log_state" where
  "log_record w level msg st =
     (let (r, fs) = record_event w level msg (lo_reporter st, lo_files st)
      in st\<lparr>lo_reporter := r, lo_files := fs\<rparr>)"

text \<open>The methods of \<open>DefaultLogger\<close>. \<open>fatal_exits\<close> tells whether the message of level fatal of
  the library zerolog ends the process, as documented.\<close>

definition log_info :: "environ \<Rightarrow> string \<Rightarrow> log_state \<Rightarrow> log_state" where
  "log_info env msg st = log_line env LogInfo msg st"

definition log_debug :: "environ \<Rightarrow> string \<Rightarrow> log_state \<Rightarrow> log_state" where
  "log_debug env msg st = (if os_getenv env ''DEBUG'' = ''true'' then log_line env LogDebug msg st else st)"

definition log_error :: "environ \<Rightarrow> record_world \<Rightarrow> string \<Rightarrow> log_state \<Rightarrow> log_state" where
  "log_error env w msg st = log_record w ''ERROR'' msg (log_line env LogError msg st)"

definition log_warn :: "environ \<Rightarrow> record_world \<Rightarrow> string \<Rightarrow> log_state \<Rightarrow> log_state" where
  "log_warn env w msg st = log_record w ''WARN'' msg (log_line env LogWarn msg st)"

definition log_fatal :: "bool \<Rightarrow> environ \<Rightarrow> record_world \<Rightarrow> string \<Rightarrow> log_state \<Rightarrow> log_state" where
  "log_fatal fatal_exits env w msg st =
     (let st1 = log_line env LogFatal msg st in
      if fatal_exits then st1\<lparr>lo_running := False\<rparr> else log_record w ''FATAL'' msg st1)"

definition log_call :: "bool \<Rightarrow> environ \<Rightarrow> log_level \<times> string \<times> record_world \<Rightarrow> log_state \<Rightarrow> log_state" where
  "log_call fatal_exits env call st =
     (case call of (lv, msg, w) \<Rightarrow>
        if \<not> lo_running st then st
        else
          (case lv of
             LogInfo \<Rightarrow> log_info env msg st
           | LogDebug \<Rightarrow> log_debug env msg st
           | LogError \<Rightarrow> log_error env w msg st
           | LogWarn \<Rightarrow> log_warn env w msg st
           | LogFatal \<Rightarrow> log_fatal fatal_exits env w msg st))"

definition log_calls :: "bool \<Rightarrow> environ \<Rightarrow> (log_level \<times> string \<times> record_world) list \<Rightarrow> log_state \<Rightarrow> log_state" where
  "log_calls fatal_exits env calls st = fold (log_call fatal_exits env) calls st"

definition new_log_state :: "environ \<Rightarrow> string \<Rightarrow> log_state" where
  "new_log_state env tmp =
     \<lparr>lo_lines = [], lo_reporter = new_error_reporter env tmp, lo_files = (\<lambda>_. None), lo_running = True\<rparr>"

section \<open>No URL is left\<close>

lemma url_match_split:
  "url_match x \<noteq> None \<longleftrightarrow>
     (\<exists>c run d r. x = c # run @ ''://'' @ d # r \<and> is_letter c \<and> list_all scheme_char run \<and> url_text_char d)"
proof
  assume "url_match x \<noteq> None"
  then obtain c y where x: "x = c # y" "is_letter c" "has_prefix (dropWhile scheme_char y) ''://''"
      "takeWhile url_text_char (drop 3 (dropWhile scheme_char y)) \<noteq> []"
    by (cases x) (auto simp: url_match_def Let_def split: if_splits)
  obtain d r where d: "drop 3 (dropWhile scheme_char y) = d # r" "url_text_char d"
    using x(4) by (cases "drop 3 (dropWhile scheme_char y)") (auto split: if_splits)
  have "dropWhile scheme_char y = ''://'' @ d # r"
    using x(3) d(1) append_take_drop_id [of 3 "dropWhile scheme_char y"] by (simp add: has_prefix_def numeral_3_eq_3)
  then have "y = takeWhile scheme_char y @ ''://'' @ d # r" by (metis takeWhile_dropWhile_id)
  moreover have "list_all scheme_char (takeWhile scheme_char y)" by (auto simp: list_all_iff dest: set_takeWhileD)
  ultimately show "\<exists>c run d r. x = c # run @ ''://'' @ d # r \<and> is_letter c \<and> list_all scheme_char run \<and> url_text_char d"
    using x d(2) by blast
next
  assume "\<exists>c run d r. x = c # run @ ''://'' @ d # r \<and> is_letter c \<and> list_all scheme_char run \<and> url_text_char d"
  then obtain c run d r where x: "x = c # run @ ''://'' @ d # r" "is_letter c" "list_all scheme_char run" "url_text_char d"
    by blast
  have "\<not> scheme_char (CHR '':'')" by code_simp
  then have "dropWhile scheme_char (run @ ''://'' @ d # r) = ''://'' @ d # r"
    using x(3) by (subst dropWhile_append2) (auto simp: list_all_iff)
  then show "url_match x \<noteq> None" using x(2,4) by (simp add: x(1) url_match_def has_prefix_def)
qed

lemma holds_url_iff:
  "holds_url s \<longleftrightarrow>
     (\<exists>a c run d r. s = a @ c # run @ ''://'' @ d # r \<and> is_letter c \<and> list_all scheme_char run \<and> url_text_char d)"
proof (induction s)
  case (Cons b s)
  show ?case
  proof
    assume "holds_url (b # s)"
    then consider "url_match (b # s) \<noteq> None" | "holds_url s" by auto
    then show "\<exists>a c run d r. b # s = a @ c # run @ ''://'' @ d # r \<and> is_letter c \<and> list_all scheme_char run \<and> url_text_char d"
    proof cases
      case 1
      then show ?thesis unfolding url_match_split by (metis append_Nil)
    next
      case 2
      then show ?thesis using Cons.IH by (metis append_Cons)
    qed
  next
    assume "\<exists>a c run d r. b # s = a @ c # run @ ''://'' @ d # r \<and> is_letter c \<and> list_all scheme_char run \<and> url_text_char d"
    then obtain a c run d r where u: "b # s = a @ c # run @ ''://'' @ d # r" "is_letter c" "list_all scheme_char run" "url_text_char d"
      by blast
    show "holds_url (b # s)"
    proof (cases a)
      case Nil
      then have "url_match (b # s) \<noteq> None" using u unfolding url_match_split by auto
      then show ?thesis by simp
    next
      case (Cons x a')
      then have "s = a' @ c # run @ ''://'' @ d # r" using u(1) by simp
      then have "holds_url s" using u(2-4) Cons.IH by blast
      then show ?thesis by simp
    qed
  qed
qed simp

definition no_bracket :: "string \<Rightarrow> bool" where
  "no_bracket w = (CHR ''['' \<notin> set w)"

text \<open>What comes before the first bracket of a cleaned text stands at the start of the text.\<close>

lemma clean_string_start:
  "clean_string s = w @ x \<Longrightarrow> no_bracket w \<Longrightarrow> \<exists>y. s = w @ y"
proof (induction w arbitrary: s)
  case (Cons a w)
  then obtain b s' where s: "s = b # s'" by (cases s) simp_all
  show ?case
  proof (cases "url_match (b # s')")
    case None
    then have "a = b" "clean_string s' = w @ x" using Cons.prems(1) by (simp_all add: s)
    then show ?thesis using Cons.IH [of s'] Cons.prems(2) by (auto simp: s no_bracket_def)
  next
    case (Some r)
    then have "a = CHR ''[''" using Cons.prems(1) by (simp add: s)
    then show ?thesis using Cons.prems(2) by (simp add: no_bracket_def)
  qed
qed simp

lemma match_classes_plain: "scheme_char c \<or> url_text_char c \<or> is_letter c \<or> c = CHR '':'' \<or> c = CHR ''/'' \<Longrightarrow> c \<noteq> CHR ''[''"
proof -
  have "\<not> scheme_char (CHR ''['')" "\<not> url_text_char (CHR ''['')" "\<not> is_letter (CHR ''['')" by code_simp+
  then show "scheme_char c \<or> url_text_char c \<or> is_letter c \<or> c = CHR '':'' \<or> c = CHR ''/'' \<Longrightarrow> c \<noteq> CHR ''[''" by auto
qed

lemma clean_keeps_unmatched:
  assumes "url_match (c # s) = None"
  shows "url_match (c # clean_string s) = None"
proof (rule ccontr)
  assume "url_match (c # clean_string s) \<noteq> None"
  then obtain run d r where m: "clean_string s = (run @ ''://'' @ [d]) @ r" "is_letter c" "list_all scheme_char run" "url_text_char d"
    unfolding url_match_split by auto
  have "no_bracket (run @ ''://'' @ [d])"
    using m(3,4) match_classes_plain by (fastforce simp: no_bracket_def list_all_iff)
  then obtain y where "s = (run @ ''://'' @ [d]) @ y" using clean_string_start [OF m(1)] by blast
  then have "c # s = c # run @ ''://'' @ d # y" by simp
  then have "url_match (c # s) \<noteq> None" using m(2-4) url_match_split [of "c # s"] by blast
  then show False using assms by simp
qed

lemma url_match_stops:
  assumes "list_all scheme_char w" and "\<not> scheme_char b" and "b \<noteq> CHR '':''" and "\<not> is_letter b"
  shows "url_match (w @ b # t) = None"
proof (cases w)
  case Nil
  then show ?thesis using assms(4) by (simp add: url_match_def)
next
  case (Cons c v)
  then have "dropWhile scheme_char (v @ b # t) = b # t"
    using assms(1,2) by (subst dropWhile_append2) (auto simp: list_all_iff)
  then show ?thesis using Cons assms(3) by (simp add: url_match_def has_prefix_def)
qed

lemma holds_url_skip:
  "list_all scheme_char w \<Longrightarrow> \<not> scheme_char b \<Longrightarrow> b \<noteq> CHR '':'' \<Longrightarrow> \<not> is_letter b \<Longrightarrow>
     holds_url (w @ b # t) = holds_url t"
proof (induction w)
  case Nil
  then show ?case using url_match_stops [of "[]" b t] by simp
next
  case (Cons a w)
  then show ?case using url_match_stops [of "a # w" b t] by simp
qed

lemma redacted_no_url: "holds_url (''[redacted url]'' @ t) = holds_url t"
proof -
  have c: "\<not> scheme_char (CHR ''['') \<and> \<not> is_letter (CHR ''['')" "\<not> scheme_char (CHR '']'') \<and> \<not> is_letter (CHR '']'')"
      "\<not> scheme_char (CHR '' '') \<and> \<not> is_letter (CHR '' '')" "list_all scheme_char ''redacted''" "list_all scheme_char ''url''"
    by code_simp+
  have "holds_url ([] @ CHR ''['' # ''redacted'' @ CHR '' '' # ''url'' @ CHR '']'' # t) = holds_url t"
    using c by (subst holds_url_skip, simp, simp, simp, simp)+ simp
  then show ?thesis by simp
qed

lemma clean_no_url: "\<not> holds_url (clean_string s)"
proof (induction s rule: clean_string.induct)
  case (2 c s)
  show ?case
  proof (cases "url_match (c # s)")
    case None
    then show ?thesis using 2 clean_keeps_unmatched by simp
  next
    case (Some r)
    then show ?thesis using 2 redacted_no_url by (simp del: append.simps)
  qed
qed simp

lemma clean_without_url: "\<not> holds_url s \<Longrightarrow> clean_string s = s"
  by (induction s) simp_all

section \<open>What the report keeps\<close>

text \<open>A list that keeps the last entries, at most \<open>n\<close> of them.\<close>

definition last_n :: "nat \<Rightarrow> 'a list \<Rightarrow> 'a list" where
  "last_n n xs = drop (length xs - n) xs"

lemma last_n_length: "length (last_n n xs) \<le> n"
  by (simp add: last_n_def)

lemma last_n_snoc:
  assumes "0 < n"
  shows "last_n n (xs @ [x]) = (if length (last_n n xs) \<ge> n then drop 1 (last_n n xs) else last_n n xs) @ [x]"
proof (cases "length xs < n")
  case True
  then show ?thesis by (auto simp: last_n_def)
next
  case False
  then have "Suc (length xs) - n = Suc (length xs - n)" by simp
  then show ?thesis using False assms by (simp add: last_n_def)
qed

lemma kept_events:
  assumes "0 < er_max r"
  shows "er_events (fold keep_event es (r\<lparr>er_events := last_n (er_max r) xs\<rparr>)) = last_n (er_max r) (xs @ es)"
  using assms
proof (induction es arbitrary: xs r)
  case (Cons e es)
  have "keep_event e (r\<lparr>er_events := last_n (er_max r) xs\<rparr>) = r\<lparr>er_events := last_n (er_max r) (xs @ [e])\<rparr>"
    using last_n_snoc [OF Cons.prems, of xs e] by (simp add: keep_event_def)
  then show ?case using Cons.IH [OF Cons.prems, of "xs @ [e]"] by simp
qed simp

lemma reporter_keeps_last:
  assumes "0 < er_max r" and "er_events r = []"
  shows "er_events (fold keep_event es r) = last_n (er_max r) es"
  using kept_events [OF assms(1), of es "[]"] assms(2) by (cases r) (simp add: last_n_def)

text \<open>The events that calls of the logger record.\<close>

definition event_of_call :: "log_level \<times> string \<times> record_world \<Rightarrow> error_event option" where
  "event_of_call call =
     (case call of (lv, msg, w) \<Rightarrow>
        (let e = (\<lambda>level. Some \<lparr>ee_time = rw_time w, ee_level = level, ee_message = msg,
                    ee_caller = capture_caller (rw_frames w), ee_stack = rw_stack w\<rparr>)
         in (case lv of LogError \<Rightarrow> e ''ERROR'' | LogWarn \<Rightarrow> e ''WARN'' | _ \<Rightarrow> None)))"

definition not_fatal :: "log_level \<times> string \<times> record_world \<Rightarrow> bool" where
  "not_fatal call = (fst call \<noteq> LogFatal)"

lemma log_call_reporter:
  assumes "lo_running st" and "not_fatal call"
  shows "lo_reporter (log_call x env call st) =
    (case event_of_call call of None \<Rightarrow> lo_reporter st | Some e \<Rightarrow> keep_event e (lo_reporter st))"
    and "lo_running (log_call x env call st)"
proof -
  obtain lv msg w where "call = (lv, msg, w)" by (cases call)
  then show "lo_reporter (log_call x env call st) =
      (case event_of_call call of None \<Rightarrow> lo_reporter st | Some e \<Rightarrow> keep_event e (lo_reporter st))"
    and "lo_running (log_call x env call st)"
    using assms
    by (cases lv; simp add: log_call_def event_of_call_def not_fatal_def log_info_def log_debug_def log_error_def
        log_warn_def log_line_def log_record_def record_event_def Let_def)+
qed

lemma log_calls_reporter:
  assumes "lo_running st" and "list_all not_fatal calls"
  shows "lo_reporter (log_calls x env calls st) = fold keep_event (List.map_filter event_of_call calls) (lo_reporter st)"
  using assms
proof (induction calls arbitrary: st)
  case (Cons c cs)
  then have "lo_running (log_call x env c st)" "not_fatal c" using log_call_reporter(2) by simp_all
  then show ?case
    using Cons log_call_reporter(1) [of st c x env]
    by (simp add: log_calls_def List.map_filter_simps split: option.splits)
qed (simp add: log_calls_def List.map_filter_simps)

text \<open>When the file can be made, it holds the events that the reporter holds.\<close>

definition file_current :: "log_state \<Rightarrow> bool" where
  "file_current st =
     (er_events (lo_reporter st) = [] \<or>
      (\<exists>now. lo_files st (er_path (lo_reporter st)) = Some (report_text now (er_events (lo_reporter st)))))"

lemma log_call_file_current:
  assumes "file_current st" and "rw_can_create (snd (snd call))"
  shows "file_current (log_call x env call st)"
  using assms
  by (auto simp: file_current_def log_call_def log_info_def log_debug_def log_error_def log_warn_def log_fatal_def
      log_line_def log_record_def record_event_def write_report_def Let_def split: log_level.splits prod.splits)

lemma log_calls_file_current:
  "file_current st \<Longrightarrow> list_all (\<lambda>c. rw_can_create (snd (snd c))) calls \<Longrightarrow> file_current (log_calls x env calls st)"
  unfolding log_calls_def
  by (induction calls arbitrary: st) (simp_all add: log_call_file_current)

section \<open>What the log shows\<close>

lemma log_call_safe:
  assumes "os_getenv env ''SAFE_LOGS'' = ''true''" and "list_all (\<lambda>l. \<not> holds_url (snd l)) (lo_lines st)"
  shows "list_all (\<lambda>l. \<not> holds_url (snd l)) (lo_lines (log_call x env call st))"
  using assms clean_no_url
  by (auto simp: log_call_def log_info_def log_debug_def log_error_def log_warn_def log_fatal_def log_line_def
      log_record_def safe_logf_def Let_def split: log_level.splits prod.splits)

lemma log_calls_safe:
  "os_getenv env ''SAFE_LOGS'' = ''true'' \<Longrightarrow> list_all (\<lambda>l. \<not> holds_url (snd l)) (lo_lines st) \<Longrightarrow>
     list_all (\<lambda>l. \<not> holds_url (snd l)) (lo_lines (log_calls x env calls st))"
  unfolding log_calls_def
  by (induction calls arbitrary: st) (simp_all add: log_call_safe)

text \<open>The report is not redacted, whatever \<open>SAFE_LOGS\<close> says, and a fatal error is not reported.\<close>

lemma report_not_redacted:
  "lo_running st \<Longrightarrow> \<exists>e old. er_events (lo_reporter (log_call x env (LogError, msg, w) st)) = old @ [e] \<and> ee_message e = msg"
  by (simp add: log_call_reporter not_fatal_def event_of_call_def keep_event_def Let_def)

lemma fatal_not_reported:
  "lo_running st \<Longrightarrow>
     lo_reporter (log_call True env (LogFatal, msg, w) st) = lo_reporter st \<and>
     \<not> lo_running (log_call True env (LogFatal, msg, w) st)"
  by (simp add: log_call_def log_fatal_def log_line_def Let_def)

end
