(* ===== verification/HttpClient.thy ===== *)
theory HttpClient
  imports StreamClient PlaylistParser
begin

text \<open>
  The client that every upstream request goes through, utils/http.go: how it connects (a first
  dial, then the addresses that a second name server gives), how it follows redirects, and the
  requests made from those of a client; and utils/fingerprint.go. The network is a set of
  functions: \<open>dial\<close> an address, look a host up, answer a request.
\<close>

section \<open>Connecting\<close>

text \<open>\<open>Dial\<close> of \<open>fallbackDNSResolver\<close>: the first of the servers that can be reached.\<close>

fun fallback_dns_dial :: "(string \<Rightarrow> 'c option) \<Rightarrow> string list \<Rightarrow> 'c option" where
  "fallback_dns_dial dial [] = None"
| "fallback_dns_dial dial (s # ss) = (case dial s of Some c \<Rightarrow> Some c | None \<Rightarrow> fallback_dns_dial dial ss)"

text \<open>The names as the resolvers see them: the answer of the system, and that of a name server
  over a connection.\<close>

record 'c name_world =
  nw_system :: "string \<Rightarrow> dial_error + string list"
  nw_connect :: "string \<Rightarrow> 'c option"
  nw_query :: "'c \<Rightarrow> string \<Rightarrow> dial_error + string list"

definition fallback_lookup :: "environ \<Rightarrow> 'c name_world \<Rightarrow> string \<Rightarrow> dial_error + string list" where
  "fallback_lookup env nw host =
     (case fallback_dns_dial (nw_connect nw) (get_fallback_dns_servers env) of
        None \<Rightarrow> Inl (OtherDialError ''all fallback DNS servers failed'')
      | Some c \<Rightarrow> nw_query nw c host)"

text \<open>\<open>resolveHostWithFallback\<close>; an answer without addresses is passed on as it is.\<close>

definition resolve_host_with_fallback :: "environ \<Rightarrow> 'c name_world \<Rightarrow> string \<Rightarrow> dial_error + string list" where
  "resolve_host_with_fallback env nw host =
     (case nw_system nw host of
        Inr ips \<Rightarrow> Inr ips
      | Inl e \<Rightarrow> if \<not> should_try_dns_fallback e then Inl e else fallback_lookup env nw host)"

definition dial_context_with_dns_fallback ::
  "environ \<Rightarrow> 'c name_world \<Rightarrow> (string \<Rightarrow> dial_error + 'k) \<Rightarrow> (string \<Rightarrow> (string \<times> string) option) \<Rightarrow>
     (string \<Rightarrow> string \<Rightarrow> string) \<Rightarrow> string \<Rightarrow> dial_error + 'k" where
  "dial_context_with_dns_fallback env nw dial split join addr =
     dial_context_with_resolver dial
       (\<lambda>h. case resolve_host_with_fallback env nw h of Inl _ \<Rightarrow> None | Inr ips \<Rightarrow> Some ips) split join addr"

lemma dial_each_ok: "dial_each dial as e = Inr c \<longleftrightarrow> (\<exists>i < length as. dial (as ! i) = Inr c \<and> (\<forall>j < i. \<exists>f. dial (as ! j) = Inl f))"
proof (induction as arbitrary: e)
  case (Cons a as)
  show ?case
  proof (cases "dial a")
    case (Inl f)
    have "(\<exists>i < length (a # as). dial ((a # as) ! i) = Inr c \<and> (\<forall>j < i. \<exists>f. dial ((a # as) ! j) = Inl f)) \<longleftrightarrow>
        (\<exists>i < length as. dial (as ! i) = Inr c \<and> (\<forall>j < i. \<exists>f. dial (as ! j) = Inl f))"
      using Inl by (auto simp: Ex_less_Suc2 All_less_Suc2)
    then show ?thesis using Cons.IH [of f] Inl by simp
  next
    case (Inr d)
    then show ?thesis by (auto simp: Ex_less_Suc2 All_less_Suc2)
  qed
qed simp

text \<open>A connection made is to the address itself, or to the first address that accepts among those
  found for its host.\<close>

lemma dial_reaches:
  assumes "dial_context_with_dns_fallback env nw dial split join addr = Inr c"
  shows "dial addr = Inr c \<or>
    (\<exists>host port ips i. split addr = Some (host, port) \<and> resolve_host_with_fallback env nw host = Inr ips \<and>
       i < length ips \<and> dial (join (ips ! i) port) = Inr c \<and> (\<forall>j < i. \<exists>f. dial (join (ips ! j) port) = Inl f))"
  using assms
  by (auto simp: dial_context_with_dns_fallback_def dial_context_with_resolver_def dial_each_ok
      split: sum.splits option.splits if_splits prod.splits)

text \<open>The second name server is asked only when the system has given an error that may be one of the
  name service.\<close>

lemma fallback_only_on_error:
  "nw_system nw host = Inr ips \<Longrightarrow> resolve_host_with_fallback env nw host = Inr ips"
  "nw_system nw host = Inl e \<Longrightarrow> \<not> should_try_dns_fallback e \<Longrightarrow> resolve_host_with_fallback env nw host = Inl e"
  by (simp_all add: resolve_host_with_fallback_def)

section \<open>Redirects\<close>

definition check_redirect :: "environ \<Rightarrow> (string \<times> string) list \<Rightarrow> (string \<times> string) list" where
  "check_redirect env h =
     header_set ''Accept'' (get_env env ''HTTP_ACCEPT'') (header_set ''User-Agent'' (get_env env ''USER_AGENT'') h)"

text \<open>What a server says to a request: an error, a final response or a redirect to another URL. The
  client of package http asks \<open>CheckRedirect\<close> at every redirect and stops when it returns an
  error; this one never does. The fuel bounds the requests; None: it is used up.\<close>

datatype ('e, 'r) http_reply = ReplyError 'e | ReplyFinal 'r | ReplyRedirect string

fun follow_redirects ::
  "nat \<Rightarrow> environ \<Rightarrow> (string \<Rightarrow> (string \<times> string) list \<Rightarrow> ('e, 'r) http_reply) \<Rightarrow> string \<Rightarrow> (string \<times> string) list \<Rightarrow>
     ('e + 'r) option" where
  "follow_redirects 0 env ask url h = None"
| "follow_redirects (Suc n) env ask url h =
     (case ask url h of
        ReplyError e \<Rightarrow> Some (Inl e)
      | ReplyFinal r \<Rightarrow> Some (Inr r)
      | ReplyRedirect next_url \<Rightarrow> follow_redirects n env ask next_url (check_redirect env h))"

lemma redirect_chain_ends:
  assumes "\<And>i h. i < k \<Longrightarrow> ask (urls i) h = ReplyRedirect (urls (Suc i))"
    and "\<And>h. ask (urls k) h = ReplyFinal r"
  shows "follow_redirects (Suc k) env ask (urls 0) h = Some (Inr r)"
proof -
  have "follow_redirects (Suc d) env ask (urls (k - d)) h = Some (Inr r)" if "d \<le> k" for d h
    using that
  proof (induction d arbitrary: h)
    case 0
    then show ?case by (simp add: assms(2))
  next
    case (Suc d)
    then have "ask (urls (k - Suc d)) h = ReplyRedirect (urls (k - d))"
      using assms(1) [of "k - Suc d" h] by (simp add: Suc_diff_Suc)
    then show ?case using Suc by simp
  qed
  from this [of k h] show ?thesis by simp
qed

text \<open>A server that redirects to itself keeps the client busy for ever.\<close>

lemma redirect_loop_never_ends:
  "(\<And>h. ask url h = ReplyRedirect url) \<Longrightarrow> follow_redirects n env ask url h = None"
  by (induction n arbitrary: h) simp_all

section \<open>Requests\<close>

text \<open>\<open>CustomHttpRequest\<close> and \<open>CustomInternalHttpRequest\<close>; \<open>valid\<close> is the check of \<open>http.NewRequest\<close>
  (method and URL), \<open>send\<close> the client.\<close>

definition custom_http_request_as ::
  "(string \<Rightarrow> string \<Rightarrow> 'e option) \<Rightarrow> (string \<Rightarrow> string \<Rightarrow> (string \<times> string) list \<Rightarrow> 'e + 'r) \<Rightarrow> environ \<Rightarrow>
     (string \<times> string) list option \<Rightarrow> string \<Rightarrow> string \<Rightarrow> bool \<Rightarrow> 'e + 'r" where
  "custom_http_request_as valid send env orig mtd url internal =
     (case valid mtd url of
        Some e \<Rightarrow> Inl e
      | None \<Rightarrow> send mtd url (custom_request_header env (case orig of None \<Rightarrow> [] | Some h \<Rightarrow> h) internal))"

definition custom_http_request where
  "custom_http_request valid send env orig mtd url = custom_http_request_as valid send env orig mtd url False"

definition custom_internal_http_request where
  "custom_internal_http_request valid send env orig mtd url = custom_http_request_as valid send env orig mtd url True"

text \<open>No header of the hop is sent on; a request of the program itself asks for no part of the
  resource and for no compression by name.\<close>

lemma internal_request_plain:
  "kv \<in> set (custom_request_header env orig True) \<Longrightarrow> fst kv \<notin> set internal_only_request_headers"
  using custom_request_header_skips [of kv env orig True] by (auto simp: should_skip_request_header_def split: if_splits)

section \<open>utils/fingerprint.go\<close>

definition generate_fingerprint ::
  "(string \<Rightarrow> string) \<Rightarrow> string \<Rightarrow> (string \<times> string) list \<Rightarrow> string \<Rightarrow> string" where
  "generate_fingerprint sha256 remote h p =
     (let xff = header_get h ''X-Forwarded-For'';
          ip = (if xff \<noteq> [] then xff else hd (split_char (CHR '':'') remote))
      in hex_encode (sha256 (join_str ''|''
           [ip, header_get h ''User-Agent'', header_get h ''Accept'', header_get h ''Accept-Language'', p])))"

text \<open>The address is cut at the first colon: of an IPv6 address only the first group counts.\<close>

lemma ipv6_clients_alike:
  assumes "header_get h ''X-Forwarded-For'' = []"
  shows "generate_fingerprint sha256 ''[2001:db8::1]:4000'' h p = generate_fingerprint sha256 ''[2001:db9::7]:5000'' h p"
  using assms by (simp add: generate_fingerprint_def)

end
