(* ===== verification/BalancerState.thy ===== *)
theory BalancerState
  imports LoadBalancer
begin

text \<open>
  The load balancer around its search: the instance and its options, the candidates tested per
  stream, the context of a call (proxy/loadbalancer/instance.go, context.go, defaults.go), the
  measurement of a stream (helpers.go), and the way in (handlers/proxy_instance.go).
\<close>

section \<open>The instance\<close>

text \<open>The fields of \<open>http.Transport\<close> that the program copies; functions and TLS settings are
  opaque handles. \<open>ht_other\<close> stands for the fields that it does not copy (0: unset).\<close>

record 'h http_transport =
  ht_proxy :: "'h option"
  ht_dial :: "'h option"
  ht_tls :: "'h option"
  ht_tls_timeout :: int
  ht_no_keep_alives :: bool
  ht_no_compression :: bool
  ht_max_idle :: int
  ht_max_idle_per_host :: int
  ht_idle_timeout :: int
  ht_header_timeout :: int
  ht_expect_timeout :: int
  ht_force_http2 :: bool
  ht_other :: nat

text \<open>An \<open>http.Client\<close> with a transport of type \<open>http.Transport\<close> or another one (or none), or an
  implementation of the interface \<open>HTTPClient\<close> of another type.\<close>

datatype 'h lb_client = StdClient "'h http_transport option" 'h | OtherClient 'h

definition empty_transport :: "'h http_transport" where
  "empty_transport =
     \<lparr>ht_proxy = None, ht_dial = None, ht_tls = None, ht_tls_timeout = 0, ht_no_keep_alives = False,
      ht_no_compression = False, ht_max_idle = 0, ht_max_idle_per_host = 0, ht_idle_timeout = 0,
      ht_header_timeout = 0, ht_expect_timeout = 0, ht_force_http2 = False, ht_other = 0\<rparr>"

definition health_header_timeout :: int where "health_header_timeout = 3000000000"

text \<open>The client of the probes: that of the instance with a short wait for the header.\<close>

definition health_client_of :: "'h lb_client \<Rightarrow> 'h lb_client" where
  "health_client_of c =
     (case c of
        StdClient (Some t) rest \<Rightarrow>
          StdClient (Some (empty_transport\<lparr>
            ht_proxy := ht_proxy t, ht_dial := ht_dial t, ht_tls := ht_tls t, ht_tls_timeout := ht_tls_timeout t,
            ht_no_keep_alives := ht_no_keep_alives t, ht_no_compression := ht_no_compression t,
            ht_max_idle := ht_max_idle t, ht_max_idle_per_host := ht_max_idle_per_host t,
            ht_idle_timeout := ht_idle_timeout t, ht_header_timeout := health_header_timeout,
            ht_expect_timeout := ht_expect_timeout t, ht_force_http2 := ht_force_http2 t\<rparr>)) rest
      | StdClient None rest \<Rightarrow> StdClient (Some (empty_transport\<lparr>ht_header_timeout := health_header_timeout\<rparr>)) rest
      | OtherClient h \<Rightarrow> OtherClient h)"

record 'h lb_instance =
  li_info :: "stream_info option"
  li_config :: lb_config
  li_client :: "'h lb_client"
  li_health :: "'h lb_client"
  li_logger :: 'h
  li_indexes :: "utils_state \<Rightarrow> string list"
  li_slugs :: "string \<Rightarrow> slug_error + stream_info"
  li_tested :: "string \<Rightarrow> string list option"

definition set_health_client :: "'h lb_instance \<Rightarrow> 'h lb_instance" where
  "set_health_client i = i\<lparr>li_health := health_client_of (li_client i)\<rparr>"

text \<open>The options of the constructor.\<close>

definition with_http_client :: "'h lb_client \<Rightarrow> 'h lb_instance \<Rightarrow> 'h lb_instance" where
  "with_http_client c i = set_health_client (i\<lparr>li_client := c\<rparr>)"

definition with_logger :: "'h \<Rightarrow> 'h lb_instance \<Rightarrow> 'h lb_instance" where
  "with_logger l i = i\<lparr>li_logger := l\<rparr>"

definition with_index_provider :: "(utils_state \<Rightarrow> string list) \<Rightarrow> 'h lb_instance \<Rightarrow> 'h lb_instance" where
  "with_index_provider p i = i\<lparr>li_indexes := p\<rparr>"

definition with_slug_parser :: "(string \<Rightarrow> slug_error + stream_info) \<Rightarrow> 'h lb_instance \<Rightarrow> 'h lb_instance" where
  "with_slug_parser p i = i\<lparr>li_slugs := p\<rparr>"

text \<open>\<open>GetStreamBySlug\<close> of sourceproc/helpers.go, the default slug parser; its error result carries
  an empty stream, which no caller reads.\<close>

definition get_stream_by_slug ::
  "utils_state \<Rightarrow> stream_files \<Rightarrow> slug_dir \<Rightarrow> slug_dir \<Rightarrow> string \<Rightarrow> slug_error + stream_info" where
  "get_stream_by_slug us files cur new slug =
     (case parse_stream_info_by_slug us files cur new slug of Inl e \<Rightarrow> Inl e | Inr s \<Rightarrow> Inr s)"

definition default_index_provider :: "utils_state \<Rightarrow> string list" where
  "default_index_provider us = get_m3u_indexes us"

definition new_load_balancer_instance ::
  "'h lb_client \<Rightarrow> 'h \<Rightarrow> (string \<Rightarrow> slug_error + stream_info) \<Rightarrow> lb_config \<Rightarrow>
     ('h lb_instance \<Rightarrow> 'h lb_instance) list \<Rightarrow> 'h lb_instance" where
  "new_load_balancer_instance client logger by_slug cfg opts =
     fold (\<lambda>opt i. opt i) opts
       (set_health_client
          \<lparr>li_info = None, li_config = cfg, li_client = client, li_health = client, li_logger = logger,
           li_indexes = default_index_provider, li_slugs = by_slug, li_tested = (\<lambda>_. None)\<rparr>)"

definition get_stream_info :: "'h lb_instance \<Rightarrow> stream_info option" where
  "get_stream_info i = li_info i"

definition set_stream_info :: "stream_info \<Rightarrow> 'h lb_instance \<Rightarrow> 'h lb_instance" where
  "set_stream_info s i = i\<lparr>li_info := Some s\<rparr>"

section \<open>Candidates tested\<close>

definition tested_of :: "'h lb_instance \<Rightarrow> string \<Rightarrow> string list" where
  "tested_of i stream = (case li_tested i stream of None \<Rightarrow> [] | Some ts \<Rightarrow> ts)"

definition get_num_tested_indexes :: "string \<Rightarrow> 'h lb_instance \<Rightarrow> nat" where
  "get_num_tested_indexes stream i = (case li_tested i stream of None \<Rightarrow> 0 | Some ts \<Rightarrow> length ts)"

definition mark_tested :: "string \<Rightarrow> string \<Rightarrow> 'h lb_instance \<Rightarrow> 'h lb_instance" where
  "mark_tested stream k i = i\<lparr>li_tested := (li_tested i)(stream \<mapsto> tested_of i stream @ [k])\<rparr>"

definition clear_tested :: "string \<Rightarrow> 'h lb_instance \<Rightarrow> 'h lb_instance" where
  "clear_tested stream i = i\<lparr>li_tested := (li_tested i)(stream := None)\<rparr>"

text \<open>The marks that a search leaves, as marks of the map: a search works on the list of its
  stream only.\<close>

definition put_tested :: "string \<Rightarrow> string list \<Rightarrow> 'h lb_instance \<Rightarrow> 'h lb_instance" where
  "put_tested stream ts i = fold (mark_tested stream) ts (clear_tested stream i)"

lemma tested_marks:
  "tested_of (fold (mark_tested s) ks i) s = tested_of i s @ ks"
  "t \<noteq> s \<Longrightarrow> tested_of (fold (mark_tested s) ks i) t = tested_of i t"
  by (induction ks arbitrary: i) (auto simp: mark_tested_def tested_of_def)

lemma put_tested_of: "tested_of (put_tested s ts i) u = (if u = s then ts else tested_of i u)"
proof -
  have "tested_of (clear_tested s i) s = []" by (simp add: clear_tested_def tested_of_def)
  moreover have "u \<noteq> s \<Longrightarrow> tested_of (clear_tested s i) u = tested_of i u"
    by (simp add: clear_tested_def tested_of_def)
  ultimately show ?thesis by (simp add: put_tested_def tested_marks)
qed

lemma num_tested: "get_num_tested_indexes s i = length (tested_of i s)"
  by (simp add: get_num_tested_indexes_def tested_of_def split: option.splits)

lemma marks_keep:
  "li_health (fold (mark_tested s) ks i) = li_health i" "li_client (fold (mark_tested s) ks i) = li_client i"
  by (induction ks arbitrary: i) (auto simp: mark_tested_def)

section \<open>The context of a call\<close>

text \<open>The value that \<open>WithExcludedIndexes\<close> puts into a context, if any; \<open>excludedIndexesFromContext\<close>
  yields nil for none, which the callers treat as an empty set.\<close>

definition context_with_excluded :: "string list \<Rightarrow> string list option \<Rightarrow> string list option" where
  "context_with_excluded indexes ctx =
     (if indexes = [] then ctx
      else let n = normalized_indexes indexes in if n = [] then ctx else Some n)"

definition excluded_indexes_from_context :: "string list option \<Rightarrow> string list" where
  "excluded_indexes_from_context ctx = (case ctx of None \<Rightarrow> [] | Some v \<Rightarrow> if v = [] then [] else v)"

definition sorted_index_keys :: "string list \<Rightarrow> string list" where
  "sorted_index_keys ks = sort_by lb_less_source_index ks"

lemma excluded_from_context:
  "excluded_indexes_from_context (context_with_excluded indexes ctx) =
     with_excluded_indexes (excluded_indexes_from_context ctx) indexes"
  by (auto simp: excluded_indexes_from_context_def context_with_excluded_def with_excluded_indexes_def
      normalized_indexes_def Let_def)

section \<open>Measuring a stream\<close>

datatype body_error = ReadEnd | ReadFailure

text \<open>\<open>evaluateBufferHealth\<close>. A read of the body is its bytes and error, after the time at which
  the deadline is checked; the remaining reads stay in the body. The result: the bytes read and
  what remains, None when a read fails. The outer option is None while the reads last no longer
  than the measurement (a read that blocks).\<close>

type_synonym body_reads = "(int \<times> string \<times> body_error option) list"

fun measure_loop :: "int \<Rightarrow> body_reads \<Rightarrow> string \<Rightarrow> (string \<times> body_reads) option option" where
  "measure_loop deadline [] consumed = None"
| "measure_loop deadline ((now, data, err) # rs) consumed =
     (if now \<ge> deadline then Some (Some (consumed, (now, data, err) # rs))
      else
        (case err of
           None \<Rightarrow> measure_loop deadline rs (consumed @ data)
         | Some ReadEnd \<Rightarrow> Some (Some (consumed @ data, rs))
         | Some ReadFailure \<Rightarrow> Some None))"

definition measure_duration :: int where "measure_duration = 2000000000"

definition body_text :: "body_reads \<Rightarrow> string" where
  "body_text rs = concat (map (\<lambda>(_, d, _). d) rs)"

text \<open>Bytes per second over the time elapsed, which is never taken to be zero; and the new body:
  the bytes consumed, then the rest.\<close>

definition evaluate_buffer_health ::
  "int \<Rightarrow> int \<Rightarrow> body_reads \<Rightarrow> (rat \<times> string) option option" where
  "evaluate_buffer_health start finish rs =
     map_option (map_option (\<lambda>(consumed, rest).
        let elapsed = (if finish - start = 0 then 1000000 else finish - start)
        in (of_nat (length consumed) * 1000000000 / of_int elapsed, consumed @ body_text rest)))
       (measure_loop (start + measure_duration) rs [])"

text \<open>The body that a measured stream is served with is the body that came.\<close>

lemma measure_loop_text:
  "measure_loop d rs acc = Some (Some (consumed, rest)) \<Longrightarrow>
     \<exists>cut. rs = cut @ rest \<and> consumed = acc @ body_text cut"
proof (induction d rs acc rule: measure_loop.induct)
  case (2 d now data err rs acc)
  show ?case
  proof (cases "now \<ge> d")
    case True
    then show ?thesis using 2(2) by (auto simp: body_text_def)
  next
    case False
    show ?thesis
    proof (cases err)
      case None
      then obtain cut where "rs = cut @ rest" "consumed = (acc @ data) @ body_text cut"
        using 2 False by auto
      then show ?thesis using None by (intro exI [of _ "(now, data, err) # cut"]) (simp add: body_text_def)
    next
      case (Some e)
      then have "rs = rest" "consumed = acc @ data" using 2(2) False by (cases e; simp)+
      then show ?thesis by (intro exI [of _ "[(now, data, err)]"]) (simp add: body_text_def)
    qed
  qed
qed simp

lemma measured_body:
  "evaluate_buffer_health start finish rs = Some (Some (h, body)) \<Longrightarrow> body = body_text rs"
  using measure_loop_text [of _ rs "[]"]
  by (fastforce simp: evaluate_buffer_health_def Let_def body_text_def)

lemma measured_health:
  assumes "evaluate_buffer_health start finish rs = Some (Some (h, body))" and "start \<le> finish"
  shows "0 \<le> h"
  using assms by (auto simp: evaluate_buffer_health_def Let_def intro!: divide_nonneg_nonneg)

section \<open>The response of a probe\<close>

text \<open>A response that a search has opened: whether it is a local file, whether its body has been
  wrapped by the measurement (\<open>io.NopCloser\<close>), whether the body that was opened has been closed,
  and whether the context of the request has been cancelled. \<open>or_timed\<close>: the request has a
  time-out, so that its release cancels the context.\<close>

record open_response =
  or_local :: bool
  or_timed :: bool
  or_wrapped :: bool
  or_closed :: bool
  or_cancelled :: bool

definition opened_response :: "bool \<Rightarrow> bool \<Rightarrow> open_response" where
  "opened_response local timed =
     \<lparr>or_local = local, or_timed = timed, or_wrapped = False, or_closed = False, or_cancelled = False\<rparr>"

definition release_response :: "open_response \<Rightarrow> open_response" where
  "release_response r = (if or_timed r \<and> \<not> or_local r then r\<lparr>or_cancelled := True\<rparr> else r)"

definition close_stream_response :: "open_response \<Rightarrow> open_response" where
  "close_stream_response r = release_response (if or_wrapped r then r else r\<lparr>or_closed := True\<rparr>)"

text \<open>A probe: the status, the check for a playlist, the measurement (which fails or not), and the
  deferred close. Then the second fetch: a response is given back or served.\<close>

definition probe_response :: "int \<Rightarrow> bool \<Rightarrow> bool \<Rightarrow> open_response \<Rightarrow> open_response" where
  "probe_response status m3u8 measured r =
     close_stream_response
       (if is_acceptable_stream_status status \<and> \<not> m3u8 \<and> measured then r\<lparr>or_wrapped := True\<rparr> else r)"

definition refetch_response :: "int \<Rightarrow> open_response \<Rightarrow> open_response" where
  "refetch_response status r = (if is_acceptable_stream_status status then release_response r else close_stream_response r)"

text \<open>A response from the network is given back by every probe: closed, or cancelled.\<close>

lemma probe_gives_back:
  "or_cancelled (probe_response status m3u8 measured (opened_response False True))"
  by (simp add: probe_response_def close_stream_response_def release_response_def opened_response_def)

text \<open>A local file that is measured is never closed: the deferred close finds the wrapper.\<close>

lemma measured_file_stays_open:
  assumes "is_acceptable_stream_status status" and "\<not> m3u8" and "measured"
  shows "\<not> or_closed (probe_response status m3u8 measured (opened_response True True)) \<and>
    \<not> or_cancelled (probe_response status m3u8 measured (opened_response True True))"
  using assms by (simp add: probe_response_def close_stream_response_def release_response_def opened_response_def)

text \<open>The response that is served stays open, and its request is not cancelled.\<close>

lemma served_response_open:
  "is_acceptable_stream_status status \<Longrightarrow>
     refetch_response status (opened_response local False) = opened_response local False"
  by (simp add: refetch_response_def release_response_def opened_response_def)

lemma refused_response_closed:
  "\<not> is_acceptable_stream_status status \<Longrightarrow> or_closed (refetch_response status (opened_response local timed))"
  by (simp add: refetch_response_def close_stream_response_def release_response_def opened_response_def)

section \<open>A call\<close>

text \<open>\<open>Balance\<close> on an instance: the marks of the stream before and after are those of the search.
  \<open>available\<close> (the index provider) enters the search through \<open>us\<close>.\<close>

definition balance_instance ::
  "nat \<Rightarrow> utils_state \<Rightarrow> lb_world \<Rightarrow> string list option \<Rightarrow> string \<Rightarrow> 'h lb_instance \<Rightarrow>
     ((lb_error + lb_result) \<times> 'h lb_instance) option" where
  "balance_instance fuel us w ctx url_path i =
     (let stream = get_stream_id url_path;
          i1 = (case fetch_backend_urls (li_slugs i stream) of Inl _ \<Rightarrow> i | Inr s \<Rightarrow> set_stream_info s i)
      in map_option (\<lambda>(r, ts). (r, put_tested stream ts i1))
           (balance fuel us w (li_config i) (excluded_indexes_from_context ctx) (li_slugs i) url_path
              (tested_of i stream)))"

text \<open>\<open>DefaultProxyInstance.LoadBalancer\<close> makes an instance for each call: nothing has been tested.\<close>

definition default_load_balancer ::
  "'h lb_client \<Rightarrow> 'h \<Rightarrow> 'h \<Rightarrow> lb_config \<Rightarrow> nat \<Rightarrow> utils_state \<Rightarrow> lb_world \<Rightarrow>
     (string \<Rightarrow> slug_error + stream_info) \<Rightarrow> string list option \<Rightarrow> string \<Rightarrow> (lb_error + lb_result) option" where
  "default_load_balancer client dflt lg cfg fuel us w by_slug ctx url_path =
     map_option fst (balance_instance fuel us w ctx url_path
       (new_load_balancer_instance client dflt by_slug cfg [with_logger lg]))"

lemma balance_other_streams:
  assumes "balance_instance fuel us w ctx url_path i = Some (r, i')" and "t \<noteq> get_stream_id url_path"
  shows "tested_of i' t = tested_of i t"
  using assms
  by (auto simp: balance_instance_def Let_def put_tested_of split: sum.splits)
     (simp add: set_stream_info_def tested_of_def)

lemma default_balancer_starts_fresh:
  "default_load_balancer client dflt lg cfg fuel us w by_slug ctx url_path =
     map_option fst (balance fuel us w cfg (excluded_indexes_from_context ctx) by_slug url_path [])"
  by (simp add: default_load_balancer_def balance_instance_def new_load_balancer_instance_def with_logger_def
      set_health_client_def tested_of_def Let_def option.map_comp o_def case_prod_beta)

section \<open>The client of the probes\<close>

text \<open>Whatever the options, the probes use the client of the instance with the short time-out.\<close>

definition instance_ok :: "'h lb_instance \<Rightarrow> bool" where
  "instance_ok i = (li_health i = health_client_of (li_client i))"

inductive lb_option :: "('h lb_instance \<Rightarrow> 'h lb_instance) \<Rightarrow> bool" where
  "lb_option (with_http_client c)"
| "lb_option (with_logger l)"
| "lb_option (with_index_provider p)"
| "lb_option (with_slug_parser q)"

lemma option_keeps_ok: "lb_option opt \<Longrightarrow> instance_ok i \<Longrightarrow> instance_ok (opt i)"
  by (induction rule: lb_option.induct)
     (simp_all add: instance_ok_def with_http_client_def set_health_client_def with_logger_def
        with_index_provider_def with_slug_parser_def)

lemma new_instance_ok:
  assumes "list_all lb_option opts"
  shows "instance_ok (new_load_balancer_instance client lg by_slug cfg opts)"
proof -
  have "instance_ok i \<Longrightarrow> instance_ok (fold (\<lambda>opt i. opt i) opts i)" for i :: "'a lb_instance"
    using assms by (induction opts arbitrary: i) (simp_all add: option_keeps_ok)
  then show ?thesis by (simp add: new_load_balancer_instance_def instance_ok_def set_health_client_def)
qed

lemma balance_keeps_instance_ok:
  assumes "instance_ok i" and "balance_instance fuel us w ctx url_path i = Some (r, i')"
  shows "instance_ok i'"
  using assms
  by (auto simp: balance_instance_def Let_def put_tested_def instance_ok_def marks_keep clear_tested_def
      set_stream_info_def split: sum.splits)

text \<open>A client without a transport of the standard type loses what it dials with; the header
  time-out of a standard transport is the only field that a probe changes.\<close>

lemma health_transport:
  "health_client_of (StdClient (Some t) rest) =
     StdClient (Some (t\<lparr>ht_header_timeout := health_header_timeout, ht_other := 0\<rparr>)) rest"
  by (simp add: health_client_of_def empty_transport_def)

end
