(* ===== verification/Instances.thy ===== *)
theory Instances
  imports BalancerState StreamHandlers
begin

text \<open>
  The objects that tie the parts together for one request: handlers/proxy_instance.go
  (\<open>DefaultProxyInstance\<close>), the constructor of proxy/stream/stream_instance.go and the writes of
  proxy/stream/media_stream.go that recover from a panic.
\<close>

section \<open>A stream instance\<close>

text \<open>\<open>nil\<close> loggers are None; the constructor puts the default one in.\<close>

record 'h stream_instance =
  st_cm :: cm_state
  st_config :: stream_config
  st_logger :: "'h option"

definition stream_with_logger :: "'h option \<Rightarrow> 'h stream_instance \<Rightarrow> 'h stream_instance" where
  "stream_with_logger l i = i\<lparr>st_logger := l\<rparr>"

definition new_stream_instance ::
  "'h \<Rightarrow> cm_state option \<Rightarrow> stream_config \<Rightarrow> ('h stream_instance \<Rightarrow> 'h stream_instance) list \<Rightarrow>
     string + 'h stream_instance" where
  "new_stream_instance dflt cm cfg opts =
     (case cm of
        None \<Rightarrow> Inl ''concurrency manager is required''
      | Some m \<Rightarrow>
          (let i = fold (\<lambda>opt i. opt i) opts \<lparr>st_cm = m, st_config = cfg, st_logger = None\<rparr>
           in Inr (if st_logger i = None then i\<lparr>st_logger := Some dflt\<rparr> else i)))"

lemma new_stream_instance_logger:
  "new_stream_instance dflt cm cfg opts = Inr i \<Longrightarrow> st_logger i \<noteq> None"
  by (auto simp: new_stream_instance_def Let_def split: option.splits if_splits)

section \<open>Writes that recover\<close>

text \<open>What a write of the response writer does: it returns (bytes written, error) or panics.
  \<open>safeWrite\<close> turns the panic into an error; the count is then that of a named result that was
  never set.\<close>

datatype raw_write = WriteReturned nat "string option" | WritePanicked string

definition safe_write :: "raw_write \<Rightarrow> nat \<times> string option" where
  "safe_write w =
     (case w of WriteReturned n err \<Rightarrow> (n, err) | WritePanicked r \<Rightarrow> (0, Some (''write failed: '' @ r)))"

text \<open>\<open>safeFlush\<close>: a panic of the flush (Some) is logged and dropped; the result is always nil.\<close>

definition safe_flush :: "string option \<Rightarrow> string option" where
  "safe_flush panic = None"

section \<open>The proxy instance\<close>

text \<open>\<open>DefaultProxyInstance\<close>: one connection manager and one registry for all requests.\<close>

record proxy_instance =
  pi_lb_config :: lb_config
  pi_stream_config :: stream_config
  pi_registry :: registry
  pi_cm :: cm_state

definition new_default_proxy_instance :: "environ \<Rightarrow> proxy_instance" where
  "new_default_proxy_instance env =
     \<lparr>pi_lb_config = new_default_lb_config env, pi_stream_config = new_default_stream_config env,
      pi_registry = [], pi_cm = new_concurrency_manager\<rparr>"

definition get_concurrency_manager :: "proxy_instance \<Rightarrow> cm_state" where
  "get_concurrency_manager p = pi_cm p"

definition get_stream_registry :: "proxy_instance \<Rightarrow> registry" where
  "get_stream_registry p = pi_registry p"

text \<open>\<open>DefaultProxyInstance.ProxyStream\<close>: the stream is proxied by an instance made for the call.
  The manager is there, so the error of the constructor cannot occur.\<close>

definition default_proxy_stream ::
  "'h \<Rightarrow> 'h \<Rightarrow> utils_state \<Rightarrow> stream_config \<Rightarrow> proxy_world \<Rightarrow> lb_result \<Rightarrow> stream_client \<times> coordinator \<Rightarrow> cm_state option \<Rightarrow>
     (int \<times> stream_client \<times> coordinator \<times> cm_state option) option" where
  "default_proxy_stream dflt lg us cfg w r cc cm =
     (case new_stream_instance dflt cm cfg [stream_with_logger (Some lg)] of
        Inl e \<Rightarrow> Some (status_server_error, fst cc, finish_writer_setup (snd cc), cm)
      | Inr i \<Rightarrow>
          map_option (\<lambda>(status, c, co, m). (status, c, co, Some m)) (proxy_stream us w r (fst cc, snd cc, st_cm i)))"

lemma default_proxy_stream_eq:
  "default_proxy_stream dflt lg us cfg w r (c, co) (Some cm) =
     map_option (\<lambda>(status, c, co, m). (status, c, co, Some m)) (proxy_stream us w r (c, co, cm))"
  by (simp add: default_proxy_stream_def new_stream_instance_def stream_with_logger_def Let_def)

text \<open>Without a manager the writer's setup is released, so that no client waits for it.\<close>

lemma default_proxy_stream_no_manager:
  assumes "default_proxy_stream dflt lg us cfg w r (c, co) None = Some (status, c1, co1, cm1)"
  shows "status = status_server_error \<and> \<not> must_wait_for_setup co1"
  using assms
  by (auto simp: default_proxy_stream_def new_stream_instance_def must_wait_for_setup_def finish_writer_setup_def
      split: if_splits)

end
