(* ===== verification/Publication.thy ===== *)
theory Publication
  imports Slugs Paths
begin

text \<open>
  The publication of the slugs file by file, \<open>applyNewRemoteFiles\<close>, \<open>clearDirFiles\<close> and
  \<open>copyDirContents\<close> of sourceproc/processor.go, against a reader (\<open>DecodeSlug\<close>, sourceproc/slug.go),
  the lock that both take (sourceproc/flock.go), and the paths of config/config.go. Slugs treats
  the publication as one step; here a step is one operation on one file.
\<close>

section \<open>The steps\<close>

text \<open>\<open>os.WriteFile\<close> truncates the file and then writes it: in between its text does not parse.\<close>

datatype pub_step =
    PubMkdir | PubRemove string | PubTruncate string | PubFill string "stream_info option" | PubDrop string | PubRmdir

definition dir_files :: "slug_dir \<Rightarrow> (string \<times> stream_info option) list" where
  "dir_files d = (case d of None \<Rightarrow> [] | Some fs \<Rightarrow> fs)"

fun apply_pub :: "pub_step \<Rightarrow> slug_dir \<times> slug_dir \<Rightarrow> slug_dir \<times> slug_dir" where
  "apply_pub PubMkdir (cur, new) = (Some (dir_files cur), new)"
| "apply_pub (PubRemove k) (cur, new) = (map_option (AList.delete k) cur, new)"
| "apply_pub (PubTruncate k) (cur, new) = (map_option (AList.update k None) cur, new)"
| "apply_pub (PubFill k v) (cur, new) = (map_option (AList.update k v) cur, new)"
| "apply_pub (PubDrop k) (cur, new) = (cur, map_option (AList.delete k) new)"
| "apply_pub PubRmdir (cur, new) = (cur, None)"

definition clear_steps :: "slug_dir \<Rightarrow> pub_step list" where
  "clear_steps cur = map (PubRemove \<circ> fst) (dir_files cur)"

definition copy_steps :: "slug_dir \<Rightarrow> pub_step list" where
  "copy_steps new = concat (map (\<lambda>(k, v). [PubTruncate k, PubFill k v]) (dir_files new))"

definition remove_steps :: "slug_dir \<Rightarrow> pub_step list" where
  "remove_steps new = map (PubDrop \<circ> fst) (dir_files new) @ [PubRmdir]"

definition publication_steps :: "slug_dir \<times> slug_dir \<Rightarrow> pub_step list" where
  "publication_steps d =
     (PubMkdir # clear_steps (fst d) @ copy_steps (snd d)) @ remove_steps (snd d)"

definition run_pub :: "pub_step list \<Rightarrow> slug_dir \<times> slug_dir \<Rightarrow> slug_dir \<times> slug_dir" where
  "run_pub steps d = fold apply_pub steps d"

text \<open>\<open>DecodeSlug\<close> reads one directory and then, if the slug is not there, the other: \<open>d1\<close> and \<open>d2\<close>
  are the directories at the two reads.\<close>

definition decode_slug_at :: "slug_dir \<times> slug_dir \<Rightarrow> slug_dir \<times> slug_dir \<Rightarrow> string \<Rightarrow> slug_error + stream_info" where
  "decode_slug_at d1 d2 slug = decode_slug (fst d1) (snd d2) slug"

section \<open>The effect of all the steps\<close>

definition keeps_new :: "pub_step \<Rightarrow> bool" where
  "keeps_new st = (case st of PubDrop _ \<Rightarrow> False | PubRmdir \<Rightarrow> False | _ \<Rightarrow> True)"

lemma run_pub_append [simp]: "run_pub (xs @ ys) d = run_pub ys (run_pub xs d)"
  by (simp add: run_pub_def)

lemma run_pub_simps [simp]: "run_pub [] d = d" "run_pub (x # xs) d = run_pub xs (apply_pub x d)"
  by (simp_all add: run_pub_def)

lemma run_keeps_new: "list_all keeps_new steps \<Longrightarrow> snd (run_pub steps d) = snd d"
proof (induction steps arbitrary: d)
  case (Cons st steps)
  then show ?case by (cases d; cases st) (simp_all add: keeps_new_def)
qed simp

lemma front_keeps_new: "list_all keeps_new (PubMkdir # clear_steps cur @ copy_steps new)"
  by (auto simp: keeps_new_def clear_steps_def copy_steps_def list_all_iff)

lemma remove_keeps_cur: "\<not> list_ex keeps_new steps \<Longrightarrow> fst (run_pub steps d) = fst d"
proof (induction steps arbitrary: d)
  case (Cons st steps)
  then show ?case by (cases d; cases st) (simp_all add: keeps_new_def)
qed simp

lemma remove_steps_drop: "\<not> list_ex keeps_new (take n (remove_steps new))"
  by (auto simp: remove_steps_def keeps_new_def list_ex_iff dest!: in_set_takeD)

lemma run_remove_last: "snd (run_pub (remove_steps new) d) = None"
  by (cases "run_pub (map (PubDrop \<circ> fst) (dir_files new)) d") (simp add: remove_steps_def)

definition cur_read :: "slug_dir \<times> slug_dir \<Rightarrow> string \<Rightarrow> stream_info option option" where
  "cur_read d k = read_slug (fst d) k"

lemma apply_read:
  assumes "fst d = Some fs"
  shows "cur_read (apply_pub (PubRemove j) d) k = (if k = j then None else cur_read d k)"
    and "cur_read (apply_pub (PubTruncate j) d) k = (if k = j then Some None else cur_read d k)"
    and "cur_read (apply_pub (PubFill j v) d) k = (if k = j then Some v else cur_read d k)"
  using assms by (cases d; auto simp: cur_read_def read_slug_def delete_conv' update_conv')+

lemma apply_stays: "fst d \<noteq> None \<Longrightarrow> fst (apply_pub st d) \<noteq> None"
  by (cases d; cases st) auto

lemma run_stays: "fst d \<noteq> None \<Longrightarrow> fst (run_pub steps d) \<noteq> None"
  by (induction steps arbitrary: d) (simp_all add: apply_stays del: not_None_eq)

lemma run_clear:
  "fst d \<noteq> None \<Longrightarrow> cur_read (run_pub (map (PubRemove \<circ> fst) fs) d) k = (if k \<in> fst ` set fs then None else cur_read d k)"
proof (induction fs arbitrary: d)
  case (Cons f fs)
  obtain gs where "fst d = Some gs" using Cons.prems by auto
  then show ?case
    using Cons.IH [OF apply_stays [OF Cons.prems, of "PubRemove (fst f)"]] by (auto simp: apply_read)
qed simp

lemma run_copy:
  "fst d \<noteq> None \<Longrightarrow> distinct (map fst fs) \<Longrightarrow>
     cur_read (run_pub (concat (map (\<lambda>(k, v). [PubTruncate k, PubFill k v]) fs)) d) k =
       (case map_of fs k of None \<Rightarrow> cur_read d k | Some v \<Rightarrow> Some v)"
proof (induction fs arbitrary: d)
  case (Cons f fs)
  obtain j v where f: "f = (j, v)" by (cases f)
  let ?d = "apply_pub (PubFill j v) (apply_pub (PubTruncate j) d)"
  have some: "fst (apply_pub (PubTruncate j) d) \<noteq> None" "fst ?d \<noteq> None" using apply_stays Cons.prems(1) by blast+
  then have "cur_read ?d k = (if k = j then Some v else cur_read d k)"
    using Cons.prems(1) by (auto simp: apply_read)
  moreover have "map_of fs j = None" using Cons.prems(2) f by (simp add: map_of_eq_None_iff)
  ultimately show ?case using Cons.IH [OF some(2)] Cons.prems(2) by (auto simp: f split: option.splits)
qed simp

lemma front_read:
  assumes "slug_dir_ok new"
  shows "cur_read (run_pub (PubMkdir # clear_steps cur @ copy_steps new) (cur, new)) k = read_slug new k"
proof -
  let ?d = "apply_pub PubMkdir (cur, new)"
  have some: "fst ?d \<noteq> None" "fst (run_pub (clear_steps cur) ?d) \<noteq> None" using run_stays by simp_all
  have "cur_read (run_pub (clear_steps cur) ?d) k = None"
    using run_clear [OF some(1), of "dir_files cur" k]
    by (auto simp: clear_steps_def cur_read_def read_slug_def map_of_eq_None_iff)
  moreover have "distinct (map fst (dir_files new))"
    using assms by (simp add: slug_dir_ok_def dir_files_def split: option.splits)
  ultimately show ?thesis
    using run_copy [OF some(2), of "dir_files new" k]
    by (simp add: copy_steps_def read_slug_def dir_files_def split: option.splits)
qed

text \<open>All the steps together are the publication of Slugs.\<close>

lemma publication_refines:
  assumes "slug_dir_ok new"
  shows "read_slug (fst (run_pub (publication_steps (cur, new)) (cur, new))) k = read_slug (fst (publish_slugs (cur, new))) k"
    and "snd (run_pub (publication_steps (cur, new)) (cur, new)) = snd (publish_slugs (cur, new))"
proof -
  let ?d = "run_pub (PubMkdir # clear_steps cur @ copy_steps new) (cur, new)"
  have run: "run_pub (publication_steps (cur, new)) (cur, new) = run_pub (remove_steps new) ?d"
    unfolding publication_steps_def by (simp only: run_pub_append fst_conv snd_conv)
  have "fst (run_pub (remove_steps new) ?d) = fst ?d"
    using remove_keeps_cur [OF remove_steps_drop [of "length (remove_steps new)" new], of ?d] by simp
  then show "read_slug (fst (run_pub (publication_steps (cur, new)) (cur, new))) k = read_slug (fst (publish_slugs (cur, new))) k"
    using front_read [OF assms, of cur k] read_publish [OF assms, of cur k] by (simp only: run cur_read_def)
  show "snd (run_pub (publication_steps (cur, new)) (cur, new)) = snd (publish_slugs (cur, new))"
    unfolding run by (simp only: run_remove_last snd_publish)
qed

section \<open>A reader in between\<close>

lemma list_all_take: "list_all P xs \<Longrightarrow> list_all P (take n xs)"
  by (auto simp: list_all_iff dest: in_set_takeD)

text \<open>The values a slug can have in the current directory before the new directory is removed.\<close>

definition copies_from :: "slug_dir \<Rightarrow> pub_step \<Rightarrow> bool" where
  "copies_from new st = (case st of PubFill k v \<Rightarrow> read_slug new k = Some v | PubDrop _ \<Rightarrow> False | PubRmdir \<Rightarrow> False | _ \<Rightarrow> True)"

lemma front_copies:
  assumes "slug_dir_ok new"
  shows "list_all (copies_from new) (PubMkdir # clear_steps cur @ copy_steps new)"
proof -
  have "read_slug new k = Some v" if "(k, v) \<in> set (dir_files new)" for k v
    using that assms by (auto simp: dir_files_def read_slug_def slug_dir_ok_def split: option.splits)
  then show ?thesis by (auto simp: copies_from_def clear_steps_def copy_steps_def list_all_iff)
qed

lemma read_between:
  assumes "list_all (copies_from new) steps" and "read_slug new k = Some v"
    and "cur_read d k \<in> {r, None, Some None, Some v}"
  shows "cur_read (run_pub steps d) k \<in> {r, None, Some None, Some v}"
  using assms
proof (induction steps arbitrary: d)
  case (Cons st steps)
  have "cur_read (apply_pub st d) k \<in> {r, None, Some None, Some v}"
    using Cons.prems
    by (cases d; cases "fst d"; cases st)
       (auto simp: cur_read_def read_slug_def copies_from_def dir_files_def delete_conv' update_conv')
  then show ?case using Cons by simp
qed simp

text \<open>Whenever it looks, a reader finds a slug of the new playlist: with its new stream, its old one,
  or as a file that is being written; never as missing.\<close>

lemma slug_found_between:
  assumes ok: "slug_dir_ok new" and k: "read_slug new k = Some (Some s)"
    and d: "d = run_pub (take n (publication_steps (cur, new))) (cur, new)"
  shows "decode_slug_at d d k \<in> {Inr s, Inl SlugCorrupt, decode_slug cur new k}"
proof -
  let ?front = "PubMkdir # clear_steps cur @ copy_steps new"
  show ?thesis
  proof (cases "n \<le> length ?front")
    case True
    then have steps: "take n (publication_steps (cur, new)) = take n ?front"
      unfolding publication_steps_def fst_conv snd_conv by (subst take_append) (simp del: append.simps)
    have "list_all keeps_new (take n ?front)" "list_all (copies_from new) (take n ?front)"
      using list_all_take [OF front_keeps_new] list_all_take [OF front_copies [OF ok]] by blast+
    then have "snd d = new" "cur_read d k \<in> {read_slug cur k, None, Some None, Some (Some s)}"
      using run_keeps_new read_between [OF _ k, of _ "(cur, new)" "read_slug cur k"]
      unfolding d steps by (simp_all add: cur_read_def)
    then show ?thesis
      using k by (auto simp: decode_slug_at_def decode_slug_def cur_read_def split: option.splits)
  next
    case False
    then have "take n (?front @ remove_steps new) = ?front @ take (n - length ?front) (remove_steps new)"
      by (subst take_append) (simp del: append.simps)
    then obtain m where steps: "take n (publication_steps (cur, new)) = ?front @ take m (remove_steps new)"
      unfolding publication_steps_def fst_conv snd_conv by blast
    have "fst d = fst (run_pub ?front (cur, new))"
      unfolding d steps run_pub_append by (rule remove_keeps_cur [OF remove_steps_drop])
    then have "read_slug (fst d) k = Some (Some s)" using front_read [OF ok, of cur k] k by (simp add: cur_read_def)
    then show ?thesis by (simp add: decode_slug_at_def decode_slug_def)
  qed
qed

text \<open>A reader whose two reads fall apart can miss a slug that is there before, during and after:
  the first read comes when the current directory has been cleared, the second when the new one
  has been removed.\<close>

lemma decode_misses_slug:
  assumes ok: "slug_dir_ok new" and k: "read_slug new k = Some (Some s)"
  shows "\<exists>n m. n \<le> m \<and>
    decode_slug_at (run_pub (take n (publication_steps (cur, new))) (cur, new))
      (run_pub (take m (publication_steps (cur, new))) (cur, new)) k = Inl SlugNotFound"
proof (intro exI conjI)
  let ?steps = "publication_steps (cur, new)" and ?n = "Suc (length (clear_steps cur))"
  show "?n \<le> length ?steps" by (simp add: publication_steps_def)
  have "take ?n ?steps = PubMkdir # clear_steps cur" by (simp add: publication_steps_def)
  then have "read_slug (fst (run_pub (take ?n ?steps) (cur, new))) k = None"
    using run_clear [of "apply_pub PubMkdir (cur, new)" "dir_files cur" k]
    by (auto simp: clear_steps_def cur_read_def read_slug_def map_of_eq_None_iff)
  moreover have "snd (run_pub (take (length ?steps) ?steps) (cur, new)) = None"
    using publication_refines(2) [OF ok, of cur] by simp
  ultimately show "decode_slug_at (run_pub (take ?n ?steps) (cur, new)) (run_pub (take (length ?steps) ?steps) (cur, new)) k
      = Inl SlugNotFound"
    by (simp add: decode_slug_at_def decode_slug_def read_slug_def)
qed

section \<open>The lock\<close>

text \<open>The handle of the lock file (\<open>lockFile\<close>, \<open>lockFilePath\<close>): its path and whether it holds the lock.
  \<open>Lock\<close> of the library flock waits for other processes (\<open>free\<close> tells whether none holds the file;
  None: it waits), and returns at once when the handle already holds the lock. The mutex of the
  package is held for one call only.\<close>

record source_lock =
  sl_path :: string
  sl_held :: bool

definition new_source_lock :: "string \<Rightarrow> source_lock" where
  "new_source_lock path = \<lparr>sl_path = path, sl_held = False\<rparr>"

definition ensure_lock_file :: "string \<Rightarrow> source_lock \<Rightarrow> source_lock" where
  "ensure_lock_file path l = (if sl_path l \<noteq> path then new_source_lock path else l)"

definition lock_sources :: "bool \<Rightarrow> string \<Rightarrow> source_lock \<Rightarrow> source_lock option" where
  "lock_sources free path l =
     (let l1 = ensure_lock_file path l in
      if sl_held l1 then Some l1 else if free then Some (l1\<lparr>sl_held := True\<rparr>) else None)"

definition unlock_sources :: "string \<Rightarrow> source_lock \<Rightarrow> source_lock" where
  "unlock_sources path l = (ensure_lock_file path l)\<lparr>sl_held := False\<rparr>"

text \<open>Two goroutines of one process are both let in, and the first to leave opens the lock for other
  processes: the lock does not keep a reader out of the publication.\<close>

lemma lock_not_exclusive:
  assumes "lock_sources free path l = Some l1"
  shows "lock_sources free2 path l1 = Some l1" and "\<not> sl_held (unlock_sources path l1)"
  using assms
  by (auto simp: lock_sources_def unlock_sources_def ensure_lock_file_def new_source_lock_def Let_def split: if_splits)

text \<open>A change of the data path between locking and unlocking leaves the old file locked by a handle
  that is lost: the new handle is not held.\<close>

lemma lock_after_path_change:
  "path \<noteq> sl_path l \<Longrightarrow> unlock_sources path l = new_source_lock path"
  by (simp add: unlock_sources_def ensure_lock_file_def new_source_lock_def)

section \<open>The name of a result\<close>

text \<open>\<open>stamp\<close> is the time in the format 20060102150405: updates that begin in the same second get
  the same name.\<close>

definition get_new_m3u_path :: "string \<Rightarrow> app_config \<Rightarrow> string" where
  "get_new_m3u_path stamp g = path_join [get_processed_dir_path g, stamp @ ''.m3u'']"

end
