(* ===== verification/Runs.thy ===== *)
theory Runs
  imports Updater Publication
begin

text \<open>
  The life of one processor, sourceproc/processor.go: the channel that tells the end of a run
  (\<open>revalidatingDone\<close>), the bounded channel of results that \<open>Start\<close> reads, and the small
  operations around a run (also of sourceproc/helpers.go, downloader.go and epgindex.go).
\<close>

section \<open>The end of a run\<close>

text \<open>\<open>revalidatingDone\<close> is open while a run is under way or has not begun. \<open>processStreams\<close> makes a
  new one if it is closed; \<open>compileM3U\<close> closes it, which panics (None) when it is closed.\<close>

record run_gate =
  rg_closed :: bool
  rg_made :: nat

definition new_run_gate :: run_gate where
  "new_run_gate = \<lparr>rg_closed = False, rg_made = 1\<rparr>"

definition begin_streams :: "run_gate \<Rightarrow> run_gate" where
  "begin_streams g = (if rg_closed g then \<lparr>rg_closed = False, rg_made = Suc (rg_made g)\<rparr> else g)"

definition end_compile :: "run_gate \<Rightarrow> run_gate option" where
  "end_compile g = (if rg_closed g then None else Some (g\<lparr>rg_closed := True\<rparr>))"

text \<open>\<open>Wait\<close>: what it can return with: that the run is over, or that the context has ended; it
  blocks when there is nothing.\<close>

datatype wait_outcome = RunOver | ContextOver

definition wait_outcomes :: "run_gate \<Rightarrow> bool \<Rightarrow> wait_outcome list" where
  "wait_outcomes g cancelled = (if rg_closed g then [RunOver] else []) @ (if cancelled then [ContextOver] else [])"

text \<open>\<open>Run\<close> on the gate: \<open>Start\<close> returns when the results are closed, which is after the compilation.\<close>

definition run_through :: "run_gate \<Rightarrow> run_gate option" where
  "run_through g = end_compile (begin_streams g)"

text \<open>A processor can be run again and again; a run never panics on the channel, and \<open>Wait\<close> finds its
  end at once (when the context has ended as well, either outcome may be taken).\<close>

lemma run_through_closes: "\<exists>g1. run_through g = Some g1 \<and> rg_closed g1 \<and> rg_made g \<le> rg_made g1"
  by (auto simp: run_through_def begin_streams_def end_compile_def)

lemma wait_after_run:
  "run_through g = Some g1 \<Longrightarrow> RunOver \<in> set (wait_outcomes g1 cancelled) \<and> (ContextOver \<in> set (wait_outcomes g1 cancelled) \<longleftrightarrow> cancelled)"
  using run_through_closes [of g] by (auto simp: wait_outcomes_def)

section \<open>The results of the workers\<close>

text \<open>The channel of results has room for 1000; a worker that finds it full drops its result. An
  event is the result of a worker (None: no error) or a step of \<open>Start\<close>, which takes one.\<close>

datatype run_event = WorkerResult "string option" | StartTakes

record result_channel =
  rc_buffer :: "string option list"
  rc_taken :: nat
  rc_dropped :: nat

definition result_capacity :: nat where "result_capacity = 1000"

definition new_result_channel :: result_channel where
  "new_result_channel = \<lparr>rc_buffer = [], rc_taken = 0, rc_dropped = 0\<rparr>"

fun result_step :: "run_event \<Rightarrow> result_channel \<Rightarrow> result_channel" where
  "result_step (WorkerResult e) c =
     (if length (rc_buffer c) < result_capacity then c\<lparr>rc_buffer := rc_buffer c @ [e]\<rparr>
      else c\<lparr>rc_dropped := Suc (rc_dropped c)\<rparr>)"
| "result_step StartTakes c =
     (case rc_buffer c of [] \<Rightarrow> c | _ # es \<Rightarrow> c\<lparr>rc_buffer := es, rc_taken := Suc (rc_taken c)\<rparr>)"

definition is_result :: "run_event \<Rightarrow> bool" where
  "is_result ev = (case ev of WorkerResult _ \<Rightarrow> True | StartTakes \<Rightarrow> False)"

text \<open>No result is lost unless the channel is full: taken, waiting and dropped ones are all. The
  worker never waits for the reader.\<close>

lemma result_step_counts:
  "rc_taken (result_step ev c) + length (rc_buffer (result_step ev c)) + rc_dropped (result_step ev c) =
     rc_taken c + length (rc_buffer c) + rc_dropped c + (if is_result ev then 1 else 0)"
  by (cases ev) (auto simp: is_result_def split: list.splits)

lemma results_accounted:
  "rc_taken (fold result_step evs c) + length (rc_buffer (fold result_step evs c)) + rc_dropped (fold result_step evs c) =
     rc_taken c + length (rc_buffer c) + rc_dropped c + length (filter is_result evs)"
proof (induction evs arbitrary: c)
  case (Cons ev evs)
  show ?case using Cons.IH [of "result_step ev c"] result_step_counts [of ev c] by simp
qed simp

lemma results_bounded:
  "length (rc_buffer c) \<le> result_capacity \<Longrightarrow> length (rc_buffer (fold result_step evs c)) \<le> result_capacity"
proof (induction evs arbitrary: c)
  case (Cons ev evs)
  have "length (rc_buffer (result_step ev c)) \<le> result_capacity"
    using Cons.prems by (cases ev) (auto split: list.splits)
  then show ?case using Cons.IH by simp
qed simp

section \<open>Around a run\<close>

definition mark_critical_error :: "processor \<Rightarrow> processor" where
  "mark_critical_error p = p\<lparr>pr_critical := True\<rparr>"

definition processor_count :: "processor \<Rightarrow> int" where "processor_count p = pr_count p"

text \<open>\<open>clearOldResults\<close>: everything but the result goes.\<close>

definition clear_old_results :: "processor \<Rightarrow> published \<Rightarrow> published" where
  "clear_old_results p pb =
     pb\<lparr>pb_processed := clear_old_processed_m3u (trim_suffix (tmp_name p) ''.tmp'') (pb_processed pb)\<rparr>"

definition clear_processed_m3us :: "published \<Rightarrow> published" where
  "clear_processed_m3us pb = pb\<lparr>pb_processed := []\<rparr>"

text \<open>\<open>SortingManager.Close\<close>: the directory of the shards goes.\<close>

definition close_sorter :: "sorting_manager \<Rightarrow> sorting_manager" where
  "close_sorter m = m\<lparr>sm_files := (\<lambda>_. None)\<rparr>"

section \<open>The progress of a run\<close>

text \<open>\<open>Start\<close> logs each error, and the count at every multiple of a batch: the power of ten below
  the count, at least 100. \<open>lg\<close> is the rounded logarithm as the floating-point functions of the
  library yield it (it may be off by one at a power of ten).\<close>

definition progress_batch :: "(nat \<Rightarrow> nat) \<Rightarrow> nat \<Rightarrow> nat" where
  "progress_batch lg n = (let b = 10 ^ lg n in if b < 100 then 100 else b)"

datatype progress_line = StreamFailed string | ProcessedSoFar nat | CompletedAll nat

fun start_log :: "(nat \<Rightarrow> nat) \<Rightarrow> string option list \<Rightarrow> nat \<Rightarrow> progress_line list" where
  "start_log lg [] n = [CompletedAll n]"
| "start_log lg (e # es) n =
     (case e of None \<Rightarrow> [] | Some m \<Rightarrow> [StreamFailed m]) @
     (if Suc n mod progress_batch lg (Suc n) = 0 then [ProcessedSoFar (Suc n)] else []) @ start_log lg es (Suc n)"

text \<open>Whatever the logarithm, only multiples of 100 are logged, every error is, and the last line has
  the number of results.\<close>

lemma batch_hundreds: "100 dvd progress_batch lg n"
proof (cases "(10::nat) ^ lg n < 100")
  case False
  then have "2 \<le> lg n" using power_increasing [of "lg n" 1 "10::nat"] by (cases "lg n < 2") (auto simp: less_2_cases_iff)
  then have "(10::nat) ^ 2 dvd 10 ^ lg n" by (rule le_imp_power_dvd)
  then show ?thesis using False by (simp add: progress_batch_def Let_def)
qed (simp add: progress_batch_def)

lemma progress_hundreds: "ProcessedSoFar k \<in> set (start_log lg es n) \<Longrightarrow> 100 dvd k"
proof (induction es arbitrary: n)
  case (Cons e es)
  then show ?case
    using batch_hundreds [of lg "Suc n"] by (auto split: option.splits if_splits intro: dvd_trans)
qed simp

lemma progress_complete:
  "last (start_log lg es n) = CompletedAll (n + length es)"
  "Some m \<in> set es \<Longrightarrow> StreamFailed m \<in> set (start_log lg es n)"
proof -
  have ne: "start_log lg es k \<noteq> []" for es k by (induction es arbitrary: k) auto
  show "last (start_log lg es n) = CompletedAll (n + length es)"
    by (induction es arbitrary: n) (simp_all add: ne)
  show "Some m \<in> set es \<Longrightarrow> StreamFailed m \<in> set (start_log lg es n)"
    by (induction es arbitrary: n) auto
qed

text \<open>\<open>isM3UResponse\<close>: None when the peek fails, that is when the reader ends with an error before
  1024 bytes.\<close>

definition is_m3u_response :: "string \<times> bool \<Rightarrow> bool option" where
  "is_m3u_response r =
     (if \<not> snd r \<and> length (fst r) < 1024 then None else Some (is_m3u_content (take 1024 (fst r))))"

lemma handle_remote_url_peek:
  "status = 200 \<Longrightarrow> is_m3u_response body \<noteq> Some True \<Longrightarrow>
     handle_remote_url (Fetched status body) can_create idx cache = use_fallback cache idx NotM3u"
  by (auto simp: handle_remote_url_def is_m3u_response_def split: if_splits)

text \<open>\<open>epgResponseReader\<close>: the guide is decompressed when its URL or its encoding says so; None: a
  bad header.\<close>

definition epg_response_reader :: "(string \<Rightarrow> string option) \<Rightarrow> string \<Rightarrow> string \<Rightarrow> string \<Rightarrow> string option" where
  "epg_response_reader gunzip body url encoding =
     (if has_suffix (to_lower url) ''.gz'' \<or> contains_str (to_lower encoding) ''gzip'' then gunzip body else Some body)"

text \<open>The number of entries that a run counts: those with a URL.\<close>

lemma run_counts:
  "pr_count (fold (add_stream lib) es p) = pr_count p + int (length (filter (\<lambda>s. urls_of s \<noteq> []) es))"
proof (induction es arbitrary: p)
  case (Cons e es)
  have "pr_count (add_stream lib e p) = pr_count p + (if urls_of e \<noteq> [] then 1 else 0)"
    by (simp add: add_stream_def split: prod.splits)
  then show ?case using Cons.IH [of "add_stream lib e p"] by simp
qed simp

lemma critical_stays: "pr_critical p \<Longrightarrow> pr_critical (fold (add_stream lib) es p)"
proof (induction es arbitrary: p)
  case (Cons e es)
  have "pr_critical (add_stream lib e p)" using Cons.prems by (simp add: add_stream_def split: prod.splits)
  then show ?case using Cons.IH by simp
qed simp

end
