(* ===== verification/DemoFlow.thy ===== *)
theory DemoFlow
  imports DemoStreams Wakeups Links Logger HttpClient Instances Runs
begin

text \<open>
  The concrete data of the witnesses for wake-ups, links, the publication of slugs and the log,
  and small cases in which the steps of several goroutines go wrong.
\<close>

section \<open>Readers\<close>

definition demo_joined :: coordinator where
  "demo_joined = register_client (new_stream_coordinator demo_stream_config)"

definition demo_parked :: wake_state where
  "demo_parked = \<lparr>wk_coord = demo_joined, wk_channel = 0, wk_tasks = [], wk_reader = Parked 0 0\<rparr>"

definition demo_data :: chunk where "demo_data = new_chunk\<lparr>ck_data := ''x''\<rparr>"

lemmas demo_wake_defs = demo_parked_def demo_joined_def demo_data_def register_client_def
  new_stream_coordinator_def demo_stream_config_def new_chunk_def add_task_def swap_chunk_def
  write_chunk_def notify_subscribers_def ring_next_def ring_size_def

lemma demo_parked_facts:
  "\<not> has_something (wk_coord demo_parked) 0" "settled demo_parked"
  "wk_reader demo_parked = Parked 0 (wk_channel demo_parked)"
  by (simp_all add: demo_wake_defs has_something_def settled_def reader_present_def Let_def)

lemma demo_parked_run:
  "\<exists>w. wake_run [Swap demo_data, Advance 0] demo_parked = Some w \<and> has_something (wk_coord w) 0 \<and>
     list_all (\<lambda>t. \<not> is_due t) (wk_tasks w)"
  by (simp add: demo_wake_defs has_something_def is_due_def Let_def)

definition demo_subscribing :: wake_state where
  "demo_subscribing = demo_parked\<lparr>wk_reader := Subscribing 0\<rparr>"

lemma demo_subscribing_facts:
  "wk_reader demo_subscribing = Subscribing 0" "wk_tasks demo_subscribing = []"
  "0 < co_clients (wk_coord demo_subscribing)" "co_state (wk_coord demo_subscribing) = Active"
  "co_slots (wk_coord demo_subscribing) \<noteq> []"
  by (simp_all add: demo_subscribing_def demo_wake_defs Let_def)

text \<open>The end of a writer that is refused while the stream drains comes after a new client has made
  the stream active again: it closes the stream without waking the client.\<close>

definition late_close :: "wake_action list" where
  "late_close = [Depart, Advance 0, Advance 0, Advance 0, Fail (Some CtxError) 0 9, Join, Look, Again, Look,
     Subscribe, Advance 1]"

definition parked_for_ever :: "wake_state \<Rightarrow> bool" where
  "parked_for_ever w =
     (case wk_reader w of
        Parked p g \<Rightarrow> g = wk_channel w \<and> forgotten w \<and> has_something (wk_coord w) p
      | _ \<Rightarrow> False)"

lemma late_close_parks_joiner: "map_option parked_for_ever (wake_run late_close (new_wake_state demo_joined)) = Some True"
  by code_simp

definition demo_idle_tick :: reader_tick where
  "demo_idle_tick = \<lparr>rt_other = writer_stopped, rt_done = False, rt_gone = (\<lambda>_. False), rt_header = (\<lambda>_. None)\<rparr>"

lemma demo_idle_ok: "list_all (\<lambda>t. \<not> rt_done t \<and> keeps_drained n (rt_other t)) [demo_idle_tick, demo_idle_tick]"
  by (simp add: demo_idle_tick_def keeps_drained_ops)

lemma demo_joined_facts:
  "co_clients demo_joined = 1" "co_state demo_joined = Active" "co_last_error demo_joined = NilStored"
  "co_pos demo_joined < ring_size demo_joined"
  by (simp_all add: demo_wake_defs Let_def)

section \<open>Slugs\<close>

definition demo_new_slugs :: slug_dir where
  "demo_new_slugs = Some [(''x'', Some demo_stream), (''y'', Some demo_stream2)]"

lemma demo_new_slugs_facts: "slug_dir_ok demo_new_slugs" "read_slug demo_new_slugs ''y'' = Some (Some demo_stream2)"
  by (simp_all add: slug_dir_ok_def demo_new_slugs_def read_slug_def)

section \<open>The log\<close>

definition demo_safe_env :: environ where "demo_safe_env = [(''SAFE_LOGS'', ''true'')]"

definition demo_record :: record_world where
  "demo_record = \<lparr>rw_time = ''t'', rw_now = ''n'', rw_frames = [], rw_stack = [], rw_can_create = True\<rparr>"

lemma demo_redacted: "clean_string ''see http://u:p@h/a.ts, then stop'' = ''see [redacted url], then stop''"
  by code_simp

end
