(* ===== verification/Startup.thy ===== *)
theory Startup
  imports Handlers StreamHttp Instances Runs Discovery
begin

text \<open>
  Starting the program: main.go (\<open>main\<close> up to the server's end, \<open>failStartup\<close>), the objects of the
  handlers and their constructors (package handlers), \<open>Updater.GetDiscoveryManager\<close>, and the
  options that a job gives to the crawling engine (discovery/manager.go). Goroutines that
  \<open>main\<close> starts (the first update, the scans, the clean-up of the registry) are modelled in
  their own theories.
\<close>

section \<open>The objects of the handlers\<close>

record m3u_handler =
  mh_path :: string

definition new_m3u_http_handler :: "string \<Rightarrow> m3u_handler" where
  "new_m3u_http_handler p = \<lparr>mh_path = p\<rparr>"

definition set_processed_path :: "string \<Rightarrow> m3u_handler \<Rightarrow> m3u_handler" where
  "set_processed_path p h = h\<lparr>mh_path := p\<rparr>"

text \<open>The stream handler reads \<open>SHARED_BUFFER\<close> once, when it is made.\<close>

record stream_handler =
  sh_manager :: proxy_instance
  sh_shared :: bool

definition new_stream_http_handler :: "environ \<Rightarrow> proxy_instance \<Rightarrow> stream_handler" where
  "new_stream_http_handler env p = \<lparr>sh_manager = p, sh_shared = parse_bool_env env ''SHARED_BUFFER'' True\<rparr>"

record discovery_handler =
  dh_manager :: "manager option"

definition new_discovery_http_handler :: "manager option \<Rightarrow> discovery_handler" where
  "new_discovery_http_handler m = \<lparr>dh_manager = m\<rparr>"

section \<open>main\<close>

text \<open>How the process ends: the exit code and what it has written to the standard error.\<close>

record process_end =
  pe_code :: int
  pe_text :: string

definition fail_startup :: "string \<Rightarrow> process_end" where
  "fail_startup msg = \<lparr>pe_code = 1, pe_text = ''STARTUP ERROR: '' @ msg @ newline\<rparr>"

text \<open>The server when it begins to listen. \<open>ms_zone\<close> is the time zone set by \<open>TZ\<close>, if it is
  known; \<open>ms_sync\<close> tells whether the first update has been started.\<close>

record 'z main_state =
  ms_config :: app_config
  ms_playlists :: m3u_handler
  ms_streams :: stream_handler
  ms_discovery :: discovery_handler
  ms_utils :: utils_state
  ms_update :: update_state
  ms_sync :: bool
  ms_zone :: "'z option"
  ms_address :: string

definition set_zone :: "(string \<Rightarrow> 'z option) \<Rightarrow> environ \<Rightarrow> 'z option \<Rightarrow> 'z option" where
  "set_zone load env zone =
     (let tz = os_getenv env ''TZ'' in
      if tz = [] then zone else (case load tz of None \<Rightarrow> zone | Some z \<Rightarrow> Some z))"

text \<open>\<open>main\<close> before \<open>ListenAndServe\<close>. The path of the handler that \<open>Initialize\<close> sets is \<open>up_path\<close>;
  \<open>st\<close> holds what is on disk.\<close>

definition start_main ::
  "discovery_lib \<Rightarrow> (job \<Rightarrow> string list option) \<Rightarrow> (string \<Rightarrow> bool) \<Rightarrow> (string \<Rightarrow> 'z option) \<Rightarrow> app_config \<Rightarrow>
     utils_state \<Rightarrow> update_state \<Rightarrow> process_end + 'z main_state" where
  "start_main lib discover cron_ok load cfg us st =
     (let env = us_environ us;
          playlists = new_m3u_http_handler [];
          streams = new_stream_http_handler env (new_default_proxy_instance env)
      in (case initialize_updater lib discover cron_ok us (st\<lparr>up_path := mh_path playlists\<rparr>) of
            None \<Rightarrow> Inl (fail_startup ''Error initializing updater'')
          | Some (sync, m, us1, st1) \<Rightarrow>
              Inr \<lparr>ms_config = init_from_env env cfg, ms_playlists = set_processed_path (up_path st1) playlists,
                   ms_streams = streams, ms_discovery = new_discovery_http_handler (Some m), ms_utils = us1,
                   ms_update = st1, ms_sync = sync, ms_zone = set_zone load env None,
                   ms_address = '':'' @ os_getenv env ''PORT''\<rparr>))"

text \<open>\<open>ListenAndServe\<close> returns only with an error.\<close>

definition end_main :: "string \<Rightarrow> process_end" where
  "end_main err = fail_startup (''HTTP server error: '' @ err)"

text \<open>After a start without an error the playlist handler serves the latest playlist of before (none
  after \<open>CLEAR_ON_BOOT\<close>), and every stream and connection is free.\<close>

lemma initialize_updater_path:
  assumes "initialize_updater lib discover cron_ok us st = Some (sync, m, us1, st1)"
  shows "up_path st1 =
    (if setting (us_environ us) ''CLEAR_ON_BOOT'' ''false'' = ''true'' then up_path st
     else (case get_latest_processed_m3u (pb_processed (up_published st)) of None \<Rightarrow> up_path st | Some n \<Rightarrow> n))"
    and "cron_ok (setting (us_environ us) ''SYNC_CRON'' ''0 0 * * *'')"
  using assms
  by (auto simp: initialize_updater_def Let_def split: sum.splits prod.splits if_splits option.splits)

lemma start_serves_latest:
  assumes "start_main lib discover cron_ok load cfg us st = Inr s"
  shows "mh_path (ms_playlists s) =
    (if setting (us_environ us) ''CLEAR_ON_BOOT'' ''false'' = ''true'' then []
     else (case get_latest_processed_m3u (pb_processed (up_published st)) of None \<Rightarrow> [] | Some n \<Rightarrow> n))"
    and "get_stream_registry (sh_manager (ms_streams s)) = []"
    and "get_concurrency_manager (sh_manager (ms_streams s)) = new_concurrency_manager"
proof -
  obtain sync m us1 st1 where
    init: "initialize_updater lib discover cron_ok us (st\<lparr>up_path := []\<rparr>) = Some (sync, m, us1, st1)"
    and s: "mh_path (ms_playlists s) = up_path st1"
      "ms_streams s = new_stream_http_handler (us_environ us) (new_default_proxy_instance (us_environ us))"
    using assms
    by (auto simp: start_main_def new_m3u_http_handler_def set_processed_path_def Let_def split: option.splits prod.splits)
  show "mh_path (ms_playlists s) =
    (if setting (us_environ us) ''CLEAR_ON_BOOT'' ''false'' = ''true'' then []
     else (case get_latest_processed_m3u (pb_processed (up_published st)) of None \<Rightarrow> [] | Some n \<Rightarrow> n))"
    using initialize_updater_path(1) [OF init] s(1) by (simp split: option.splits)
  show "get_stream_registry (sh_manager (ms_streams s)) = []"
    and "get_concurrency_manager (sh_manager (ms_streams s)) = new_concurrency_manager"
    by (simp_all add: s(2) new_stream_http_handler_def new_default_proxy_instance_def get_stream_registry_def
        get_concurrency_manager_def)
qed

text \<open>A bad schedule or a bad discovery job ends the process at the start.\<close>

lemma start_needs_schedule:
  "\<not> cron_ok (setting (us_environ us) ''SYNC_CRON'' ''0 0 * * *'') \<Longrightarrow>
     \<exists>e. start_main lib discover cron_ok load cfg us st = Inl e \<and> pe_code e = 1"
  using initialize_updater_path(2)
  by (fastforce simp: start_main_def fail_startup_def Let_def split: option.splits prod.splits)

text \<open>The handler and the instance of a stream read the same variable in different ways: with a
  blank around the value the handler shares the buffer and the instance does not.\<close>

lemma shared_buffer_disagrees:
  assumes "lookup_env env ''SHARED_BUFFER'' = Some '' false ''"
  shows "sh_shared (new_stream_http_handler env p)" and "\<not> shared_buffer_enabled env"
proof -
  have "parse_bool '' false '' = None" "parse_bool (trim_space '' false '') = Some False" by code_simp+
  then show "sh_shared (new_stream_http_handler env p)" and "\<not> shared_buffer_enabled env"
    using assms by (simp_all add: new_stream_http_handler_def parse_bool_env_def shared_buffer_enabled_def)
qed

section \<open>The options of the crawling engine\<close>

record crawl_options =
  kc_depth :: int
  kc_timeout :: int
  kc_body :: int
  kc_concurrency :: int
  kc_parallelism :: int
  kc_rate :: int
  kc_retries :: int
  kc_known_files :: string
  kc_strategy :: string
  kc_scope :: string
  kc_headers :: "string list"

definition discovery_request_user_agent :: string where
  "discovery_request_user_agent =
     ''Mozilla/5.0 (Windows NT 10.0; Win64; x64) AppleWebKit/537.36 (KHTML, like Gecko) Chrome/133.0.0.0 Safari/537.36''"

definition crawl_options_of :: "job \<Rightarrow> crawl_options" where
  "crawl_options_of j =
     \<lparr>kc_depth = (if jb_recursive j then jb_max_depth j else 0), kc_timeout = 20,
      kc_body = int max_validation_bytes, kc_concurrency = 10, kc_parallelism = 1, kc_rate = 100,
      kc_retries = 2, kc_known_files = ''all'', kc_strategy = ''breadth-first'',
      kc_scope = (if jb_include_subdomains j then ''rdn'' else ''fqdn''),
      kc_headers =
        [''User-Agent: '' @ discovery_request_user_agent,
         ''Accept: text/html,application/xhtml+xml,application/xml;q=0.9,*/*;q=0.8'',
         ''Accept-Language: en-US,en;q=0.9'', ''Cache-Control: no-cache'', ''Pragma: no-cache'']\<rparr>"

text \<open>A job that \<open>normalizeJob\<close> has checked crawls to a depth that is not negative.\<close>

lemma crawl_depth_bounded:
  "0 \<le> jb_max_depth j \<Longrightarrow> 0 \<le> kc_depth (crawl_options_of j) \<and> kc_depth (crawl_options_of j) \<le> jb_max_depth j"
  by (simp add: crawl_options_of_def)

end
