(* ===== verification/Spec2Isabelle.thy ===== *)
theory Spec2Isabelle
  imports DemoFlow Startup
begin

text \<open>
  Verification library of windows-m3u-stream-merger-proxy, a server that merges M3U playlists
  of several sources into one and proxies the streams of the merged channels.

  \<^bold>\<open>The program.\<close> An update (updater) downloads the playlists of the configured and discovered
  sources (sourceproc/downloader, discovery), parses their entries (parser), filters and renames
  them (filter), merges the entries of a channel (sorting), adds guide identifiers and icons
  (epg_groups, epgindex, channel_icons), and writes the merged playlist, with a slug for each
  channel (slug, processor). The playlist handler serves the result; its links lead to the stream
  handler, which finds a working upstream (loadbalancer), and serves it to all clients of the
  channel from one ring buffer (proxy/stream/buffer, proxy/stream), or directly, or as a rewritten
  playlist (failovers). store/concurrency limits the connections to a source.

  \<^bold>\<open>The theories and the code.\<close>
  \<^item> Prelude, Ordering: Go strings, numbers and sorting on lists. Scanner: bufio.Scanner and the
    numbers of fmt.Sscanf. Base64: encoding/base64. Paths: path/filepath on Unix, config/config.go,
    utils/m3u_path.go, utils/tvlogos.go.
  \<^item> Env: utils/env.go, utils/playlist_header.go, the settings of proxy/loadbalancer/config.go and
    proxy/stream/config/config.go. The state \<open>utils_state\<close> is the environment, the dynamic catalogue
    and the cache of filters.
  \<^item> Concurrency: store/concurrency.go; \<open>cm_state\<close> holds the counters and the invalid URLs.
  \<^item> Streams, Sorter, Slugs, ChannelFilter, PlaylistParser, ChannelIcons, EpgGroups, Processor: the
    files of sourceproc (stream_info, sorting, slug, filter, parser with helpers and
    discovery_source, channel_icons, epg_groups with epgindex, downloader with processor).
    Updater: the whole run of processor.go, and updater/updater.go.
  \<^item> GoUrl, HttpMedia: utils/stream_url.go, file_url.go, http.go, http_decode.go, m3u.go, url.go.
  \<^item> LoadBalancer: the search of proxy/loadbalancer; BalancerState: its instance, options, tested
    candidates, measurement and responses. Coordinator: coordinator.go, coordinator_media.go,
    registry.go and backoff.go; Wakeups: their channels, with the operations of Coordinator cut
    into critical sections, and the clean-up loop. Hls: coordinator_m3u8.go. StreamClient:
    proxy/client/client.go. StreamHandlers: media_stream.go and stream_instance.go. Failovers:
    proxy/stream/failovers. Instances: the objects made for a request.
  \<^item> StreamHttp, Handlers: the package handlers and the routes of main.go. Discovery:
    discovery/manager.go and its handler. Startup: main.go, the objects of the handlers, the options
    of a crawl.
  \<^item> Publication: the publication of slugs file by file, and sourceproc/flock.go. Runs: the channels of
    a run, its progress and the small operations around it. Links: the links of the compiled
    playlist, followed back through the stream handler. Logger: the package logger. HttpClient: the
    client of utils/http.go and utils/fingerprint.go.
  \<^item> PlaylistFacts, CoordinatorFacts, HlsFacts, Delivery, DiscoveryFacts hold lemmas on the
    definitions of the code. StreamStates is the state machine of one shared stream, Requests the
    loop of attempts of a request. Demo, DemoStreams and DemoFlow hold the concrete data on which the
    witnesses evaluate.

  \<^bold>\<open>How the code is modelled.\<close> Structs are records, a function that changes state takes and returns
  it. Errors are values of a sum or option type; a panic is a value of its own. What comes from
  outside is a parameter or part of a world record: the network, the clock, the file system
  outside the directories of the program, the order of concurrent events, and the libraries
  outside the repository (net/url, regexp, JSON, XML, zstd, SHA-1, SHA-3, xxhash, the crawling
  engine, robots.txt). Integers are unbounded where the code cannot reach a bound, and wrap (\<open>wrap64\<close>
  and the 32-bit counters) where it can. Strings are lists of bytes.

  \<^bold>\<open>Fuel and events.\<close> \<open>balance\<close> counts laps: as much fuel as the configured bound is enough
  (\<open>balance_returns\<close>). \<open>walk\<close> takes the size of the ring, after which the code stops too. The loops
  that wait for the world (\<open>read_and_write_stream\<close>, \<open>hls_loop\<close>, \<open>reader_loop\<close>, \<open>direct_loop\<close>,
  \<open>attempt_loop\<close>) consume a list of events; None, or Continue for \<open>hls_loop\<close>, stands for a loop that
  still runs when the events are used up. All other recursion terminates.

  \<^bold>\<open>Interfaces.\<close> The slots of a source (Concurrency), the ring and its readers (CoordinatorFacts), the
  weak orders of the sorted lists (Ordering), the byte codecs (Base64) and the attempts of a
  request (Requests) are locales, interpreted on the definitions of the code; the lemmas of
  their clients are proved once inside them. The three channels of a coordinator (the broadcast, the
  setup of a writer, the response header) keep one contract, the locale \<open>wake_channel\<close> (Wakeups).

  \<^bold>\<open>What is shown.\<close> The choice of an upstream: what is served is a stored URL of the channel with an
  acceptable answer and a free slot; a call returns; a lap refines one pass over a sorted list;
  probes are independent of their order. The shared buffer: readers get exactly what was written
  or lose whole rounds; streams stay well formed in every interleaving; one writer at a time; a
  reader that waits at the channel is woken, and the two interleavings in which a client is left
  alone (it subscribes too late, or joins while the last client leaves) are shown. Delivery: from
  the writer's chunks to the bytes of a client. Live playlists: no
  segment is skipped or repeated, a stalled server ends the writer, playlists are read as they are
  printed, rewritten links lead back. The merged playlist: the sharded sorter refines one map, the
  result is sorted, published as a whole or not at all, and served as it was compiled; its links
  lead back to their channels; no slug is missing while the slugs are replaced; slugs and entries
  survive their encodings. Filters, merge rules, guide data, icons, discovery and
  credentials do what their rules say; the log holds no URL when it must not.

  \<^bold>\<open>Not modelled.\<close> The Windows application (another language), the pools of encoders and buffers, the
  cron library, the crawling engine and the network stack behind the HTTP client, and the worker
  pool of a run (downloads come one after the other in an order of the world, entries in any
  order). A run of Wakeups has one reader that is followed and any number of others; the memory
  model of Go below critical sections and atomic operations is not modelled. The components are
  modelled without the messages that they log, and Logger for any messages.
  Coordinators in Delivery and the writers are meant for rings with slots: with a
  buffer size of zero the code panics while it holds a lock (\<open>zero_buffer_panics\<close>).
\<close>

section \<open>The choice of an upstream\<close>

text \<open>C1: what \<open>Balance\<close> serves is a URL of the requested channel. If a call, with the channel
  read from the slug in the path, returns a response, then the slug is known, the source is one
  of the candidates, the URL is one stored for this source and key, the status is 200 or 206,
  and the source had a free slot when it was looked at; whatever the network answers and in
  whatever order the probes end.\<close>

theorem balance_serves_stored_url:
  assumes "arrival_ok w"
    and "balance fuel us w cfg excluded (parse_stream_info_by_slug us files cur new) p tested = Some (Inr r, t)"
  shows "\<exists>s lap rnd e. parse_stream_info_by_slug us files cur new (get_stream_id p) = Inr s \<and>
    lr_index r \<in> set (source_candidates excluded (get_m3u_indexes us) s) \<and>
    lookup_url (urls_of s) (lr_index r) (lr_sub r) = Some e \<and> lr_url r = entry_url_part e \<and>
    is_acceptable_stream_status (hr_status (lr_response r)) \<and>
    \<not> fst (check_concurrency us (lr_index r) (lw_cm w lap rnd))"
  using balance_serves_stored [OF assms] unfolding result_ok_def by blast

lemma balance_serves_stored_url_witness:
  "\<exists>s lap rnd e. parse_stream_info_by_slug demo_us [] demo_slugs None (get_stream_id ''/p/x.ts'') = Inr s \<and>
    ''1'' \<in> set (source_candidates [] (get_m3u_indexes demo_us) s) \<and>
    lookup_url (urls_of s) ''1'' ''fallback'' = Some e \<and> ''http://a/live'' = entry_url_part e \<and>
    is_acceptable_stream_status (hr_status demo_response) \<and>
    \<not> fst (check_concurrency demo_us ''1'' (lw_cm demo_world lap rnd))"
  using balance_serves_stored_url [OF demo_arrival demo_balance] by (simp add: demo_result_def)

text \<open>C2: \<open>Balance\<close> returns: with a bound on the laps other than zero (which means no bound), a
  number of steps equal to the bound is enough, and in each lap the loop over the sources ends
  after each source has been tried once.\<close>

theorem balance_returns:
  assumes "lb_max_retries cfg \<noteq> 0" and "lb_max_retries cfg \<le> int fuel"
  shows "\<exists>r. balance fuel us w cfg excluded by_slug p tested = Some r"
  using balance_total [OF assms] by blast

lemma balance_returns_witness: "\<exists>r. balance 5 demo_us demo_world demo_config [] (\<lambda>_. Inr demo_stream) ''/p/x.ts'' [] = Some r"
  by (rule balance_returns) (simp_all add: demo_max_retries)



text \<open>C4: the probes of one source run at the same time; the order in which their results
  come in does not change what the source yields.\<close>

theorem probe_order_irrelevant:
  assumes "arrival_ok w" and "arrival_ok (w\<lparr>lw_arrival := a\<rparr>)" and "distinct (map fst urls)"
  shows "try_stream_urls us (w\<lparr>lw_arrival := a\<rparr>) lap rnd idx urls tested = try_stream_urls us w lap rnd idx urls tested"
  using assms by (rule arrival_irrelevant)

lemma probe_order_irrelevant_witness:
  "try_stream_urls demo_us (demo_world\<lparr>lw_arrival := \<lambda>_ xs. xs\<rparr>) 0 0 ''1'' [(''a'', ''1:::http://a''), (''b'', ''http://b'')] [] =
   try_stream_urls demo_us demo_world 0 0 ''1'' [(''a'', ''1:::http://a''), (''b'', ''http://b'')] []"
  by (rule probe_order_irrelevant [OF demo_arrival]) (simp_all add: arrival_ok_def)

section \<open>The shared buffer\<close>

text \<open>C5: a client that keeps up loses nothing. From its position it reads exactly the chunks
  written since, in order, as long as they are fewer than the slots of the ring; the writes
  before (any number of them) do not matter.\<close>

theorem reader_gets_what_was_written:
  assumes "0 < cfg_shared_buffer_size cfg" and "list_all (\<lambda>e. fst e \<noteq> []) (h @ es)"
    and "int (length es) < cfg_shared_buffer_size cfg"
  shows "let c = write_all h (new_stream_coordinator cfg)
    in received (read_chunks (write_all es c) (Some (co_pos c))) = es"
  using reader_after_writes [OF assms(1), of h es 0] assms(2,3) by (simp add: Let_def)

lemma reader_gets_what_was_written_witness:
  "let c = write_all [(''a'', 1), (''b'', 2), (''c'', 3)] (new_stream_coordinator demo_stream_config)
   in received (read_chunks (write_all [(''d'', 4), (''e'', 5)] c) (Some (co_pos c))) = [(''d'', 4), (''e'', 5)]"
  by (rule reader_gets_what_was_written) (simp_all add: demo_stream_config_def)



text \<open>C7: a shared stream stays well formed. In every state that its readers, its writers and the
  setup of writers reach, in any interleaving, the ring has its configured size and every
  position is a slot of it, the client count is the number of readers, the flag of the writer
  tells whether its goroutine runs and at most one runs; neither a write nor a look of a reader
  panics.\<close>

theorem stream_stays_well_formed:
  assumes "0 < cfg_shared_buffer_size cfg" and "stream_reach cfg s"
  shows "ring_size (ls_coord s) = nat (cfg_shared_buffer_size cfg) \<and> co_pos (ls_coord s) < ring_size (ls_coord s) \<and>
    (\<forall>p \<in> set (ls_readers s). pos_of p < ring_size (ls_coord s) \<and> look (ls_coord s) p \<noteq> ReadPanic) \<and>
    co_clients (ls_coord s) = int (length (ls_readers s)) \<and>
    ls_writers s = (if co_writer_active (ls_coord s) then 1 else 0) \<and>
    (\<forall>ch. fst (write_chunk ch (ls_coord s)) \<noteq> WritePanic)"
  using stream_reach_ok [OF assms] live_no_panic [OF stream_reach_ok [OF assms]]
  by (simp add: live_ok_def ring_fits_def)

lemma stream_stays_well_formed_witness:
  "\<exists>s. stream_reach demo_stream_config s \<and> ls_readers s = [At 2] \<and> co_clients (ls_coord s) = int (length (ls_readers s)) \<and>
     ls_writers s = (if co_writer_active (ls_coord s) then 1 else 0)"
proof -
  let ?c = "snd (join_stream (ls_coord (new_live_stream demo_stream_config)))"
  let ?s = "(new_live_stream demo_stream_config)\<lparr>ls_coord := ?c, ls_readers := [At (ring_prev ?c (co_pos ?c))], ls_writers := 1\<rparr>"
  have c: "join_stream (ls_coord (new_live_stream demo_stream_config)) = (True, ?c)"
    by (simp add: new_live_stream_def new_stream_coordinator_def join_stream_def claim_writer_def Let_def)
  have reach: "stream_reach demo_stream_config ?s"
    using stream_reach.next_step [OF stream_reach.start stream_step.join [OF c]] by (simp add: new_live_stream_def)
  have "ls_readers ?s = [At 2]"
    by (simp add: new_live_stream_def new_stream_coordinator_def join_stream_def claim_writer_def register_client_def
        clear_buffer_def demo_stream_config_def ring_prev_def ring_size_def Let_def)
  with stream_stays_well_formed [OF _ reach] reach show ?thesis
    by (intro exI [of _ ?s]) (simp add: demo_stream_config_def)
qed

text \<open>C8: no error of a writer is ever recorded in \<open>LastError\<close>: in every state of a coordinator
  it holds the nil pointer stored at construction, so the fallback of \<open>ReadChunks\<close> to it never
  yields anything.\<close>

theorem last_error_never_recorded:
  assumes "coord_reach cfg c"
  shows "co_last_error c = NilStored \<and>
    (\<forall>ch. co_last_error (snd (write_chunk ch c)) = NilStored)"
  using reach_no_last_error [OF assms] write_keeps_no_error by blast

lemma last_error_never_recorded_witness:
  "co_last_error (run_op Register (new_stream_coordinator demo_stream_config)) = NilStored \<and>
   (\<forall>ch. co_last_error (snd (write_chunk ch (run_op Register (new_stream_coordinator demo_stream_config)))) = NilStored)"
  by (rule last_error_never_recorded) (rule coord_reach.step, rule coord_reach.init)



text \<open>C10: a client can miss the end of its stream. The reader looks and subscribes in two critical
  sections; when the last write of a writer and its close come between them, the reader parks at a
  channel that nobody closes any more: whatever the others do while it is there (join, leave,
  write, end again), it is never woken, although the error waits for it in the buffer.\<close>

theorem missed_end_parks_reader:
  assumes "wk_reader w = Subscribing p" and "wk_tasks w = []" and "0 < co_clients (wk_coord w)"
    and "co_state (wk_coord w) = Active" and "co_slots (wk_coord w) \<noteq> []"
    and "list_all other_action as"
  shows "\<exists>w1. wake_run (missed_end e status now) w = Some w1 \<and> wk_coord w1 = write_error e status now (wk_coord w) \<and>
    has_something (wk_coord w1) p \<and>
    (\<forall>w2. wake_run as w1 = Some w2 \<longrightarrow> wk_reader w2 = Parked p (wk_channel w1) \<and> wake_act Wake w2 = None)"
proof -
  obtain w1 where w1: "wake_run (missed_end e status now) w = Some w1" "forgotten w1"
      "wk_reader w1 = Parked p (wk_channel w1)" "wk_coord w1 = write_error e status now (wk_coord w)"
    using missed_end_state [OF assms(1-5)] by blast
  have "has_something (wk_coord w1) p"
    using w1(2,4) assms(4,5) by (auto simp: forgotten_def has_something_def)
  moreover have "\<not> channel_closed w1 (wk_channel w1)" by (simp add: channel_closed_def)
  ultimately show ?thesis
    using w1 forgotten_never_wakes [OF w1(2,3) _ _ assms(6)] by blast
qed

lemma missed_end_parks_reader_witness:
  "\<exists>w1 w2. wake_run (missed_end (Some CtxError) 0 9) demo_subscribing = Some w1 \<and> has_something (wk_coord w1) 0 \<and>
     wake_run [Arrive] w1 = Some w2 \<and> wk_reader w2 = Parked 0 (wk_channel w1) \<and> wake_act Wake w2 = None"
  using missed_end_parks_reader [OF demo_subscribing_facts, of "[Arrive]" "Some CtxError" 0 9] by auto

text \<open>C11: a client that joins while the last other client leaves gets nothing. The leaving client counts
  itself out and then drains the stream; a client that joins in between and reads its stream is
  left with an empty stream that refuses every write: its loop never ends by itself, whatever
  keeps the stream drained happens (refused writes, the end of the writer, further clients).\<close>

theorem joiner_of_drained_stream_starves:
  assumes "co_clients c = 1" and "co_state c = Active" and "co_last_error c = NilStored"
    and "co_pos c < ring_size c"
    and "list_all (\<lambda>t. \<not> rt_done t \<and> keeps_drained (ring_size c) (rt_other t)) ts"
  shows "\<exists>w p. wake_run drain_after_join (new_wake_state c) = Some w \<and> wk_reader w = Looking (At p) \<and>
    co_clients (wk_coord w) = 1 \<and> (\<forall>ch. fst (write_chunk ch (wk_coord w)) = Refused) \<and>
    reader_loop r ts (At p) k cl (wk_coord w) = None"
proof -
  have ring: "co_slots c \<noteq> []" using assms(4) by (auto simp: ring_size_def)
  obtain w where w: "wake_run drain_after_join (new_wake_state c) = Some w" "drained (wk_coord w)"
      "wk_reader w = Looking (At (ring_prev c (co_pos c)))" "co_clients (wk_coord w) = 1"
      "co_pos (wk_coord w) = co_pos c" "ring_size (wk_coord w) = ring_size c"
    using drain_after_join_state [OF assms(1-3) ring] by blast
  have "ring_prev c (co_pos c) < ring_size c" using assms(4) by (auto simp: ring_prev_def)
  then have "reader_loop r ts (At (ring_prev c (co_pos c))) k cl (wk_coord w) = None"
    using w assms(4) by (intro drained_reader [OF _ _ assms(5)]) (simp_all add: stays_drained_def)
  then show ?thesis using w drained_write(1) [OF w(2)] by auto
qed

lemma joiner_of_drained_stream_starves_witness:
  "\<exists>w p. wake_run drain_after_join (new_wake_state demo_joined) = Some w \<and> wk_reader w = Looking (At p) \<and>
    reader_loop demo_result [demo_idle_tick, demo_idle_tick] (At p) 0 demo_client (wk_coord w) = None"
  using joiner_of_drained_stream_starves [OF demo_joined_facts demo_idle_ok,
      of demo_result 0 demo_client] by blast

text \<open>C12: at most one caller sets up a writer: from a granted setup until its end, no other
  caller is granted one, whatever else happens to the coordinator.\<close>

theorem one_writer_setup:
  assumes "fst (try_start_writer_setup c)" and "list_all (\<lambda>op. op \<noteq> FinishSetup) ops"
  shows "\<not> fst (try_start_writer_setup (fold run_op ops (snd (try_start_writer_setup c))))"
proof -
  have "co_setup_busy (snd (try_start_writer_setup c))"
    using assms(1) by (auto simp: try_start_writer_setup_def split: if_splits)
  then show ?thesis using setup_until_finish assms(2) by blast
qed

lemma one_writer_setup_witness:
  "\<not> fst (try_start_writer_setup (fold run_op [Register, Unregister, StartSetup]
      (snd (try_start_writer_setup (new_stream_coordinator demo_stream_config)))))"
  by (rule one_writer_setup) (simp_all add: try_start_writer_setup_def new_stream_coordinator_def)

text \<open>C13: the read loop of a writer never hands on an error of the network when errors are
  retried: it ends with the end of the body, a time-out or the end of the context.\<close>

theorem read_loop_hides_errors:
  assumes "should_retry cfg (get_timeout_duration cfg)"
    and "read_and_write_stream cfg (\<lambda>c. co_state c = Active) between media_process evs empty_reads ok_at c = Some (Some e, c')"
  shows "e \<in> {EOF, StreamTimeout, CtxError}"
  using read_loop_ends [of media_process, OF _ assms(1)] assms(2)
  by (auto simp: media_process_def loop_end_ok_def split: option.splits dest!: arg_cong [where f = loop_end_ok])

lemma read_loop_hides_errors_witness:
  "EOF \<in> {EOF, StreamTimeout, CtxError}"
  by (rule read_loop_hides_errors [of demo_stream_config "\<lambda>_ c. c"
      "[(4, 5, ReadResult ''x'' (Some (ErrorText ''reset''))), (5, 6, ReadResult ''y'' (Some EOF))]" 0 0
      "new_stream_coordinator demo_stream_config"])
     (simp_all add: should_retry_def get_timeout_duration_def demo_stream_config_def wrap64_def
       media_process_def should_timeout_def new_stream_coordinator_def)

section \<open>From the writer to the client\<close>





text \<open>C16: a client that joins while the writer of the last client stops is cut off. The flag of the
  writer is still set, so the client starts none; it is served the end of the old writer, with
  the status of a client that has closed its connection, for which the handler of the request
  neither retries nor blames the source.\<close>

theorem joiner_served_old_end:
  assumes "1 < ring_size co" and "co_pos co < ring_size co" and "co_writer_active co" and "co_clients co = 1"
    and "co_state co = Active" and "co_last_error co = NilStored"
  shows "\<not> fst (join_stream (leave_stream co)) \<and>
    (\<exists>co'. handle_stream r [calm_tick hdr (\<lambda>c. c), calm_tick hdr (write_error (Some CtxError) status_client_closed now)] c
      (leave_stream co) = Some (mk_result 0 (Some CtxError) status_client_closed, c, co')) \<and>
    handle_exit_code status_client_closed = (True, False)"
  using join_while_stopping [OF assms] by (simp add: handle_exit_code_def status_client_closed_def status_incompatible_def
      status_eof_def status_server_error_def status_m3u8_parsed_def status_m3u8_parse_error_def status_completed_def)

lemma joiner_served_old_end_witness:
  "\<not> fst (join_stream (leave_stream (snd (join_stream (new_stream_coordinator demo_stream_config)))))"
proof -
  let ?co = "snd (join_stream (new_stream_coordinator demo_stream_config))"
  have co: "?co = (new_stream_coordinator demo_stream_config)\<lparr>co_writer_active := True, co_clients := 1\<rparr>"
    by (rule join_new) (simp add: demo_stream_config_def)
  have "1 < ring_size ?co" "co_pos ?co < ring_size ?co" "co_writer_active ?co" "co_clients ?co = 1" "co_state ?co = Active"
      "co_last_error ?co = NilStored"
    unfolding co by (simp_all add: new_stream_coordinator_def ring_size_def demo_stream_config_def)
  from joiner_served_old_end [OF this] show ?thesis by blast
qed

text \<open>C17: a client sees one status line, and bytes only after it: the writer of a response is well
  formed whatever is called on it, and once the header is sent no call changes the status or
  takes back a byte.\<close>

theorem one_status_per_client:
  assumes "cl_sent (fold run_client ops (new_stream_client fails))"
  shows "client_ok (fold run_client ops (new_stream_client fails)) \<and>
    cl_status (fold run_client (ops @ ops') (new_stream_client fails)) = cl_status (fold run_client ops (new_stream_client fails)) \<and>
    prefix (cl_body (fold run_client ops (new_stream_client fails)))
      (cl_body (fold run_client (ops @ ops') (new_stream_client fails)))"
proof -
  have "client_ok c \<Longrightarrow> client_ok (fold run_client ops c)" for c
    by (induction ops arbitrary: c) (simp_all add: run_client_ok)
  then show ?thesis using client_status_final [OF assms, of ops'] new_client_ok by simp
qed

lemma one_status_per_client_witness:
  "cl_status (fold run_client ([WriteHeader 404] @ [WriteHeader 200, WriteData ''x'']) (new_stream_client (\<lambda>_. False))) = Some 404"
proof -
  have "cl_sent (fold run_client [WriteHeader 404] (new_stream_client (\<lambda>_. False)))"
      "cl_status (fold run_client [WriteHeader 404] (new_stream_client (\<lambda>_. False))) = Some 404"
    by (simp_all add: run_client_def client_write_header_def new_stream_client_def)
  with one_status_per_client [OF this(1), of "[WriteHeader 200, WriteData ''x'']"] show ?thesis by simp
qed

section \<open>Live playlists\<close>

text \<open>C18: the writer of a live playlist follows the window of the server without a gap and without
  repetition. When the playlists list windows of \<open>w\<close> segments that stand still or move by at most
  \<open>w\<close>, and no segment fails, the segments it asks for are consecutive, from the last two of the
  first window on, up to the end of the last window while it runs.\<close>

theorem live_window_without_gaps:
  assumes "list_all2 (live_tick cfg uo gunzip url seg w) ns ts" and "steady w ns" and "0 < w"
    and "live_response uo gunzip url seg w (hd ns) (ht_rest (hd ts)) (lr_response r, readable)" and "ns \<noteq> []"
    and "hls_loop cfg uo gunzip ts (hls_start r url readable now c) = Some (out, st')"
  shows "\<exists>hi. hl_asked st' = map seg [hd ns + (w - 2)..<hi] \<and> (out = Continue \<longrightarrow> hi = last ns + w)"
  using assms by (rule hls_follows_window)

lemma live_window_without_gaps_witness:
  "\<exists>out st' hi. demo_live_run = Some (out, st') \<and> hl_asked st' = map demo_segment [6..<hi] \<and> (out = Continue \<longrightarrow> hi = 9)"
proof -
  obtain out st' where run: "demo_live_run = Some (out, st')" using demo_live_ends by auto
  have ticks: "list_all2 (live_tick demo_stream_config demo_urls (\<lambda>_. None) ''http://s/live'' demo_segment 3) [5, 6]
      [demo_tick (Answer (demo_playlist 5) True) 10, demo_tick (Answer (demo_playlist 6) True) 20]"
    by (simp add: demo_live_tick)
  have "\<exists>hi. hl_asked st' = map demo_segment [hd [5, 6] + (3 - 2)..<hi] \<and> (out = Continue \<longrightarrow> hi = last [5, 6] + 3)"
    by (rule live_window_without_gaps [OF ticks _ _ _ _ run [unfolded demo_live_run_def]])
       (simp_all add: steady_def demo_live_response)
  then show ?thesis using run by auto
qed

text \<open>C19: the writer of a live playlist does not outlive a server that stalls. As long as nothing new
  arrives (no answer, no playlist, or no progress of the sequence number), the time-out grows at
  most to that of the longest polling interval; an iteration after it has passed means that the
  writer has ended.\<close>

theorem stalled_writer_ends:
  assumes "list_all (idle_tick uo gunzip (hl_url st) (hl_seq st) target) ts" and "hl_answer st = None"
    and "0 < hl_poll st" and "hl_poll st \<le> poll_bound target p" and "0 \<le> cfg_timeout_seconds cfg"
    and "cfg_timeout_seconds cfg * 1000000000 + poll_bound target p < 2 ^ 63"
    and "t \<in> set ts" and "ht_now t - hl_changed st > cfg_timeout_seconds cfg * 1000000000 + poll_bound target p"
  shows "\<exists>out st'. hls_loop cfg uo gunzip ts st = Some (out, st') \<and> out \<noteq> Continue"
  using assms by (rule hls_loop_stalled)

lemma stalled_writer_ends_witness:
  "\<exists>out st'. hls_loop demo_stream_config demo_urls (\<lambda>_. None) [demo_tick NilAnswer 1, demo_tick NilAnswer 5000000000]
      demo_stalled = Some (out, st') \<and> out \<noteq> Continue"
  by (rule stalled_writer_ends [where target = 1 and p = 1000000000 and t = "demo_tick NilAnswer 5000000000"])
     (simp_all add: idle_tick_def demo_tick_def demo_stalled_def hls_start_def poll_bound_def demo_stream_config_def)

text \<open>C20: the parser reads a media playlist as a server prints it: version, target duration, first
  sequence number, the URLs in order and whether it is finished.\<close>

theorem media_playlist_roundtrip:
  assumes "uo_parse uo url \<noteq> None" and "list_all (plain_uri uo) segs"
    and "int version < 2 ^ 63" and "int target < 2 ^ 63" and "int n < 2 ^ 63"
  shows "parse_playlist uo url (render_media version target n segs endlist) =
    Some \<lparr>pm_target = of_nat target, pm_sequence = int n, pm_version = int version, pm_endlist = endlist,
          pm_segments = segs, pm_variants = [], pm_master = False\<rparr>"
  using assms by (rule parse_render_media)

lemma media_playlist_roundtrip_witness:
  "parse_playlist demo_urls ''http://s/live'' (render_media 3 6 41 [demo_segment 1, demo_segment 2] True) =
    Some \<lparr>pm_target = of_nat 6, pm_sequence = int 41, pm_version = int 3, pm_endlist = True,
          pm_segments = [demo_segment 1, demo_segment 2], pm_variants = [], pm_master = False\<rparr>"
  by (rule media_playlist_roundtrip) (simp_all add: demo_segment_plain, simp add: demo_urls_def)



section \<open>The sorted playlist and its publication\<close>

text \<open>C22: the sorter, with its shards of buffers and files, does what one map would do: the
  entries it yields are those of the map from titles (sanitised) to streams that merges each
  stream into the entry of its title in turn; each title once, whatever the order of flushes
  and the shard sizes, up to the fields that JSON does not hold. The streams have no automatic
  logo (a flush forgets that a logo is automatic).\<close>

theorem sorter_refines_merge_map:
  assumes "list_all plain_logo ss"
  shows "\<exists>es. fst (get_sorted_entries (add_all lib ss (new_sorting_manager env (\<lambda>_. False) (\<lambda>_. False)))) = Some es \<and>
    image_mset json_stream (mset es) =
      image_mset (\<lambda>t. json_stream (the (merge_all ss t))) (mset_set (dom (merge_all ss)))"
  using sorted_entries [OF add_all_ok [OF new_manager_ok assms]] unfolding merge_all_def by blast

lemma sorter_refines_merge_map_witness:
  "\<exists>es. fst (get_sorted_entries (add_all demo_lib [demo_stream, demo_stream2] (new_sorting_manager [] (\<lambda>_. False) (\<lambda>_. False)))) = Some es \<and>
    image_mset json_stream (mset es) =
      image_mset (\<lambda>t. json_stream (the (merge_all [demo_stream, demo_stream2] t)))
        (mset_set (dom (merge_all [demo_stream, demo_stream2])))"
  by (rule sorter_refines_merge_map) (simp add: plain_logo_def demo_stream_def demo_stream2_def empty_stream_def)







section \<open>Connections\<close>

text \<open>C26: whatever the sequence of acquisitions and releases of slots, of any sources, the
  number of connections of a source stays between zero and its limit, as long as every limit
  fits 32 bits.\<close>

theorem slots_bounded:
  assumes "cm_ok us cm"
  shows "0 \<le> get_count (run_slots us ops cm) i \<and> get_count (run_slots us ops cm) i \<le> cm_limit us cm i"
  unfolding run_slots_eq using assms by (rule cm.run_bounds)

lemma slots_bounded_witness:
  "0 \<le> get_count (run_slots demo_us [(''1'', True), (''1'', True), (''1'', True)] new_concurrency_manager) ''1'' \<and>
   get_count (run_slots demo_us [(''1'', True), (''1'', True), (''1'', True)] new_concurrency_manager) ''1'' \<le>
     cm_limit demo_us new_concurrency_manager ''1''"
  by (rule slots_bounded [OF demo_manager_ok])



section \<open>Reading and writing playlists\<close>

text \<open>C28: the attributes of an entry survive writing and reading: the line that
  \<open>formatStreamEntry\<close> writes for a stream is parsed back to the same identifiers, number,
  type, group, title and (rewritten) logo, when the texts hold no double quote and no outer
  white space, the title is not changed by the merge rules, and no title filter is set.\<close>

theorem entry_line_roundtrip:
  assumes "entry_ok ctx s"
  shows "line_attributes ctx (extinf_line (pc_us ctx) s) =
    empty_stream\<lparr>si_urls := Some [], si_tvg_id := si_tvg_id s, si_tvg_chno := si_tvg_chno s,
      si_tvg_type := si_tvg_type s, si_group := stream_group_for_output (pc_us ctx) s,
      si_logo_url := (if si_logo_url s = [] then []
                      else tvg_logo_parser (pc_lib ctx) (us_environ (pc_us ctx)) (si_logo_url s)),
      si_title := output_title s\<rparr>"
  using assms by (rule line_attributes_extinf)

lemma entry_line_roundtrip_witness:
  "si_tvg_id (line_attributes demo_ctx (extinf_line (pc_us demo_ctx) demo_stream)) = ''news.one'' \<and>
   si_title (line_attributes demo_ctx (extinf_line (pc_us demo_ctx) demo_stream)) = ''News One''"
  using entry_line_roundtrip [OF demo_entry_ok] demo_output_title
  by (simp add: demo_stream_def empty_stream_def)



section \<open>Filters and channels\<close>

text \<open>C30: a stream passes the filters exactly when a rule for its title names its source (or no
  rule is for its title), and it matches an include pattern, or there is no include pattern and
  it matches no exclude pattern.\<close>

theorem filter_decision:
  "check_filter fc s \<longleftrightarrow>
     ((\<exists>r \<in> set (fc_channel_rules fc). csr_title_regex r (si_title s) \<and> si_source_m3u s \<in> set (csr_source_indexes r)) \<or>
      (\<forall>r \<in> set (fc_channel_rules fc). \<not> csr_title_regex r (si_title s))) \<and>
     ((\<exists>re \<in> set (fc_include_groups fc). re (si_group s)) \<or> (\<exists>re \<in> set (fc_include_titles fc). re (si_title s)) \<or>
      (fc_include_groups fc = [] \<and> fc_include_titles fc = [] \<and>
       \<not> (\<exists>re \<in> set (fc_exclude_groups fc). re (si_group s)) \<and>
       \<not> (\<exists>re \<in> set (fc_exclude_titles fc). re (si_title s))))"
  by (rule check_filter_iff)

lemma filter_decision_witness:
  "check_filter (demo_filters\<lparr>fc_include_titles := [\<lambda>t. contains_str t ''News'']\<rparr>) demo_stream"
  unfolding filter_decision
  by (simp add: demo_filters_def demo_stream_def contains_str_def has_prefix_def)

text \<open>C31: the channel merge rules, followed through chains and cycles, reach a name that is not
  renamed again: applying them twice is applying them once.\<close>

theorem merge_rules_idempotent:
  "apply_channel_merge_rule fc (apply_channel_merge_rule fc t) = apply_channel_merge_rule fc t"
  by (rule apply_merge_nonempty_fix)



section \<open>Guide data and icons\<close>

text \<open>C33: the guide index answers up to white space around an identifier and letter case: an
  identifier is known exactly when a channel element read before the first error has an equal
  one.\<close>

theorem guide_index_answers:
  "epg_has (snd (parse_channels ts empty_epg_index)) i \<longleftrightarrow>
     trim_space i \<noteq> [] \<and>
     (\<exists>j \<in> set (channel_ids ts). trim_space j \<noteq> [] \<and> equal_fold (trim_space i) (trim_space j))"
proof -
  have "epg_ok empty_epg_index" by (simp add: epg_ok_def empty_epg_index_def)
  from epg_has_iff [OF parse_channels_ok [OF this]] show ?thesis
    by (auto simp: parse_channels_exact empty_epg_index_def)
qed



section \<open>Sources\<close>

text \<open>C35: \<open>SetDynamicSources\<close> establishes the invariant of the dynamic catalogue from any input:
  indexes trimmed, not empty and pairwise different, URLs not empty, limits at least one, and
  the list sorted by index.\<close>

theorem set_dynamic_sources_invariant: "dynamic_ok (us_dynamic (set_dynamic_sources ss st))"
  by (rule set_dynamic_sources_ok)

text \<open>C36: a scan of a web site finds playlists only, each one once and sorted: every URL is the
  final URL of an answer with status 200 whose body is a playlist; in whatever order the
  candidates, which the code keeps in a map, are tried.\<close>

theorem discovered_are_valid:
  assumes "discover_playlists lib ops w order c = Some urls" and "\<And>xs. mset (order xs) = mset xs"
  shows "discover_playlists lib ops w (\<lambda>xs. xs) c = Some urls \<and> sorted urls \<and> distinct urls \<and>
    (\<forall>u \<in> set urls. \<exists>cand body. fetch_document (cw_fetch w) cand max_validation_bytes =
        Some \<lparr>dc_final_url = u, dc_status = 200, dc_body = body\<rparr> \<and> is_m3u_content body)"
  using discovered_are_playlists [OF assms] discover_order_irrelevant [OF assms(2)] assms(1) by metis

lemma discovered_are_valid_witness:
  "\<exists>urls. discover_playlists demo_discovery demo_crawl_ops demo_site rev demo_crawler = Some urls \<and> sorted urls \<and>
    list_all (\<lambda>u. \<exists>cand body. fetch_document (cw_fetch demo_site) cand max_validation_bytes =
        Some \<lparr>dc_final_url = u, dc_status = 200, dc_body = body\<rparr> \<and> is_m3u_content body) urls"
proof -
  obtain urls where "discover_playlists demo_discovery demo_crawl_ops demo_site rev demo_crawler = Some urls"
    by (auto simp: discover_playlists_def demo_site_def)
  from discovered_are_valid [OF this] this show ?thesis by (simp add: list_all_iff)
qed



section \<open>Access\<close>

text \<open>C38: when credentials are configured, a request for the playlist is let through only if an entry
  matches its user and password (up to letter case) and has not expired.\<close>

theorem playlist_access_granted:
  assumes "handle_auth expired env query = Some True"
    and "os_getenv env ''CREDENTIALS'' \<noteq> []" and "to_lower (os_getenv env ''CREDENTIALS'') \<noteq> ''none''"
  shows "\<exists>item \<in> set (split_char (CHR ''|'') (os_getenv env ''CREDENTIALS'')).
    entry_grants expired (query_get query ''username'') (query_get query ''password'') item"
  using assms by (rule auth_sound)

lemma playlist_access_granted_witness:
  "\<exists>item \<in> set [''bob:pw'', ''eve:x:2000-01-01''].
    entry_grants (\<lambda>_. Some True) ''Bob'' ''PW'' item"
proof -
  let ?env = "[(''CREDENTIALS'', ''bob:pw|eve:x:2000-01-01'')]" and ?q = "''username=Bob&password=PW''"
  have facts: "handle_auth (\<lambda>_. Some True) ?env ?q = Some True"
      "os_getenv ?env ''CREDENTIALS'' \<noteq> []" "to_lower (os_getenv ?env ''CREDENTIALS'') \<noteq> ''none''"
    by code_simp+
  have "split_char (CHR ''|'') (os_getenv ?env ''CREDENTIALS'') = [''bob:pw'', ''eve:x:2000-01-01'']"
      "query_get ?q ''username'' = ''Bob''" "query_get ?q ''password'' = ''PW''"
    by code_simp+
  then show ?thesis using playlist_access_granted [OF facts] by simp
qed





section \<open>Further facts\<close>

text \<open>A source that the caller excluded (it failed before) is a candidate only when every
  available source is excluded.\<close>

lemma excluded_source_last_resort:
  assumes "i \<in> set (source_candidates excluded indexes s)" and "i \<in> set excluded"
  shows "set (available_indexes (append_discovery_indexes indexes s) s) \<subseteq> set excluded"
  using assms excluded_last_resort unfolding source_candidates_def by blast

lemma excluded_source_last_resort_witness:
  "set (available_indexes (append_discovery_indexes [''1'', ''2''] demo_stream) demo_stream) \<subseteq> set [''1'']"
  by (rule excluded_source_last_resort [of "''1''"]) code_simp+

text \<open>A negative \<open>MAX_RETRIES\<close> is not "no retry": \<open>Balance\<close> gives up without trying any
  source of a channel that has URLs.\<close>

lemma negative_retries_no_attempt:
  assumes "lb_max_retries cfg < 0" and "fetch_backend_urls (by_slug (get_stream_id p)) = Inr s"
  shows "balance fuel us w cfg excluded by_slug p tested = Some (Inl Exhausted, tested)"
  using assms by (rule balance_negative)

lemma negative_retries_no_attempt_witness:
  "balance 9 demo_us demo_world (new_default_lb_config [(''MAX_RETRIES'', ''-1'')]) [] (\<lambda>_. Inr demo_stream) ''/p/x.ts'' [] =
    Some (Inl Exhausted, [])"
  by (rule negative_retries_no_attempt) code_simp+

text \<open>A writer that gets no slot writes an error and leaves: no count changes, the
  coordinator is closed and free for another writer.\<close>

lemma media_writer_without_slot:
  assumes "cm_ok us cm" and "cm_limit us cm (lr_index r) \<le> get_count cm (lr_index r)"
    and "start_media_writer us cfg between cm_end r evs now (c, cm) = Some (c', cm')"
  shows "get_count cm' = get_count cm \<and> co_state c' = Closed \<and> co_lb_result c' = None"
  using assms by (rule media_writer_refused)

lemma media_writer_without_slot_witness:
  "get_count (snd (update_concurrency demo_us ''2'' True demo_busy)) = get_count demo_busy"
proof -
  let ?r = "demo_result\<lparr>lr_index := ''2''\<rparr>"
  obtain b where b: "update_concurrency demo_us ''2'' True demo_busy = (False, b)"
    using demo_busy_refused by (cases "update_concurrency demo_us ''2'' True demo_busy") simp
  obtain c' where run: "start_media_writer demo_us demo_stream_config (\<lambda>_ c. c) (\<lambda>cm. cm) ?r [] 0
      (new_stream_coordinator demo_stream_config, demo_busy) = Some (c', b)"
    by (simp add: start_media_writer_def b)
  show ?thesis
    using media_writer_without_slot [OF demo_busy_ok _ run] demo_busy_full b by simp
qed

text \<open>A buffer size of zero (\<open>BUFFER_CHUNK_NUM\<close> accepts it) makes a ring without slots: the
  first chunk written to an active coordinator panics.\<close>

lemma zero_buffer_panics:
  assumes "cfg_shared_buffer_size cfg = 0" and "coord_reach cfg c" and "co_state c = Active"
  shows "fst (write_chunk ch c) = WritePanic"
  using assms by (rule zero_size_panics)

lemma zero_buffer_panics_witness:
  "fst (write_chunk new_chunk (new_stream_coordinator (demo_stream_config\<lparr>cfg_shared_buffer_size := 0\<rparr>))) = WritePanic"
  by (rule zero_buffer_panics [OF _ coord_reach.init]) (simp_all add: new_stream_coordinator_def)

text \<open>A failed or cancelled run changes nothing a client sees: the slugs stay, the latest
  playlist stays, and the directory of new slugs is removed.\<close>

lemma failed_run_keeps_old:
  assumes "pr_critical p \<or> cancelled"
  shows "pb_slugs (snd (wait_processor us cancelled p pb)) = pb_slugs pb \<and>
    get_latest_processed_m3u (pb_processed (snd (wait_processor us cancelled p pb))) =
      get_latest_processed_m3u (pb_processed pb) \<and>
    pb_new_slugs (snd (wait_processor us cancelled p pb)) = None"
  using wait_failure [OF assms] latest_unchanged by (simp add: tmp_name_def)

lemma failed_run_keeps_old_witness:
  "pb_slugs (snd (wait_processor demo_us True demo_processor demo_published)) = pb_slugs demo_published \<and>
   get_latest_processed_m3u (pb_processed (snd (wait_processor demo_us True demo_processor demo_published))) =
     get_latest_processed_m3u (pb_processed demo_published) \<and>
   pb_new_slugs (snd (wait_processor demo_us True demo_processor demo_published)) = None"
  by (rule failed_run_keeps_old) simp

text \<open>A slot is granted exactly when the source is below its limit, and giving a granted
  slot back leaves the number of connections of every source as it was.\<close>

lemma slot_acquire_release:
  assumes "cm_ok us cm" and "get_count cm i < cm_limit us cm i"
  shows "fst (update_concurrency us i True cm) \<and>
    get_count (snd (update_concurrency us i False (snd (update_concurrency us i True cm)))) = get_count cm"
  using cm.acquire_granted [OF assms(1)] cm.acquire_release [OF assms(1)] assms(2) by blast

lemma slot_acquire_release_witness:
  "fst (update_concurrency demo_us ''2'' True new_concurrency_manager) \<and>
   get_count (snd (update_concurrency demo_us ''2'' False
     (snd (update_concurrency demo_us ''2'' True new_concurrency_manager)))) = get_count new_concurrency_manager"
  by (rule slot_acquire_release [OF demo_manager_ok demo_manager_free])

text \<open>A limit between 2^31 and 2^32 is read as a negative 32-bit number: no slot of the source
  is ever granted, although \<open>CheckConcurrency\<close> reports no limit reached.\<close>

lemma huge_limit_grants_nothing:
  assumes "2 ^ 31 \<le> get_source_max_concurrency us i" and "get_source_max_concurrency us i < 2 ^ 32"
  shows "\<not> fst (update_concurrency us i True new_concurrency_manager) \<and>
    \<not> fst (check_concurrency us i new_concurrency_manager)"
  using huge_limit_refuses [OF assms] by simp

lemma huge_limit_grants_nothing_witness:
  "\<not> fst (update_concurrency demo_huge ''1'' True new_concurrency_manager) \<and>
   \<not> fst (check_concurrency demo_huge ''1'' new_concurrency_manager)"
  by (rule huge_limit_grants_nothing) (simp_all add: demo_huge_limit)

text \<open>A URL file is read back as it was written: from the content that \<open>indexStreamURL\<close> writes
  (line number and base64 of the URL) \<open>loadStreamURLs\<close> recovers the line number and the URL.\<close>

lemma url_file_reads_back:
  assumes "lib_sha3 lib url \<noteq> []"
  shows "entry_of_file ((shard, url_file_name lib title idx url), itoa line @ '':::'' @ std_encode url) =
    Some (sub_index_of_file (url_file_name lib title idx url), trim_space (itoa line @ '':::'' @ url))"
  using assms by (rule entry_of_url_file)

lemma url_file_reads_back_witness:
  "entry_of_file ((''abc'', url_file_name demo_lib ''News'' ''1'' ''http://a/live''), itoa 3 @ '':::'' @ std_encode ''http://a/live'') =
    Some (sub_index_of_file (url_file_name demo_lib ''News'' ''1'' ''http://a/live''), trim_space (itoa 3 @ '':::'' @ ''http://a/live''))"
  by (rule url_file_reads_back) (simp add: demo_lib_def)

text \<open>Merging two entries of a channel loses no URL: the merged map holds every URL of both,
  and for a key that both have the one of the newer.\<close>

lemma merged_urls:
  assumes "urls_ok base" and "urls_ok new"
  shows "lookup_url (merge_urls base new) i k =
    (case lookup_url new i k of Some e \<Rightarrow> Some e | None \<Rightarrow> lookup_url base i k)"
  using assms by (rule lookup_merge_urls)

lemma merged_urls_witness:
  "lookup_url (merge_urls [(''1'', [(''k'', ''a'')])] [(''1'', [(''k'', ''b'')]), (''2'', [])]) ''1'' ''k'' =
    (case lookup_url [(''1'', [(''k'', ''b'')]), (''2'', [])] ''1'' ''k'' of
       Some e \<Rightarrow> Some e | None \<Rightarrow> lookup_url [(''1'', [(''k'', ''a'')])] ''1'' ''k'')"
  by (rule merged_urls) (simp_all add: urls_ok_def)

text \<open>Among the icons whose name extends a query by whole words, the lookup takes one of
  the least score, and it finds one whenever there is one.\<close>

lemma prefix_icon_best:
  "case best_prefix_icon cs keys of
     None \<Rightarrow> (\<Union>key \<in> set keys. icon_hits cs (split_char (CHR ''-'') key)) = {}
   | Some (c, score) \<Rightarrow>
       (c, score) \<in> (\<Union>key \<in> set keys. icon_hits cs (split_char (CHR ''-'') key)) \<and>
       (\<forall>(d, t) \<in> (\<Union>key \<in> set keys. icon_hits cs (split_char (CHR ''-'') key)). score \<le> t)"
  using best_prefix_icon_least [of cs keys] by (auto simp: best_hit_def split: option.splits)

lemma prefix_icon_best_witness:
  "best_prefix_icon [\<lparr>ic_key = ''news-one-hd'', ic_tokens = [''news'', ''one'', ''hd''], ic_path = ''n.png'', ic_priority = 0\<rparr>]
     [''news-one''] \<noteq> None" (is "best_prefix_icon [?c] _ \<noteq> None")
proof
  assume none: "best_prefix_icon [?c] [''news-one''] = None"
  have "split_char (CHR ''-'') ''news-one'' = [''news'', ''one'']" by simp
  moreover have "(?c, candidate_prefix_score ?c [''news'', ''one'']) \<in> icon_hits [?c] [''news'', ''one'']"
    by (simp add: icon_hits_def has_token_prefix_def)
  ultimately show False using prefix_icon_best [of "[?c]" "[''news-one'']"] none by auto
qed

text \<open>The catalogue read as a list (\<open>GetSourceConfigs\<close>) and the lookup of one source
  (\<open>GetSourceConfig\<close>) agree: the first element of the list with the index is what the lookup
  returns, None for an unknown index.\<close>

lemma source_lookup_agrees:
  assumes "environ_ok (us_environ st)" and "distinct (map sc_index (us_dynamic st))"
  shows "get_source_config st i = find (\<lambda>s. sc_index s = i) (get_source_configs st)"
  using assms by (rule source_lookup)

lemma source_lookup_agrees_witness:
  "get_source_config demo_us ''1'' = find (\<lambda>s. sc_index s = ''1'') (get_source_configs demo_us)"
  by (rule source_lookup_agrees) (simp_all add: demo_us_def environ_ok_def)

text \<open>The list of source indexes has no duplicates and is sorted, numbers before names and
  numbers by their value ("2" before "10").\<close>

lemma m3u_indexes_sorted:
  "distinct (get_m3u_indexes st) \<and> sorted (map index_key_of (get_m3u_indexes st))"
  using distinct_m3u_indexes sorted_m3u_indexes by blast

text \<open>A request to an upstream always carries a user agent and an accept header, and no
  hop-by-hop header (nor, for internal requests, one of the client's own).\<close>

lemma upstream_request_header:
  "''User-Agent'' \<in> set (map fst (custom_request_header env orig internal)) \<and>
   ''Accept'' \<in> set (map fst (custom_request_header env orig internal)) \<and>
   (\<forall>kv \<in> set (custom_request_header env orig internal). \<not> should_skip_request_header (fst kv) internal)"
  using custom_request_header_agent custom_request_header_skips by blast

lemma upstream_request_header_witness:
  "\<not> should_skip_request_header ''User-Agent'' True"
  using upstream_request_header [of "[]" "[(''Cookie'', ''c'')]" True]
  by (auto simp: custom_request_header_def)

text \<open>Looking for the signature of a playlist at the start of a body does not change the
  body, when it starts with neither white space nor a byte order mark.\<close>

lemma sniffing_keeps_body:
  assumes "hr_body r \<noteq> []" and "\<not> is_space (hd (hr_body r))" and "hd (hr_body r) \<noteq> CHR 0xEF"
  shows "hr_body (snd (has_m3u8_signature n r)) = hr_body r"
  using assms by (rule signature_keeps_body)

lemma sniffing_keeps_body_witness: "hr_body (snd (has_m3u8_signature 4 demo_response)) = hr_body demo_response"
  by (rule sniffing_keeps_body) (simp_all add: demo_response_def is_space_def)

text \<open>A writer that was granted a slot gives back exactly this one when it ends, however
  its read loop ends and whatever the other streams did to the slots meanwhile.\<close>

lemma media_writer_returns_slot:
  assumes "cm_ok us cm" and "get_count cm (lr_index r) < cm_limit us cm (lr_index r)"
    and "cm_ok us (cm_end (snd (update_concurrency us (lr_index r) True cm)))"
    and "start_media_writer us cfg between cm_end r evs now (c, cm) = Some (c', cm')"
  shows "get_count cm' =
    (let n = get_count (cm_end (snd (update_concurrency us (lr_index r) True cm)))
     in n(lr_index r := max 0 (n (lr_index r) - 1)))"
  using assms by (rule media_writer_slot)

lemma media_writer_returns_slot_witness:
  "get_count (snd (the (start_media_writer demo_us demo_stream_config (\<lambda>_ c. c) (\<lambda>cm. cm) demo_result
      [(4, 5, ReadResult ''x'' None), (5, 6, ReadResult ''y'' (Some EOF))] 0
      (new_stream_coordinator demo_stream_config, new_concurrency_manager)))) =
    (let n = get_count (snd (update_concurrency demo_us ''1'' True new_concurrency_manager))
     in n(''1'' := max 0 (n ''1'' - 1)))"
proof -
  obtain c' cm' where run: "start_media_writer demo_us demo_stream_config (\<lambda>_ c. c) (\<lambda>cm. cm) demo_result
      [(4, 5, ReadResult ''x'' None), (5, 6, ReadResult ''y'' (Some EOF))] 0
      (new_stream_coordinator demo_stream_config, new_concurrency_manager) = Some (c', cm')"
    using demo_media_writer by auto
  show ?thesis
    using media_writer_returns_slot [OF demo_manager_ok demo_manager_free update_ok [OF demo_manager_ok] run]
    by (simp add: run)
qed

text \<open>The playlist proxy follows a chain of master playlists only so far: what the network would
  answer beyond the fifth request has no influence on what the client gets.\<close>

lemma master_chain_bounded:
  "process_m3u8_stream uo gunzip ctx (\<lambda>d v. if d \<le> max_master_follow_depth then fetch d v else beyond d v) p c =
     process_m3u8_stream uo gunzip ctx fetch p c"
  unfolding process_m3u8_stream_def by (rule process_response_depth) simp

text \<open>The guide identifier of a channel group is that of the least candidate (by source, then
  by order) among those the index knows, or among all when it knows none or is not loaded.\<close>

lemma guide_candidate_least:
  assumes "cs \<noteq> []"
  shows "\<exists>c \<in> set (eligible cs ix). pick_best_tvg_id cs ix = ec_tvg_id c \<and>
           (\<forall>d \<in> set (eligible cs ix). \<not> less_candidate d c)"
  using assms by (rule pick_best_least)

lemma guide_candidate_least_witness:
  "\<exists>c \<in> set (eligible [\<lparr>ec_tvg_id = ''a'', ec_source_index = 2, ec_order = 0\<rparr>,
                      \<lparr>ec_tvg_id = ''b'', ec_source_index = 1, ec_order = 5\<rparr>] None).
     pick_best_tvg_id [\<lparr>ec_tvg_id = ''a'', ec_source_index = 2, ec_order = 0\<rparr>,
                       \<lparr>ec_tvg_id = ''b'', ec_source_index = 1, ec_order = 5\<rparr>] None = ec_tvg_id c \<and>
     (\<forall>d \<in> set (eligible [\<lparr>ec_tvg_id = ''a'', ec_source_index = 2, ec_order = 0\<rparr>,
                      \<lparr>ec_tvg_id = ''b'', ec_source_index = 1, ec_order = 5\<rparr>] None). \<not> less_candidate d c)"
  by (rule guide_candidate_least) simp

text \<open>With a text key (group, type or title) the entries come out in the order of the lower
  case of the field, reversed for "desc".\<close>

lemma entries_sorted_by_text:
  assumes "text_field (sm_key m) = Some f" and "fst (get_sorted_entries m) = Some es"
  shows "sorted_wrt (\<lambda>a b. \<not> text_less (sm_dir m = ''desc'') f b a) es"
  using assms by (rule sorted_by_text)

lemma entries_sorted_by_text_witness:
  "sorted_wrt (\<lambda>a b. \<not> text_less (sm_dir demo_sorter = ''desc'') si_title b a)
     (the (fst (get_sorted_entries demo_sorter)))"
  by (rule entries_sorted_by_text [OF demo_sorter_key demo_sorter_sorted])

text \<open>A run without a critical error publishes its playlist: it becomes the only processed
  file, the slugs become those the run has made, and the directory of new slugs is gone.\<close>

lemma successful_run_published:
  assumes "\<not> pr_critical p"
  shows "pb_processed (snd (wait_processor us False p pb)) = [(pr_name p, pr_text p)] \<and>
    pb_slugs (snd (wait_processor us False p pb)) = fst (publish_slugs (pb_slugs pb, pb_new_slugs pb)) \<and>
    pb_new_slugs (snd (wait_processor us False p pb)) = None"
  using wait_success [OF assms] by blast

lemma successful_run_published_witness:
  "pb_processed (snd (wait_processor demo_us False demo_processor demo_published)) = [(''p2'', ''#EXTM3U'')] \<and>
   pb_slugs (snd (wait_processor demo_us False demo_processor demo_published)) =
     fst (publish_slugs (pb_slugs demo_published, pb_new_slugs demo_published)) \<and>
   pb_new_slugs (snd (wait_processor demo_us False demo_processor demo_published)) = None"
  using successful_run_published [of demo_processor demo_us demo_published]
  by (simp add: demo_processor_def)

text \<open>A slug of a published run leads back to its channel: reading it after the publication
  yields the stream it was made from, up to the fields that JSON does not hold, when no other
  stream of the run has the same slug.\<close>

lemma published_slug_decodes:
  assumes "s \<in> set ss" and "\<forall>t \<in> set ss. slug_of lib t = slug_of lib s \<longrightarrow> t = s" and "slug_dir_ok new"
  shows "decode_slug (fst (publish_slugs (cur, encode_slugs lib ss new)))
    (snd (publish_slugs (cur, encode_slugs lib ss new))) (slug_of lib s) = Inr (json_stream s)"
  using assms by (rule publish_roundtrip)

lemma published_slug_decodes_witness:
  "decode_slug (fst (publish_slugs (demo_slugs, encode_slugs demo_lib [demo_stream, demo_stream2] None)))
    (snd (publish_slugs (demo_slugs, encode_slugs demo_lib [demo_stream, demo_stream2] None)))
    (slug_of demo_lib demo_stream) = Inr (json_stream demo_stream)"
proof (rule published_slug_decodes)
  show "\<forall>t \<in> set [demo_stream, demo_stream2].
      slug_of demo_lib t = slug_of demo_lib demo_stream \<longrightarrow> t = demo_stream"
    using demo_slugs_differ by auto
qed (simp_all add: slug_dir_ok_def)

end
